(* ===== verification/Prelude.thy ===== *)
theory Prelude
  imports Main "HOL-Library.Word" "HOL-Library.AList"
begin

text \<open>
  Shared vocabulary of the development: the machine integers of the Rust sources, the
  standard-library operations every crate uses on them (\<open>saturating_add\<close>, \<open>checked_add\<close>,
  \<open>div_ceil\<close>), slices, and \<open>std::collections::HashMap\<close>. A Rust \<open>Result<T, E>\<close> is the sum
  \<open>'e + 't\<close> with \<open>Inl\<close> the error; \<open>Option<T>\<close> is \<open>'t option\<close>. Lengths of vectors are
  natural numbers; every integer the program stores or sends is a word of its own width
  (\<open>usize\<close> is 64 bits, the width of the supported targets).
\<close>

section \<open>Machine integers\<close>

type_synonym u8 = "8 word"
type_synonym u16 = "16 word"
type_synonym u32 = "32 word"
type_synonym u64 = "64 word"
type_synonym usize = "64 word"
type_synonym bytes = "u8 list"

named_theorems sat_simps \<open>values of the saturating operations as natural numbers\<close>
named_theorems hm_simps \<open>lookup and size laws of the hash-map operations\<close>

definition sat_add :: "'a::len word \<Rightarrow> 'a word \<Rightarrow> 'a word" where
  "sat_add a b = (if unat a + unat b < 2 ^ LENGTH('a) then a + b else - 1)"

definition checked_add :: "'a::len word \<Rightarrow> 'a word \<Rightarrow> 'a word option" where
  "checked_add a b = (if unat a + unat b < 2 ^ LENGTH('a) then Some (a + b) else None)"

definition sat_mul :: "'a::len word \<Rightarrow> 'a word \<Rightarrow> 'a word" where
  "sat_mul a b = (if unat a * unat b < 2 ^ LENGTH('a) then a * b else - 1)"

definition div_ceil :: "nat \<Rightarrow> nat \<Rightarrow> nat" where
  "div_ceil n d = n div d + (if n mod d = 0 then 0 else 1)"

text \<open>\<open>&xs[a..b]\<close> for \<open>a \<le> b \<le> xs.len()\<close>; the callers state the bound the slice needs.\<close>

definition slice :: "'a list \<Rightarrow> nat \<Rightarrow> nat \<Rightarrow> 'a list" where
  "slice xs a b = take (b - a) (drop a xs)"

text \<open>\<open>slice::get\<close>: \<open>None\<close> past the end.\<close>

definition nth_opt :: "'a list \<Rightarrow> nat \<Rightarrow> 'a option" where
  "nth_opt xs i = (if i < length xs then Some (xs ! i) else None)"

text \<open>\<open>slice::chunks(n)\<close> for \<open>n > 0\<close>.\<close>

function chunks_of :: "nat \<Rightarrow> 'a list \<Rightarrow> 'a list list" where
  "chunks_of n xs = (if xs = [] \<or> n = 0 then [] else take n xs # chunks_of n (drop n xs))"
  by pat_completeness auto
termination
  by (relation "measure (\<lambda>(n, xs). length xs)") auto

declare chunks_of.simps [simp del]

section \<open>Hash maps\<close>

text \<open>
  A \<open>HashMap<K, V>\<close> is an association list with distinct keys: lookup, insertion, removal
  and length are the map's, and iteration visits the entries in list order. The order of a
  real map is unspecified, so results that iterate are shown not to depend on it.
\<close>

type_synonym ('k, 'v) hmap = "('k \<times> 'v) list"

definition hm_get :: "('k, 'v) hmap \<Rightarrow> 'k \<Rightarrow> 'v option" where
  "hm_get m k = map_of m k"

definition hm_insert :: "'k \<Rightarrow> 'v \<Rightarrow> ('k, 'v) hmap \<Rightarrow> ('k, 'v) hmap" where
  "hm_insert k v m = AList.update k v m"

definition hm_remove :: "'k \<Rightarrow> ('k, 'v) hmap \<Rightarrow> ('k, 'v) hmap" where
  "hm_remove k m = AList.delete k m"

definition hm_contains :: "('k, 'v) hmap \<Rightarrow> 'k \<Rightarrow> bool" where
  "hm_contains m k = (hm_get m k \<noteq> None)"

definition hm_wf :: "('k, 'v) hmap \<Rightarrow> bool" where
  "hm_wf m = distinct (map fst m)"

subsection \<open>The interface the clients rely on\<close>

locale finite_map_store =
  fixes lookup :: "'m \<Rightarrow> 'k \<Rightarrow> 'v option"
    and insert_op :: "'k \<Rightarrow> 'v \<Rightarrow> 'm \<Rightarrow> 'm"
    and remove_op :: "'k \<Rightarrow> 'm \<Rightarrow> 'm"
    and entries :: "'m \<Rightarrow> ('k \<times> 'v) list"
    and wf :: "'m \<Rightarrow> bool"
  assumes lookup_insert: "lookup (insert_op k v m) = (lookup m)(k \<mapsto> v)"
    and lookup_remove: "lookup (remove_op k m) = (lookup m)(k := None)"
    and wf_insert: "wf m \<Longrightarrow> wf (insert_op k v m)"
    and wf_remove: "wf m \<Longrightarrow> wf (remove_op k m)"
    and entries_lookup: "wf m \<Longrightarrow> (k, v) \<in> set (entries m) \<longleftrightarrow> lookup m k = Some v"
    and entries_distinct: "wf m \<Longrightarrow> distinct (map fst (entries m))"
begin

lemma dom_insert: "dom (lookup (insert_op k v m)) = insert k (dom (lookup m))"
  by (simp add: lookup_insert)

lemma dom_entries: "wf m \<Longrightarrow> dom (lookup m) = fst ` set (entries m)"
proof -
  assume wf: "wf m"
  show ?thesis
  proof (rule set_eqI)
    fix k
    have "k \<in> dom (lookup m) \<longleftrightarrow> (\<exists>v. lookup m k = Some v)" by auto
    also have "\<dots> \<longleftrightarrow> (\<exists>v. (k, v) \<in> set (entries m))" by (simp add: entries_lookup [OF wf])
    also have "\<dots> \<longleftrightarrow> k \<in> fst ` set (entries m)" by force
    finally show "k \<in> dom (lookup m) \<longleftrightarrow> k \<in> fst ` set (entries m)" .
  qed
qed

lemma card_dom: "wf m \<Longrightarrow> card (dom (lookup m)) = length (entries m)"
  using entries_distinct [of m] distinct_card [of "map fst (entries m)"]
  by (simp add: dom_entries)

lemma length_insert:
  assumes "wf m"
  shows "length (entries (insert_op k v m)) =
    (if lookup m k = None then Suc (length (entries m)) else length (entries m))"
proof -
  have fin: "finite (dom (lookup m))" using assms by (simp add: dom_entries)
  have "length (entries (insert_op k v m)) = card (insert k (dom (lookup m)))"
    using card_dom [OF wf_insert [OF assms, of k v]] by (simp add: dom_insert)
  also have "\<dots> = (if k \<in> dom (lookup m) then card (dom (lookup m)) else Suc (card (dom (lookup m))))"
    using fin by (simp add: card_insert_if)
  finally show ?thesis using card_dom [OF assms] by (auto simp: domIff)
qed

end

interpretation hm: finite_map_store hm_get hm_insert hm_remove "\<lambda>m. m" hm_wf
proof unfold_locales
  show "hm_get (hm_insert k v m) = (hm_get m)(k \<mapsto> v)" for k :: 'k and v :: 'v and m
    by (simp add: hm_get_def [abs_def] hm_insert_def update_conv' fun_eq_iff)
  show "hm_get (hm_remove k m) = (hm_get m)(k := None)" for k :: 'k and m :: "('k, 'v) hmap"
    by (simp add: hm_get_def [abs_def] hm_remove_def delete_conv' fun_eq_iff)
  show "hm_wf m \<Longrightarrow> hm_wf (hm_insert k v m)" for k :: 'k and v :: 'v and m
    by (simp add: hm_wf_def hm_insert_def distinct_update)
  show "hm_wf m \<Longrightarrow> hm_wf (hm_remove k m)" for k :: 'k and m :: "('k, 'v) hmap"
    by (simp add: hm_wf_def hm_remove_def distinct_delete)
  show "hm_wf m \<Longrightarrow> (k, v) \<in> set m \<longleftrightarrow> hm_get m k = Some v" for k :: 'k and v :: 'v and m
    by (simp add: hm_wf_def hm_get_def)
  show "hm_wf m \<Longrightarrow> distinct (map fst m)" for m :: "('k, 'v) hmap"
    by (simp add: hm_wf_def)
qed

declare hm.lookup_insert [hm_simps] hm.lookup_remove [hm_simps]

lemma hm_get_insert [hm_simps, simp]: "hm_get (hm_insert k v m) k' = (if k' = k then Some v else hm_get m k')"
  by (simp add: hm.lookup_insert)

lemma hm_get_remove [hm_simps, simp]: "hm_get (hm_remove k m) k' = (if k' = k then None else hm_get m k')"
  by (simp add: hm.lookup_remove)

lemma hm_get_empty [simp]: "hm_get [] k = None"
  by (simp add: hm_get_def)

lemma hm_wf_empty [simp]: "hm_wf []"
  by (simp add: hm_wf_def)

lemma hm_wf_insert [simp, intro]: "hm_wf m \<Longrightarrow> hm_wf (hm_insert k v m)"
  by (rule hm.wf_insert)

lemma hm_wf_remove [simp, intro]: "hm_wf m \<Longrightarrow> hm_wf (hm_remove k m)"
  by (rule hm.wf_remove)

section \<open>Generic lemmas\<close>

subsection \<open>Saturating and checked arithmetic\<close>

lemma unat_less_power [simp]: "unat a < 2 ^ LENGTH('a)" for a :: "'a::len word"
  by (rule unsigned_less)

lemma u64_bounds: "unat w < 2 ^ 64" "unat w \<le> 2 ^ 64 - 1" for w :: u64
proof -
  show "unat w < 2 ^ 64" by (rule order.strict_trans2 [OF unsigned_less]) simp
  then show "unat w \<le> 2 ^ 64 - 1" by linarith
qed

lemma u32_bound: "unat w < 2 ^ 32" for w :: u32
  by (rule order.strict_trans2 [OF unsigned_less]) simp

lemma unat_ucast_u32 [simp]: "unat (ucast w :: u64) = unat w" for w :: u32
proof -
  have "unat w < 2 ^ 64" using u32_bound [of w] by simp
  then show ?thesis by (simp add: unsigned_ucast_eq take_bit_nat_eq_self)
qed

lemma ucast_of_nat_u32: "n < 2 ^ 32 \<Longrightarrow> (ucast (of_nat n :: u32) :: u64) = of_nat n"
  by (rule word_unat_eq_iff [THEN iffD2]) (simp add: unat_of_nat take_bit_nat_eq_self)

lemma unat_max_value: "unat (- 1 :: 'a::len word) = 2 ^ LENGTH('a) - 1"
  by (simp add: unsigned_minus_1_eq_mask mask_eq_exp_minus_1)

lemma unat_sat_add [sat_simps]:
  "unat (sat_add a b) = min (unat a + unat b) (2 ^ LENGTH('a) - 1)" for a b :: "'a::len word"
  by (auto simp: sat_add_def unat_word_ariths unat_max_value min_def)

lemma unat_sat_mul [sat_simps]:
  "unat (sat_mul a b) = min (unat a * unat b) (2 ^ LENGTH('a) - 1)" for a b :: "'a::len word"
proof (cases "unat a * unat b < 2 ^ LENGTH('a)")
  case True
  then show ?thesis by (simp add: sat_mul_def unat_word_ariths)
next
  case False
  then have "2 ^ LENGTH('a) - 1 \<le> unat a * unat b" by linarith
  with False show ?thesis by (simp add: sat_mul_def unat_max_value min_absorb2)
qed

lemma sat_add_zero [simp]: "sat_add 0 a = a" "sat_add a 0 = a"
  using unat_less_power [of a] by (simp_all add: sat_add_def)

text \<open>Overflow seen on the words themselves: the form the evaluator uses.\<close>

lemma no_overflow_iff: "unat a + unat b < 2 ^ LENGTH('a) \<longleftrightarrow> a \<le> a + b" for a b :: "'a::len word"
  by (simp add: no_olen_add_nat)

lemma sat_add_code [code]: "sat_add a b = (if a \<le> a + b then a + b else - 1)" for a b :: "'a::len word"
  by (simp add: sat_add_def no_overflow_iff)

lemma checked_add_code [code]: "checked_add a b = (if a \<le> a + b then Some (a + b) else None)" for a b :: "'a::len word"
  by (simp add: checked_add_def no_overflow_iff)

lemma sat_mul_code [code]: "sat_mul a b = (if uint a * uint b < 2 ^ LENGTH('a) then a * b else - 1)" for a b :: "'a::len word"
proof -
  have "int (unat a * unat b) < int (2 ^ LENGTH('a)) \<longleftrightarrow> uint a * uint b < 2 ^ LENGTH('a)" by simp
  then have "unat a * unat b < 2 ^ LENGTH('a) \<longleftrightarrow> uint a * uint b < 2 ^ LENGTH('a)" by (simp only: of_nat_less_iff)
  then show ?thesis by (simp add: sat_mul_def)
qed

lemma checked_add_Some: "checked_add a b = Some c \<longleftrightarrow> unat a + unat b < 2 ^ LENGTH('a) \<and> c = a + b"
  for a b c :: "'a::len word"
  by (auto simp: checked_add_def)

lemma unat_checked_add: "checked_add a b = Some c \<Longrightarrow> unat c = unat a + unat b"
  for a b c :: "'a::len word"
  by (auto simp: checked_add_Some unat_word_ariths)

lemma sat_add_le: "a \<le> sat_add a b" for a b :: "'a::len word"
proof -
  have "unat a \<le> 2 ^ LENGTH('a) - 1" using unat_less_power [of a] by linarith
  then show ?thesis by (simp add: word_le_nat_alt unat_sat_add)
qed

text \<open>Saturating sums do not depend on the order of the summands.\<close>

lemma sat_add_commute: "sat_add a b = sat_add b a" for a b :: "'a::len word"
  by (simp add: sat_add_def add.commute)

lemma sat_add_left_commute: "sat_add a (sat_add b c) = sat_add b (sat_add a c)" for a b c :: "'a::len word"
proof (rule word_unat_eq_iff [THEN iffD2])
  have "unat a < 2 ^ LENGTH('a)" "unat b < 2 ^ LENGTH('a)" by simp_all
  then show "unat (sat_add a (sat_add b c)) = unat (sat_add b (sat_add a c))"
    unfolding unat_sat_add by linarith
qed

subsection \<open>Slices and chunks\<close>

lemma length_slice [simp]: "b \<le> length xs \<Longrightarrow> length (slice xs a b) = b - a"
  by (simp add: slice_def)

lemma slice_append: "a \<le> b \<Longrightarrow> b \<le> c \<Longrightarrow> slice xs a b @ slice xs b c = slice xs a c"
proof -
  assume ab: "a \<le> b" and bc: "b \<le> c"
  have "c - a = (b - a) + (c - b)" using ab bc by simp
  then have "take (c - a) (drop a xs) = take (b - a) (drop a xs) @ take (c - b) (drop (b - a) (drop a xs))"
    by (simp only: take_add)
  then show ?thesis
    using ab by (simp add: slice_def)
qed

lemma slice_all [simp]: "slice xs 0 (length xs) = xs"
  by (simp add: slice_def)

lemma slice_empty [simp]: "slice xs a a = []"
  by (simp add: slice_def)

lemma nth_opt_Some: "nth_opt xs i = Some x \<longleftrightarrow> i < length xs \<and> xs ! i = x"
  by (auto simp: nth_opt_def)

lemma chunks_of_Nil [simp]: "chunks_of n [] = []"
  by (simp add: chunks_of.simps)

lemma chunks_of_step: "xs \<noteq> [] \<Longrightarrow> 0 < n \<Longrightarrow> chunks_of n xs = take n xs # chunks_of n (drop n xs)"
  by (subst chunks_of.simps) simp

lemma concat_chunks_of: "0 < n \<Longrightarrow> concat (chunks_of n xs) = xs"
  by (induction n xs rule: chunks_of.induct) (subst chunks_of.simps, auto)

lemma div_ceil_step: "0 < d \<Longrightarrow> 0 < n \<Longrightarrow> div_ceil n d = Suc (div_ceil (n - d) d)"
proof -
  assume d: "0 < d" and n: "0 < n"
  show ?thesis
  proof (cases "n < d")
    case True
    then show ?thesis using n by (simp add: div_ceil_def)
  next
    case False
    then have "n div d = Suc ((n - d) div d)" "n mod d = (n - d) mod d"
      using d by (simp_all add: le_div_geq le_mod_geq)
    then show ?thesis by (simp add: div_ceil_def)
  qed
qed

lemma length_chunks_of: "0 < n \<Longrightarrow> length (chunks_of n xs) = div_ceil (length xs) n"
proof (induction n xs rule: chunks_of.induct)
  case (1 n xs)
  show ?case
  proof (cases "xs = []")
    case True
    then show ?thesis by (simp add: div_ceil_def)
  next
    case False
    with 1 have "length (chunks_of n (drop n xs)) = div_ceil (length xs - n) n" by simp
    with False 1(2) show ?thesis
      by (subst chunks_of.simps) (simp add: div_ceil_step)
  qed
qed

end
