(* ===== verification/Merkle.thy ===== *)
theory Merkle
  imports Prelude
begin

unbundle bit_operations_syntax

text \<open>
  The content hashes and the binary Merkle tree of \<open>crates/np2ptp-core/src/hash.rs\<close>. The digest
  function of the \<open>blake3\<close> crate is the parameter \<open>blake3\<close>: its input is the whole message (a
  \<open>Hasher\<close> fed in pieces digests their concatenation) and its output the digest bytes. The
  lemmas show that every proof the tree hands out verifies, and, for a digest that does not
  collide on the messages hashed, that a root determines its chunk list and that only listed
  chunks verify.
\<close>

section \<open>Hashes\<close>

datatype hash = Hash (as_bytes: bytes)

definition wf_hash :: "hash \<Rightarrow> bool" where
  "wf_hash h = (length (as_bytes h) = 32)"

definition hash_of :: "(bytes \<Rightarrow> bytes) \<Rightarrow> bytes \<Rightarrow> hash" where
  "hash_of blake3 data = Hash (blake3 data)"

section \<open>The Merkle tree\<close>

definition LEAF_TAG :: u8 where "LEAF_TAG = 0"

definition NODE_TAG :: u8 where "NODE_TAG = 1"

definition EMPTY_TAG :: u8 where "EMPTY_TAG = 2"

definition leaf_hash :: "(bytes \<Rightarrow> bytes) \<Rightarrow> hash \<Rightarrow> hash" where
  "leaf_hash blake3 chunk = Hash (blake3 ([LEAF_TAG] @ as_bytes chunk))"

definition node_hash :: "(bytes \<Rightarrow> bytes) \<Rightarrow> hash \<Rightarrow> hash \<Rightarrow> hash" where
  "node_hash blake3 l r = Hash (blake3 ([NODE_TAG] @ as_bytes l @ as_bytes r))"

record proof_step =
  sibling_on_left :: bool
  step_hash :: hash

record merkle_proof_rec =
  proof_index :: nat
  proof_steps :: "proof_step list"

text \<open>One pass of the inner loop: pair neighbours, carry an odd last node up unchanged.\<close>

fun next_level :: "(bytes \<Rightarrow> bytes) \<Rightarrow> hash list \<Rightarrow> hash list" where
  "next_level blake3 (a # b # rest) = node_hash blake3 a b # next_level blake3 rest"
| "next_level blake3 [a] = [a]"
| "next_level blake3 [] = []"

lemma length_next_level: "length (next_level blake3 xs) = (length xs + 1) div 2"
  by (induction blake3 xs rule: next_level.induct) auto

function levels_from :: "(bytes \<Rightarrow> bytes) \<Rightarrow> hash list \<Rightarrow> hash list list" where
  "levels_from blake3 cur =
     (if length cur > 1 then cur # levels_from blake3 (next_level blake3 cur) else [cur])"
  by pat_completeness auto
termination
  by (relation "measure (\<lambda>(b, cur). length cur)") (auto simp: length_next_level)

declare levels_from.simps [simp del]

definition build_levels :: "(bytes \<Rightarrow> bytes) \<Rightarrow> hash list \<Rightarrow> hash list list" where
  "build_levels blake3 chunk_hashes = levels_from blake3 (map (leaf_hash blake3) chunk_hashes)"

definition merkle_root :: "(bytes \<Rightarrow> bytes) \<Rightarrow> hash list \<Rightarrow> hash" where
  "merkle_root blake3 chunk_hashes =
     (if chunk_hashes = [] then Hash (blake3 [EMPTY_TAG])
      else last (build_levels blake3 chunk_hashes) ! 0)"

text \<open>The loop of \<open>merkle_proof\<close> over the levels below the root, at the running index.\<close>

fun proof_walk :: "hash list list \<Rightarrow> nat \<Rightarrow> proof_step list" where
  "proof_walk [] idx = []"
| "proof_walk (level # levels) idx =
     (let sib = idx XOR 1 in
      (if sib < length level
       then [\<lparr>sibling_on_left = sib < idx, step_hash = level ! sib\<rparr>] else [])
      @ proof_walk levels (idx div 2))"

definition merkle_proof :: "(bytes \<Rightarrow> bytes) \<Rightarrow> hash list \<Rightarrow> nat \<Rightarrow> merkle_proof_rec option" where
  "merkle_proof blake3 chunk_hashes index =
     (if index \<ge> length chunk_hashes then None
      else let levels = build_levels blake3 chunk_hashes in
        Some \<lparr>proof_index = index, proof_steps = proof_walk (butlast levels) index\<rparr>)"

definition apply_step :: "(bytes \<Rightarrow> bytes) \<Rightarrow> hash \<Rightarrow> proof_step \<Rightarrow> hash" where
  "apply_step blake3 acc step =
     (if sibling_on_left step then node_hash blake3 (step_hash step) acc
      else node_hash blake3 acc (step_hash step))"

definition merkle_verify :: "(bytes \<Rightarrow> bytes) \<Rightarrow> hash \<Rightarrow> merkle_proof_rec \<Rightarrow> hash \<Rightarrow> bool" where
  "merkle_verify blake3 chunk_hash proof root =
     (foldl (apply_step blake3) (leaf_hash blake3 chunk_hash) (proof_steps proof) = root)"

section \<open>The tree as a term\<close>

text \<open>
  Specification side: the tree the levels describe, the message each node hashes, and the
  leaves in order.
\<close>

datatype mtree = Leaf hash | Node mtree mtree

fun tree_hash :: "(bytes \<Rightarrow> bytes) \<Rightarrow> mtree \<Rightarrow> hash" where
  "tree_hash blake3 (Leaf c) = leaf_hash blake3 c"
| "tree_hash blake3 (Node l r) = node_hash blake3 (tree_hash blake3 l) (tree_hash blake3 r)"

fun tree_leaves :: "mtree \<Rightarrow> hash list" where
  "tree_leaves (Leaf c) = [c]"
| "tree_leaves (Node l r) = tree_leaves l @ tree_leaves r"

fun tree_inputs :: "(bytes \<Rightarrow> bytes) \<Rightarrow> mtree \<Rightarrow> bytes list" where
  "tree_inputs blake3 (Leaf c) = [[LEAF_TAG] @ as_bytes c]"
| "tree_inputs blake3 (Node l r) =
     ([NODE_TAG] @ as_bytes (tree_hash blake3 l) @ as_bytes (tree_hash blake3 r))
     # tree_inputs blake3 l @ tree_inputs blake3 r"

fun pair_trees :: "mtree list \<Rightarrow> mtree list" where
  "pair_trees (a # b # rest) = Node a b # pair_trees rest"
| "pair_trees [a] = [a]"
| "pair_trees [] = []"

lemma length_pair_trees: "length (pair_trees ts) = (length ts + 1) div 2"
  by (induction ts rule: pair_trees.induct) auto

function join_trees :: "mtree list \<Rightarrow> mtree" where
  "join_trees ts = (if length ts > 1 then join_trees (pair_trees ts) else hd ts)"
  by pat_completeness auto
termination
  by (relation "measure length") (auto simp: length_pair_trees)

declare join_trees.simps [simp del]

text \<open>The messages hashed to compute a root, and those hashed to check a proof.\<close>

definition merkle_inputs :: "(bytes \<Rightarrow> bytes) \<Rightarrow> hash list \<Rightarrow> bytes set" where
  "merkle_inputs blake3 hs =
     (if hs = [] then {[EMPTY_TAG]} else set (tree_inputs blake3 (join_trees (map Leaf hs))))"

fun step_inputs :: "(bytes \<Rightarrow> bytes) \<Rightarrow> hash \<Rightarrow> proof_step list \<Rightarrow> bytes list" where
  "step_inputs blake3 acc [] = []"
| "step_inputs blake3 acc (s # ss) =
     (if sibling_on_left s then [NODE_TAG] @ as_bytes (step_hash s) @ as_bytes acc
      else [NODE_TAG] @ as_bytes acc @ as_bytes (step_hash s))
     # step_inputs blake3 (apply_step blake3 acc s) ss"

definition verify_inputs :: "(bytes \<Rightarrow> bytes) \<Rightarrow> hash \<Rightarrow> merkle_proof_rec \<Rightarrow> bytes set" where
  "verify_inputs blake3 c p =
     insert ([LEAF_TAG] @ as_bytes c) (set (step_inputs blake3 (leaf_hash blake3 c) (proof_steps p)))"

text \<open>The documented size of a BLAKE3 digest.\<close>

definition digest32 :: "(bytes \<Rightarrow> bytes) \<Rightarrow> bool" where
  "digest32 blake3 = (\<forall>x. length (blake3 x) = 32)"

text \<open>A concrete 32-byte digest for worked instances: two 16-byte windows of the padded message.\<close>

definition mix_digest :: "bytes \<Rightarrow> bytes" where
  "mix_digest x =
     take 16 (x @ replicate 16 0) @ take 16 (drop 33 x @ replicate 16 0)"

lemma digest32_mix_digest: "digest32 mix_digest"
  by (auto simp: digest32_def mix_digest_def min_def)

section \<open>Completeness of inclusion proofs\<close>

lemma xor_one_cases: "(i::nat) XOR 1 = (if even i then i + 1 else i - 1)"
  by (simp add: xor_Suc_0_eq)

lemma next_level_nth:
  "i < length xs \<Longrightarrow> next_level blake3 xs ! (i div 2) =
     (let sib = i XOR 1 in
      if sib < length xs
      then apply_step blake3 (xs ! i) \<lparr>sibling_on_left = sib < i, step_hash = xs ! sib\<rparr>
      else xs ! i)"
proof (induction blake3 xs arbitrary: i rule: next_level.induct)
  case (1 blake3 a b rest)
  show ?case
  proof (cases "i < 2")
    case True
    then consider "i = 0" | "i = 1" by linarith
    then show ?thesis by cases (simp_all add: xor_one_cases apply_step_def)
  next
    case False
    then obtain j where j: "i = j + 2" by (metis add.commute le_Suc_ex not_less)
    with 1 have "next_level blake3 rest ! (j div 2) =
      (let sib = j XOR 1 in if sib < length rest
        then apply_step blake3 (rest ! j) \<lparr>sibling_on_left = sib < j, step_hash = rest ! sib\<rparr>
        else rest ! j)" by simp
    moreover have "(j + 2) XOR 1 = (j XOR 1) + 2" unfolding xor_one_cases by (auto elim: oddE)
    ultimately show ?thesis using j by (simp add: Let_def)
  qed
qed (auto simp: xor_one_cases)

lemma levels_from_nonempty: "levels_from blake3 xs \<noteq> []"
  by (subst levels_from.simps) simp

lemma proof_walk_root:
  "i < length xs \<Longrightarrow>
   foldl (apply_step blake3) (xs ! i) (proof_walk (butlast (levels_from blake3 xs)) i)
   = last (levels_from blake3 xs) ! 0"
proof (induction blake3 xs arbitrary: i rule: levels_from.induct)
  case (1 blake3 xs)
  show ?case
  proof (cases "length xs > 1")
    case True
    let ?n = "next_level blake3 xs"
    have len: "i div 2 < length ?n" using "1.prems" by (simp add: length_next_level)
    have IH: "foldl (apply_step blake3) (?n ! (i div 2)) (proof_walk (butlast (levels_from blake3 ?n)) (i div 2))
        = last (levels_from blake3 ?n) ! 0"
      by (rule "1.IH" [OF True len])
    have lv: "levels_from blake3 xs = xs # levels_from blake3 ?n"
      using True by (subst levels_from.simps) simp
    show ?thesis
      using IH "1.prems" levels_from_nonempty [of blake3 ?n]
      by (simp add: lv next_level_nth Let_def split: if_splits)
  next
    case False
    with "1.prems" have "levels_from blake3 xs = [xs]" "i = 0"
      by (simp_all add: levels_from.simps [of blake3 xs])
    then show ?thesis by simp
  qed
qed

lemma merkle_proof_out_of_range: "merkle_proof blake3 hs i = None \<longleftrightarrow> length hs \<le> i"
  by (simp add: merkle_proof_def Let_def)

lemma merkle_proof_verifies:
  assumes "merkle_proof blake3 hs i = Some p"
  shows "merkle_verify blake3 (hs ! i) p r \<longleftrightarrow> r = merkle_root blake3 hs"
proof -
  have i: "i < length hs" using assms by (auto simp: merkle_proof_def split: if_splits)
  have "foldl (apply_step blake3) (map (leaf_hash blake3) hs ! i)
      (proof_walk (butlast (build_levels blake3 hs)) i) = last (build_levels blake3 hs) ! 0"
    unfolding build_levels_def using i by (intro proof_walk_root) simp
  then show ?thesis
    using assms i by (auto simp: merkle_proof_def merkle_verify_def merkle_root_def Let_def)
qed

subsection \<open>The interface of inclusion proofs\<close>

text \<open>
  What a client of the tree relies on: a proof exists exactly for the indices in range, and the
  proof it gets verifies the listed chunk against the root of the same list and no other root.
\<close>

locale inclusion_proofs =
  fixes root :: "'h list \<Rightarrow> 'h"
    and prove :: "'h list \<Rightarrow> nat \<Rightarrow> 'p option"
    and verify :: "'h \<Rightarrow> 'p \<Rightarrow> 'h \<Rightarrow> bool"
  assumes out_of_range: "prove hs i = None \<longleftrightarrow> length hs \<le> i"
    and proved_verifies: "prove hs i = Some p \<Longrightarrow> verify (hs ! i) p r \<longleftrightarrow> r = root hs"
begin

lemma self_check:
  "(case prove hs i of None \<Rightarrow> False | Some p \<Rightarrow> verify (hs ! i) p r) \<longleftrightarrow> i < length hs \<and> r = root hs"
  using out_of_range [of hs i] proved_verifies [of hs i] by (auto split: option.split)

end

interpretation mk: inclusion_proofs "merkle_root blake3" "merkle_proof blake3" "merkle_verify blake3"
  for blake3 :: "bytes \<Rightarrow> bytes"
  by unfold_locales (simp_all add: merkle_proof_out_of_range merkle_proof_verifies)

section \<open>Binding\<close>

lemma pair_trees_hash: "map (tree_hash blake3) (pair_trees ts) = next_level blake3 (map (tree_hash blake3) ts)"
  by (induction ts rule: pair_trees.induct) simp_all

lemma pair_trees_leaves: "concat (map tree_leaves (pair_trees ts)) = concat (map tree_leaves ts)"
  by (induction ts rule: pair_trees.induct) simp_all

lemma join_trees_hash:
  "ts \<noteq> [] \<Longrightarrow> last (levels_from blake3 (map (tree_hash blake3) ts)) ! 0 = tree_hash blake3 (join_trees ts)"
proof (induction ts rule: join_trees.induct)
  case (1 ts)
  show ?case
  proof (cases "length ts > 1")
    case True
    then have "pair_trees ts \<noteq> []" using length_pair_trees [of ts] by auto
    with True 1 show ?thesis
      using levels_from_nonempty
      by (subst levels_from.simps, subst join_trees.simps) (simp add: pair_trees_hash)
  next
    case False
    with "1.prems" obtain t where "ts = [t]" by (cases ts) auto
    then show ?thesis by (simp add: levels_from.simps join_trees.simps)
  qed
qed

lemma join_trees_leaves: "ts \<noteq> [] \<Longrightarrow> tree_leaves (join_trees ts) = concat (map tree_leaves ts)"
proof (induction ts rule: join_trees.induct)
  case (1 ts)
  show ?case
  proof (cases "length ts > 1")
    case True
    then have "pair_trees ts \<noteq> []" using length_pair_trees [of ts] by auto
    with True 1 show ?thesis by (subst join_trees.simps) (simp add: pair_trees_leaves)
  next
    case False
    with "1.prems" obtain t where "ts = [t]" by (cases ts) auto
    then show ?thesis by (simp add: join_trees.simps)
  qed
qed

lemma merkle_root_tree:
  "hs \<noteq> [] \<Longrightarrow> merkle_root blake3 hs = tree_hash blake3 (join_trees (map Leaf hs))"
  using join_trees_hash [of "map Leaf hs" blake3]
  by (simp add: merkle_root_def build_levels_def comp_def)

lemma merkle_tree_leaves: "hs \<noteq> [] \<Longrightarrow> tree_leaves (join_trees (map Leaf hs)) = hs"
  by (simp add: join_trees_leaves comp_def)

lemma tags_distinct [simp]: "LEAF_TAG \<noteq> NODE_TAG" "NODE_TAG \<noteq> LEAF_TAG" "EMPTY_TAG \<noteq> LEAF_TAG" "EMPTY_TAG \<noteq> NODE_TAG"
    "LEAF_TAG \<noteq> EMPTY_TAG" "NODE_TAG \<noteq> EMPTY_TAG"
  by (simp_all add: LEAF_TAG_def NODE_TAG_def EMPTY_TAG_def)

text \<open>Every tree hash is the digest of the tree's top message.\<close>

lemma tree_hash_top: "tree_hash blake3 t = Hash (blake3 (hd (tree_inputs blake3 t)))"
  by (cases t) (simp_all add: leaf_hash_def node_hash_def)

lemma tree_inputs_nonempty [simp]: "tree_inputs blake3 t \<noteq> []"
  by (cases t) simp_all

lemma tree_hash_length: "digest32 blake3 \<Longrightarrow> length (as_bytes (tree_hash blake3 t)) = 32"
  by (simp add: tree_hash_top digest32_def)

lemma hd_tree_inputs: "hd (tree_inputs blake3 t) \<in> set (tree_inputs blake3 t)"
  by simp

lemma tree_top_inj:
  assumes "inj_on blake3 A" and "set (tree_inputs blake3 t) \<subseteq> A" and "x \<in> A"
    and "tree_hash blake3 t = Hash (blake3 x)"
  shows "hd (tree_inputs blake3 t) = x"
proof -
  have "blake3 (hd (tree_inputs blake3 t)) = blake3 x"
    using assms(4) tree_hash_top [of blake3 t] by simp
  then show ?thesis
    using assms(1-3) hd_tree_inputs [of blake3 t] by (meson inj_onD subsetD)
qed

lemma tree_tops_inj:
  assumes "inj_on blake3 (set (tree_inputs blake3 t) \<union> set (tree_inputs blake3 u))"
    and "tree_hash blake3 t = tree_hash blake3 u"
  shows "hd (tree_inputs blake3 t) = hd (tree_inputs blake3 u)"
  using assms tree_hash_top [of blake3 u] hd_tree_inputs [of blake3 u]
  by (intro tree_top_inj [of blake3 "set (tree_inputs blake3 t) \<union> set (tree_inputs blake3 u)"]) simp_all

lemma tree_hash_inj:
  "digest32 blake3 \<Longrightarrow> inj_on blake3 (set (tree_inputs blake3 t) \<union> set (tree_inputs blake3 u)) \<Longrightarrow>
   tree_hash blake3 t = tree_hash blake3 u \<Longrightarrow> t = u"
proof (induction t arbitrary: u)
  case (Leaf c)
  have "hd (tree_inputs blake3 (Leaf c)) = hd (tree_inputs blake3 u)"
    using Leaf.prems(2,3) by (rule tree_tops_inj)
  then show ?case by (cases u) (auto intro: hash.expand)
next
  case (Node l r)
  have top: "hd (tree_inputs blake3 (Node l r)) = hd (tree_inputs blake3 u)"
    using Node.prems(2,3) by (rule tree_tops_inj)
  then obtain l' r' where u: "u = Node l' r'" by (cases u) auto
  with top have eqs: "tree_hash blake3 l = tree_hash blake3 l'" "tree_hash blake3 r = tree_hash blake3 r'"
    by (auto simp: tree_hash_length [OF Node.prems(1)] intro: hash.expand)
  have "l = l'"
    using Node.prems(1,2) u eqs(1) by (intro Node.IH(1)) (auto elim!: inj_on_subset)
  moreover have "r = r'"
    using Node.prems(1,2) u eqs(2) by (intro Node.IH(2)) (auto elim!: inj_on_subset)
  ultimately show ?case using u by simp
qed

lemma tree_hash_not_empty_root:
  assumes "inj_on blake3 (insert [EMPTY_TAG] (set (tree_inputs blake3 t)))"
  shows "tree_hash blake3 t \<noteq> Hash (blake3 [EMPTY_TAG])"
proof
  assume "tree_hash blake3 t = Hash (blake3 [EMPTY_TAG])"
  then have "hd (tree_inputs blake3 t) = [EMPTY_TAG]"
    by (intro tree_top_inj [OF assms]) auto
  then show False by (cases t) auto
qed

lemma merkle_root_empty_iff:
  assumes "inj_on blake3 (merkle_inputs blake3 [] \<union> merkle_inputs blake3 hs)"
    and "merkle_root blake3 [] = merkle_root blake3 hs"
  shows "hs = []"
proof (rule ccontr)
  assume ne: "hs \<noteq> []"
  with assms(1) have "tree_hash blake3 (join_trees (map Leaf hs)) \<noteq> Hash (blake3 [EMPTY_TAG])"
    by (intro tree_hash_not_empty_root) (simp add: merkle_inputs_def)
  with ne assms(2) show False
    by (simp add: merkle_root_tree) (simp add: merkle_root_def)
qed

lemma merkle_root_eq_imp:
  assumes "digest32 blake3" and inj: "inj_on blake3 (merkle_inputs blake3 hs \<union> merkle_inputs blake3 hs')"
    and eq: "merkle_root blake3 hs = merkle_root blake3 hs'"
  shows "hs = hs'"
proof -
  consider "hs = []" | "hs' = []" | "hs \<noteq> []" "hs' \<noteq> []" by blast
  then show ?thesis
  proof cases
    case 1
    then show ?thesis using merkle_root_empty_iff [of blake3 hs'] inj eq by simp
  next
    case 2
    then show ?thesis using merkle_root_empty_iff [of blake3 hs] inj eq by (simp add: Un_commute)
  next
    case 3
    then have "join_trees (map Leaf hs) = join_trees (map Leaf hs')"
      using assms by (intro tree_hash_inj [of blake3]) (simp_all add: merkle_inputs_def merkle_root_tree)
    then show ?thesis using 3 merkle_tree_leaves by metis
  qed
qed

text \<open>A verification path that reaches the root of a tree follows a branch to one of its leaves.\<close>

lemma foldl_apply_step_length:
  "digest32 blake3 \<Longrightarrow> length (as_bytes acc) = 32 \<Longrightarrow>
   length (as_bytes (foldl (apply_step blake3) acc ss)) = 32"
  by (induction ss arbitrary: acc) (auto simp: apply_step_def node_hash_def digest32_def)


lemma step_inputs_append:
  "step_inputs blake3 acc (ss @ ss') = step_inputs blake3 acc ss @ step_inputs blake3 (foldl (apply_step blake3) acc ss) ss'"
  by (induction ss arbitrary: acc) simp_all

lemma verify_path_leaf:
  assumes "digest32 blake3" and "inj_on blake3 A" and "[LEAF_TAG] @ as_bytes c \<in> A"
  shows "set (step_inputs blake3 (leaf_hash blake3 c) ss) \<subseteq> A \<Longrightarrow> set (tree_inputs blake3 t) \<subseteq> A \<Longrightarrow>
    foldl (apply_step blake3) (leaf_hash blake3 c) ss = tree_hash blake3 t \<Longrightarrow> c \<in> set (tree_leaves t)"
proof (induction ss arbitrary: t rule: rev_induct)
  case Nil
  then have "hd (tree_inputs blake3 t) = [LEAF_TAG] @ as_bytes c"
    using assms by (intro tree_top_inj [of blake3 A]) (simp_all add: leaf_hash_def)
  then show ?case by (cases t) (auto intro: hash.expand)
next
  case (snoc s ss)
  let ?acc = "foldl (apply_step blake3) (leaf_hash blake3 c) ss"
  let ?m = "if sibling_on_left s then [NODE_TAG] @ as_bytes (step_hash s) @ as_bytes ?acc
            else [NODE_TAG] @ as_bytes ?acc @ as_bytes (step_hash s)"
  have len: "length (as_bytes ?acc) = 32"
    using assms(1) by (intro foldl_apply_step_length) (simp_all add: leaf_hash_def digest32_def)
  have sub: "set (step_inputs blake3 (leaf_hash blake3 c) ss) \<subseteq> A" and m: "?m \<in> A"
    using snoc.prems(1) by (auto simp: step_inputs_append)
  have "tree_hash blake3 t = Hash (blake3 ?m)"
    using snoc.prems(3) by (simp add: apply_step_def [of blake3 ?acc s] node_hash_def split: if_splits)
  with assms(2) snoc.prems(2) m have "hd (tree_inputs blake3 t) = ?m"
    by (intro tree_top_inj)
  then obtain l r where t: "t = Node l r"
    and body: "as_bytes (tree_hash blake3 l) @ as_bytes (tree_hash blake3 r) = tl ?m"
    by (cases t) (auto split: if_splits)
  have hl: "length (as_bytes (tree_hash blake3 l)) = 32" "length (as_bytes (tree_hash blake3 r)) = 32"
    by (simp_all add: tree_hash_length [OF assms(1)])
  show ?case
  proof (cases "sibling_on_left s")
    case True
    with body have "as_bytes (tree_hash blake3 r) = as_bytes ?acc"
      using hl len by (simp add: append_eq_append_conv)
    then have "c \<in> set (tree_leaves r)"
      using sub snoc.prems(2) t by (intro snoc.IH) (auto intro: hash.expand)
    with t show ?thesis by simp
  next
    case False
    with body have "as_bytes (tree_hash blake3 l) = as_bytes ?acc"
      using hl len by (simp add: append_eq_append_conv)
    then have "c \<in> set (tree_leaves l)"
      using sub snoc.prems(2) t by (intro snoc.IH) (auto intro: hash.expand)
    with t show ?thesis by simp
  qed
qed

section \<open>Properties\<close>

text \<open>
  C7. Inclusion proofs are complete: for a chunk list of any length, \<open>merkle_proof\<close> produces a proof
  exactly for the indices in range, and that proof verifies the chunk at the index against
  \<open>merkle_root\<close> of the list. No property of the digest is needed.
\<close>

theorem merkle_proof_complete:
  "(\<exists>p. merkle_proof blake3 hs i = Some p \<and> merkle_verify blake3 (hs ! i) p (merkle_root blake3 hs))
   \<longleftrightarrow> i < length hs"
  using mk.self_check [of blake3 hs i "merkle_root blake3 hs"] by (auto split: option.splits)

text \<open>
  C8. The root binds the chunk list: for a 32-byte digest without a collision among the messages
  hashed for the two trees, two chunk lists (of any lengths, empty included) have the same
  \<open>merkle_root\<close> only if they are equal. In particular carrying an odd node up admits no
  duplicated-leaf forgery.
\<close>

theorem merkle_root_binding:
  assumes "digest32 blake3"
    and "inj_on blake3 (merkle_inputs blake3 hs \<union> merkle_inputs blake3 hs')"
  shows "merkle_root blake3 hs = merkle_root blake3 hs' \<longleftrightarrow> hs = hs'"
  using merkle_root_eq_imp [OF assms] by blast

theorem merkle_root_binding_witness:
  "merkle_root mix_digest [Hash [5], Hash [6], Hash [7]]
     \<noteq> merkle_root mix_digest [Hash [5], Hash [6], Hash [7], Hash [7]]"
proof -
  have "inj_on mix_digest (merkle_inputs mix_digest [Hash [5], Hash [6], Hash [7]] \<union>
      merkle_inputs mix_digest [Hash [5], Hash [6], Hash [7], Hash [7]])"
    by code_simp
  from merkle_root_binding [OF digest32_mix_digest this] show ?thesis by simp
qed

text \<open>
  Inclusion proofs are sound: for a 32-byte digest without a collision among the messages
  hashed for the tree and for the check, a chunk hash that \<open>merkle_verify\<close> accepts against the
  root of a non-empty list, with whatever proof the peer supplies, is a member of that list.
\<close>

theorem merkle_verify_sound:
  assumes "digest32 blake3" and "hs \<noteq> []"
    and "inj_on blake3 (merkle_inputs blake3 hs \<union> verify_inputs blake3 c p)"
    and "merkle_verify blake3 c p (merkle_root blake3 hs)"
  shows "c \<in> set hs"
proof -
  have "c \<in> set (tree_leaves (join_trees (map Leaf hs)))"
    using assms(2-4)
    by (intro verify_path_leaf [OF assms(1,3), where ss = "proof_steps p"])
       (auto simp: verify_inputs_def merkle_inputs_def merkle_verify_def merkle_root_tree)
  then show ?thesis using assms(2) by (simp add: merkle_tree_leaves)
qed

theorem merkle_verify_sound_witness:
  "Hash [6] \<in> set [Hash [5], Hash [6], Hash [7]]"
proof (rule merkle_verify_sound)
  let ?p = "\<lparr>proof_index = 1, proof_steps =
    [\<lparr>sibling_on_left = True, step_hash = leaf_hash mix_digest (Hash [5])\<rparr>,
     \<lparr>sibling_on_left = False, step_hash = leaf_hash mix_digest (Hash [7])\<rparr>]\<rparr>"
  show "digest32 mix_digest" by (rule digest32_mix_digest)
  show "[Hash [5], Hash [6], Hash [7]] \<noteq> []" by simp
  show "inj_on mix_digest (merkle_inputs mix_digest [Hash [5], Hash [6], Hash [7]] \<union>
      verify_inputs mix_digest (Hash [6]) ?p)"
    by code_simp
  show "merkle_verify mix_digest (Hash [6]) ?p (merkle_root mix_digest [Hash [5], Hash [6], Hash [7]])"
    by code_simp
qed

end
