(* ===== verification/Text.thy ===== *)
theory Text
  imports Prelude
begin

text \<open>
  The text operations of the Rust standard library the sources use. A \<open>String\<close> or \<open>&str\<close> is the
  list of its UTF-8 bytes written as characters (so \<open>length\<close> is \<open>str::len\<close>). Modelled here:
  UTF-8 validation and \<open>from_utf8_lossy\<close>, decimal printing and \<open>parse\<close> for the integer types,
  \<open>lines\<close>, \<open>splitn\<close>, \<open>split\<close>, \<open>rfind\<close>, \<open>strip_prefix\<close> and \<open>to_ascii_uppercase\<close>. The lemmas are
  the round trips the on-disk formats rest on.
\<close>

section \<open>Bytes and strings\<close>

definition str_bytes :: "string \<Rightarrow> bytes" where
  "str_bytes s = map of_char s"

definition bytes_str :: "bytes \<Rightarrow> string" where
  "bytes_str bs = map (\<lambda>b. char_of (unat b)) bs"

definition is_cont :: "u8 \<Rightarrow> bool" where
  "is_cont b = (128 \<le> b \<and> b \<le> 191)"

text \<open>
  The first scalar value of a byte string: \<open>Inr n\<close> when its first \<open>n\<close> bytes encode one, \<open>Inl n\<close>
  when the first \<open>n\<close> bytes are a maximal invalid (or truncated) prefix.
\<close>

definition snd_range :: "u8 \<Rightarrow> u8 \<times> u8" where
  "snd_range b0 = (if b0 = 224 then (160, 191) else if b0 = 237 then (128, 159)
                   else if b0 = 240 then (144, 191) else if b0 = 244 then (128, 143) else (128, 191))"

definition utf8_head :: "bytes \<Rightarrow> nat + nat" where
  "utf8_head bs =
     (let b0 = bs ! 0; b1_ok = (1 < length bs \<and> fst (snd_range b0) \<le> bs ! 1 \<and> bs ! 1 \<le> snd (snd_range b0));
          b2_ok = (2 < length bs \<and> is_cont (bs ! 2)); b3_ok = (3 < length bs \<and> is_cont (bs ! 3)) in
      if b0 < 128 then Inr 1
      else if 194 \<le> b0 \<and> b0 \<le> 223 then (if b1_ok then Inr 2 else Inl 1)
      else if 224 \<le> b0 \<and> b0 \<le> 239 then (if \<not> b1_ok then Inl 1 else if b2_ok then Inr 3 else Inl 2)
      else if 240 \<le> b0 \<and> b0 \<le> 244 then
        (if \<not> b1_ok then Inl 1 else if \<not> b2_ok then Inl 2 else if b3_ok then Inr 4 else Inl 3)
      else Inl 1)"

lemma utf8_head_pos: "utf8_head bs = Inr n \<Longrightarrow> 0 < n" "utf8_head bs = Inl n \<Longrightarrow> 0 < n"
  by (auto simp: utf8_head_def Let_def split: if_splits)

function valid_utf8 :: "bytes \<Rightarrow> bool" where
  "valid_utf8 bs = (if bs = [] then True
     else case utf8_head bs of Inl _ \<Rightarrow> False | Inr n \<Rightarrow> valid_utf8 (drop n bs))"
  by pat_completeness auto
termination
  by (relation "measure length") (auto dest: utf8_head_pos)

declare valid_utf8.simps [simp del]

text \<open>\<open>std::str::from_utf8\<close> and \<open>fs::read_to_string\<close> accept exactly the valid byte strings.\<close>

definition from_utf8 :: "bytes \<Rightarrow> string option" where
  "from_utf8 bs = (if valid_utf8 bs then Some (bytes_str bs) else None)"

text \<open>The replacement character U+FFFD, in UTF-8.\<close>

definition replacement :: string where
  "replacement = [CHR 0xEF, CHR 0xBF, CHR 0xBD]"

function from_utf8_lossy :: "bytes \<Rightarrow> string" where
  "from_utf8_lossy bs = (if bs = [] then []
     else case utf8_head bs of
       Inl n \<Rightarrow> replacement @ from_utf8_lossy (drop n bs)
     | Inr n \<Rightarrow> bytes_str (take n bs) @ from_utf8_lossy (drop n bs))"
  by pat_completeness auto
termination
  by (relation "measure length") (auto dest: utf8_head_pos)

declare from_utf8_lossy.simps [simp del]

section \<open>Decimal numbers\<close>

definition is_digit :: "char \<Rightarrow> bool" where
  "is_digit c = (48 \<le> (of_char c :: nat) \<and> (of_char c :: nat) \<le> 57)"

definition digit_val :: "char \<Rightarrow> nat" where
  "digit_val c = of_char c - 48"

definition digit_char :: "nat \<Rightarrow> char" where
  "digit_char d = char_of (48 + d)"

text \<open>\<open>to_string\<close> of an unsigned integer.\<close>

fun show_nat :: "nat \<Rightarrow> string" where
  "show_nat n = (if n < 10 then [digit_char n] else show_nat (n div 10) @ [digit_char (n mod 10)])"

declare show_nat.simps [simp del]

definition digits_value :: "string \<Rightarrow> nat" where
  "digits_value s = foldl (\<lambda>a c. 10 * a + digit_val c) 0 s"

text \<open>
  \<open>str::parse\<close> for an unsigned type with maximum \<open>mx\<close>: an optional plus sign, then at least one
  digit and nothing else, with the value in range.
\<close>

definition parse_digits :: "nat \<Rightarrow> string \<Rightarrow> nat option" where
  "parse_digits mx s = (if s \<noteq> [] \<and> list_all is_digit s \<and> digits_value s \<le> mx then Some (digits_value s) else None)"

definition parse_unsigned :: "nat \<Rightarrow> string \<Rightarrow> nat option" where
  "parse_unsigned mx s =
     (if s \<noteq> [] \<and> hd s = CHR ''+'' then parse_digits mx (tl s) else parse_digits mx s)"

definition parse_u64 :: "string \<Rightarrow> u64 option" where
  "parse_u64 s = map_option of_nat (parse_unsigned (2 ^ 64 - 1) s)"

definition parse_u32 :: "string \<Rightarrow> u32 option" where
  "parse_u32 s = map_option of_nat (parse_unsigned (2 ^ 32 - 1) s)"

text \<open>\<open>str::parse::<i64>\<close>: an optional sign, digits, and the range of the type.\<close>

definition parse_i64 :: "string \<Rightarrow> int option" where
  "parse_i64 s =
     (if s \<noteq> [] \<and> hd s = CHR ''-'' then map_option (\<lambda>n. - int n) (parse_digits (2 ^ 63) (tl s))
      else map_option int (parse_unsigned (2 ^ 63 - 1) s))"

section \<open>Splitting and searching\<close>

definition NL :: char where "NL = CHR 0x0A"

definition CR :: char where "CR = CHR 0x0D"

definition TAB :: char where "TAB = CHR 0x09"

text \<open>\<open>str::split(c)\<close>: the pieces between the separators, never empty.\<close>

fun split_on :: "char \<Rightarrow> string \<Rightarrow> string list" where
  "split_on c [] = [[]]"
| "split_on c (x # xs) =
     (if x = c then [] # split_on c xs
      else case split_on c xs of [] \<Rightarrow> [[x]] | p # ps \<Rightarrow> (x # p) # ps)"

text \<open>\<open>str::splitn(n, c)\<close>: at most \<open>n\<close> pieces, the last with the rest of the string.\<close>

fun splitn :: "nat \<Rightarrow> char \<Rightarrow> string \<Rightarrow> string list" where
  "splitn 0 c s = []"
| "splitn (Suc 0) c s = [s]"
| "splitn (Suc (Suc n)) c s =
     (let p = takeWhile (\<lambda>x. x \<noteq> c) s; r = dropWhile (\<lambda>x. x \<noteq> c) s in
      if r = [] then [p] else p # splitn (Suc n) c (tl r))"

text \<open>\<open>str::lines\<close>: the newline-terminated pieces without their line ending, and an unterminated last one.\<close>

definition strip_cr :: "string \<Rightarrow> string" where
  "strip_cr s = (if s \<noteq> [] \<and> last s = CR then butlast s else s)"

fun lines_acc :: "string \<Rightarrow> string \<Rightarrow> string list" where
  "lines_acc acc [] = (if acc = [] then [] else [rev acc])"
| "lines_acc acc (x # xs) = (if x = NL then strip_cr (rev acc) # lines_acc [] xs else lines_acc (x # acc) xs)"

definition str_lines :: "string \<Rightarrow> string list" where
  "str_lines s = lines_acc [] s"

text \<open>\<open>str::rfind('\n')\<close> and the prefix up to and including that newline.\<close>

fun rfind_nl :: "string \<Rightarrow> nat option" where
  "rfind_nl [] = None"
| "rfind_nl (x # xs) = (case rfind_nl xs of Some i \<Rightarrow> Some (Suc i) | None \<Rightarrow> if x = NL then Some 0 else None)"

definition strip_prefix :: "'a list \<Rightarrow> 'a list \<Rightarrow> 'a list option" where
  "strip_prefix p s = (if take (length p) s = p then Some (drop (length p) s) else None)"

definition strip_suffix :: "'a list \<Rightarrow> 'a list \<Rightarrow> 'a list option" where
  "strip_suffix p s = map_option rev (strip_prefix (rev p) (rev s))"

text \<open>\<open>haystack.contains(needle)\<close> for a string.\<close>

fun str_contains :: "string \<Rightarrow> string \<Rightarrow> bool" where
  "str_contains needle [] = (needle = [])"
| "str_contains needle (c # s) = (take (length needle) (c # s) = needle \<or> str_contains needle s)"

definition ascii_upper :: "char \<Rightarrow> char" where
  "ascii_upper c = (if 97 \<le> (of_char c :: nat) \<and> (of_char c :: nat) \<le> 122 then char_of (of_char c - 32 :: nat) else c)"

definition to_ascii_uppercase :: "string \<Rightarrow> string" where
  "to_ascii_uppercase s = map ascii_upper s"

section \<open>Lemmas\<close>

subsection \<open>Bytes and strings\<close>

lemma unat_of_char [simp]: "unat (of_char c :: u8) = of_char c"
proof -
  have "unat (of_nat (of_char c) :: u8) = of_char c" by (simp add: unat_of_nat)
  then show ?thesis by (simp only: of_nat_of_char)
qed

lemma bytes_str_bytes [simp]: "bytes_str (str_bytes s) = s"
  by (simp add: bytes_str_def str_bytes_def comp_def)

lemma str_bytes_bytes_str [simp]: "str_bytes (bytes_str bs) = bs"
proof -
  have "(of_char (char_of (unat b)) :: u8) = b" for b :: u8
  proof -
    have "unat b < 256" using unat_less_power [of b] by simp
    then have "unat (of_char (char_of (unat b)) :: u8) = unat b"
      by (simp add: of_char_of)
    then show ?thesis by (simp only: word_unat_eq_iff)
  qed
  then show ?thesis by (simp add: bytes_str_def str_bytes_def comp_def)
qed

lemma length_bytes_str [simp]: "length (bytes_str bs) = length bs"
  by (simp add: bytes_str_def)

lemma length_str_bytes [simp]: "length (str_bytes s) = length s"
  by (simp add: str_bytes_def)

lemma str_bytes_append [simp]: "str_bytes (s @ t) = str_bytes s @ str_bytes t"
  by (simp add: str_bytes_def)

lemma bytes_str_append [simp]: "bytes_str (s @ t) = bytes_str s @ bytes_str t"
  by (simp add: bytes_str_def)

text \<open>ASCII text is valid UTF-8.\<close>

definition ascii :: "string \<Rightarrow> bool" where
  "ascii s = list_all (\<lambda>c. (of_char c :: nat) < 128) s"

lemma of_char_lt_128: "(of_char c :: u8) < 128 \<longleftrightarrow> (of_char c :: nat) < 128"
  by (simp add: word_less_nat_alt)

lemma valid_utf8_ascii_prefix: "ascii s \<Longrightarrow> valid_utf8 (str_bytes s @ bs) = valid_utf8 bs"
proof (induction s)
  case (Cons c s)
  then have "utf8_head (of_char c # str_bytes s @ bs) = Inr 1"
    by (simp add: utf8_head_def Let_def ascii_def of_char_lt_128)
  with Cons show ?case
    by (subst valid_utf8.simps) (simp add: str_bytes_def ascii_def)
qed (simp add: str_bytes_def)

lemma valid_utf8_ascii: "ascii s \<Longrightarrow> valid_utf8 (str_bytes s)"
  using valid_utf8_ascii_prefix [of s "[]"] by (simp add: valid_utf8.simps)

lemma from_utf8_str_bytes: "ascii s \<Longrightarrow> from_utf8 (str_bytes s) = Some s"
  by (simp add: from_utf8_def valid_utf8_ascii)

lemma ascii_append [simp]: "ascii (s @ t) = (ascii s \<and> ascii t)"
  by (simp add: ascii_def)

lemma ascii_Cons [simp]: "ascii (c # s) = ((of_char c :: nat) < 128 \<and> ascii s)"
  by (simp add: ascii_def)

lemma ascii_Nil [simp]: "ascii []"
  by (simp add: ascii_def)

subsection \<open>Decimal round trip\<close>

lemma of_char_digit_char: "d < 10 \<Longrightarrow> (of_char (digit_char d) :: nat) = 48 + d"
  by (simp add: digit_char_def of_char_of)

lemma digit_char_simps: "d < 10 \<Longrightarrow> is_digit (digit_char d)" "d < 10 \<Longrightarrow> digit_val (digit_char d) = d"
  by (simp_all add: is_digit_def digit_val_def of_char_digit_char)

lemma show_nat_digits: "list_all is_digit (show_nat n) \<and> show_nat n \<noteq> [] \<and> digits_value (show_nat n) = n"
proof (induction n rule: show_nat.induct)
  case (1 n)
  show ?case
  proof (cases "n < 10")
    case True
    then show ?thesis by (simp add: show_nat.simps [of n] digit_char_simps digits_value_def)
  next
    case False
    with 1 show ?thesis
      by (simp add: show_nat.simps [of n] digit_char_simps digits_value_def)
  qed
qed

lemma parse_digits_show: "n \<le> mx \<Longrightarrow> parse_digits mx (show_nat n) = Some n"
  using show_nat_digits [of n] by (simp add: parse_digits_def)

lemma is_digit_not: "is_digit c \<Longrightarrow> c \<noteq> CHR ''+''" "is_digit c \<Longrightarrow> c \<noteq> CHR ''-''"
    "is_digit c \<Longrightarrow> c \<noteq> TAB" "is_digit c \<Longrightarrow> c \<noteq> NL" "is_digit c \<Longrightarrow> c \<noteq> CR"
  by (auto simp: is_digit_def TAB_def NL_def CR_def)

lemma is_digit_ascii: "is_digit c \<Longrightarrow> (of_char c :: nat) < 128"
  by (simp add: is_digit_def)

lemma show_nat_hd: "is_digit (hd (show_nat n))"
  using show_nat_digits [of n] by (cases "show_nat n") auto

lemma parse_unsigned_show: "n \<le> mx \<Longrightarrow> parse_unsigned mx (show_nat n) = Some n"
  using show_nat_hd [of n] parse_digits_show [of n mx]
  by (auto simp: parse_unsigned_def dest: is_digit_not(1))

lemma parse_u64_show [simp]: "parse_u64 (show_nat (unat x)) = Some x"
proof -
  have "unat x \<le> 2 ^ 64 - 1" using unat_less_power [of x] by simp
  then show ?thesis by (simp add: parse_u64_def parse_unsigned_show)
qed

lemma parse_u32_show [simp]: "parse_u32 (show_nat (unat x)) = Some x"
proof -
  have "unat x \<le> 2 ^ 32 - 1" using unat_less_power [of x] by simp
  then show ?thesis by (simp add: parse_u32_def parse_unsigned_show)
qed

lemma parse_digits_bound: "parse_digits mx s = Some n \<Longrightarrow> n \<le> mx"
  by (auto simp: parse_digits_def split: if_splits)

lemma parse_i64_bound: "parse_i64 s = Some n \<Longrightarrow> - (2 ^ 63) \<le> n \<and> n < 2 ^ 63"
  by (auto simp: parse_i64_def parse_unsigned_def dest!: parse_digits_bound split: if_splits)

lemma ascii_show_nat [simp]: "ascii (show_nat n)"
  using show_nat_digits [of n] by (auto simp: ascii_def list_all_iff is_digit_ascii)

lemma show_nat_no: "c \<in> {TAB, NL, CR} \<Longrightarrow> c \<notin> set (show_nat n)"
  using show_nat_digits [of n] by (auto simp: list_all_iff dest: is_digit_not)

subsection \<open>Splitting round trips\<close>

lemma splitn_join: "c \<notin> set p \<Longrightarrow> splitn (Suc (Suc n)) c (p @ c # rest) = p # splitn (Suc n) c rest"
proof -
  assume c: "c \<notin> set p"
  then have "takeWhile (\<lambda>x. x \<noteq> c) (p @ c # rest) = p" "dropWhile (\<lambda>x. x \<noteq> c) (p @ c # rest) = c # rest"
    by (auto simp: takeWhile_append dropWhile_append)
  then show ?thesis by simp
qed

lemma splitn_4:
  assumes "c \<notin> set p" "c \<notin> set q" "c \<notin> set r"
  shows "splitn 4 c (p @ c # q @ c # r @ c # rest) = [p, q, r, rest]"
proof -
  have four: "(4::nat) = Suc (Suc (Suc (Suc 0)))" by simp
  show ?thesis unfolding four using assms by (simp add: splitn_join del: splitn.simps(3))
qed

lemma lines_acc_line:
  "NL \<notin> set l \<Longrightarrow> lines_acc acc (l @ NL # s) = strip_cr (rev acc @ l) # lines_acc [] s"
  by (induction l arbitrary: acc) auto

lemma str_lines_cons:
  "NL \<notin> set l \<Longrightarrow> str_lines (l @ NL # s) = strip_cr l # str_lines s"
  by (simp add: str_lines_def lines_acc_line)

lemma strip_cr_id: "CR \<notin> set l \<Longrightarrow> strip_cr l = l"
  by (metis last_in_set strip_cr_def)

lemma str_lines_terminated:
  "(\<And>l. l \<in> set ls \<Longrightarrow> NL \<notin> set l \<and> CR \<notin> set l) \<Longrightarrow> str_lines (concat (map (\<lambda>l. l @ [NL]) ls)) = ls"
  by (induction ls) (simp_all add: str_lines_cons strip_cr_id, simp add: str_lines_def)

lemma rfind_nl_None: "rfind_nl s = None \<longleftrightarrow> NL \<notin> set s"
  by (induction s) (auto split: option.splits)

lemma rfind_nl_append: "NL \<notin> set t \<Longrightarrow> rfind_nl (s @ NL # t) = Some (length s)"
  by (induction s) (simp_all add: rfind_nl_None [THEN iffD2])

lemma rfind_nl_Some: "rfind_nl s = Some i \<Longrightarrow> i < length s \<and> s ! i = NL"
  by (induction s arbitrary: i) (auto split: option.splits if_splits)

lemma strip_prefix_append [simp]: "strip_prefix p (p @ s) = Some s"
  by (simp add: strip_prefix_def)

lemma strip_prefix_Some: "strip_prefix p s = Some r \<longleftrightarrow> s = p @ r"
  by (auto simp: strip_prefix_def) (metis append_take_drop_id)

lemma split_on_nonempty [simp]: "split_on c s \<noteq> []"
  by (induction s) (auto split: list.split)

lemma split_on_no_sep: "p \<in> set (split_on c s) \<Longrightarrow> c \<notin> set p"
  by (induction s arbitrary: p) (auto split: list.splits if_splits)

lemma from_utf8_lossy_valid: "valid_utf8 bs \<Longrightarrow> from_utf8_lossy bs = bytes_str bs"
proof (induction bs rule: valid_utf8.induct)
  case (1 bs)
  show ?case
  proof (cases "bs = []")
    case True
    then show ?thesis by (simp add: from_utf8_lossy.simps bytes_str_def)
  next
    case False
    with "1.prems" obtain n where n: "utf8_head bs = Inr n" "valid_utf8 (drop n bs)"
      by (subst (asm) valid_utf8.simps) (auto split: sum.splits)
    with False "1.IH" have "from_utf8_lossy (drop n bs) = bytes_str (drop n bs)" by simp
    with False n show ?thesis
      by (subst from_utf8_lossy.simps) (simp add: bytes_str_append [symmetric])
  qed
qed


section \<open>Evaluation of the integer parsers\<close>

text \<open>
  The parsers compare with bounds near \<open>2 ^ 64\<close>, which evaluation must not do in unary numbers: these
  equations compute in binary integers.
\<close>

definition digits_value_int :: "string \<Rightarrow> int" where
  "digits_value_int s = foldl (\<lambda>a c. 10 * a + int (digit_val c)) 0 s"

definition parse_digits_int :: "int \<Rightarrow> string \<Rightarrow> int option" where
  "parse_digits_int mx s = (if s \<noteq> [] \<and> list_all is_digit s \<and> digits_value_int s \<le> mx then Some (digits_value_int s) else None)"

definition parse_unsigned_int :: "int \<Rightarrow> string \<Rightarrow> int option" where
  "parse_unsigned_int mx s =
     (if s \<noteq> [] \<and> hd s = CHR ''+'' then parse_digits_int mx (tl s) else parse_digits_int mx s)"

lemma digits_value_int: "digits_value_int s = int (digits_value s)"
proof -
  have "foldl (\<lambda>a c. 10 * a + int (digit_val c)) (int k) s = int (foldl (\<lambda>a c. 10 * a + digit_val c) k s)" for k
  proof (induction s arbitrary: k)
    case (Cons c s)
    from Cons [of "10 * k + digit_val c"] show ?case by simp
  qed simp
  from this [of 0] show ?thesis by (simp add: digits_value_int_def digits_value_def)
qed

lemma parse_digits_int: "parse_digits_int (int mx) s = map_option int (parse_digits mx s)"
  by (simp add: parse_digits_int_def parse_digits_def digits_value_int)

lemma parse_unsigned_int: "parse_unsigned_int (int mx) s = map_option int (parse_unsigned mx s)"
  by (simp add: parse_unsigned_int_def parse_unsigned_def parse_digits_int)

lemma parse_u64_code [code]: "parse_u64 s = map_option of_int (parse_unsigned_int 18446744073709551615 s)"
  using parse_unsigned_int [of "2 ^ 64 - 1" s] by (simp add: parse_u64_def option.map_comp comp_def)

lemma parse_u32_code [code]: "parse_u32 s = map_option of_int (parse_unsigned_int 4294967295 s)"
  using parse_unsigned_int [of "2 ^ 32 - 1" s] by (simp add: parse_u32_def option.map_comp comp_def)

lemma parse_i64_code [code]: "parse_i64 s =
    (if s \<noteq> [] \<and> hd s = CHR ''-'' then map_option uminus (parse_digits_int 9223372036854775808 (tl s))
     else parse_unsigned_int 9223372036854775807 s)"
  using parse_unsigned_int [of "2 ^ 63 - 1" s] parse_digits_int [of "2 ^ 63" "tl s"]
  by (simp add: parse_i64_def option.map_comp comp_def)

end
