(* ===== verification/Crates.thy ===== *)
theory Crates
  imports Merkle Text
begin

text \<open>
  The third-party crates the core and the store call, as one parameter record: the BLAKE3 digest,
  the \<open>hex\<close> crate and the two FastCDC chunkers. What the sources rely on is stated as named
  hypotheses, each the documented behaviour of its crate; \<open>sample_crates\<close> shows they can hold
  together and serves the worked instances.
\<close>

section \<open>The crates\<close>

datatype from_hex_error = InvalidHexCharacter char nat | OddLength | InvalidStringLength

record crates =
  blake3 :: "bytes \<Rightarrow> bytes"
  hex_encode :: "bytes \<Rightarrow> string"
  hex_decode :: "string \<Rightarrow> nat \<Rightarrow> from_hex_error + bytes"
  fastcdc :: "bytes \<Rightarrow> u32 \<Rightarrow> u32 \<Rightarrow> u32 \<Rightarrow> (nat \<times> nat) list"
  streamcdc :: "bytes \<Rightarrow> u32 \<Rightarrow> u32 \<Rightarrow> u32 \<Rightarrow> (string + bytes) list"

text \<open>
  \<open>hex_decode s n\<close> is \<open>hex::decode_to_slice\<close> into a slice of \<open>n\<close> bytes; \<open>fastcdc\<close> lists the
  (offset, length) pairs of the chunks \<open>FastCDC::new\<close> yields, \<open>streamcdc\<close> the items \<open>StreamCDC::new\<close>
  yields over a reader with that content.
\<close>

section \<open>Documented behaviour\<close>

definition hex_ok :: "crates \<Rightarrow> bool" where
  "hex_ok X \<longleftrightarrow>
     (\<forall>bs. length (hex_encode X bs) = 2 * length bs \<and> set (hex_encode X bs) \<subseteq> set ''0123456789abcdef''
        \<and> hex_decode X (hex_encode X bs) (length bs) = Inr bs)
     \<and> (\<forall>s n bs. hex_decode X s n = Inr bs \<longrightarrow> length bs = n \<and> length s = 2 * n)"

fun tiles :: "nat \<Rightarrow> (nat \<times> nat) list \<Rightarrow> nat \<Rightarrow> bool" where
  "tiles a [] n = (a = n)"
| "tiles a ((off, len) # rest) n = (off = a \<and> 0 < len \<and> tiles (a + len) rest n)"

text \<open>FastCDC cuts its input into consecutive non-empty chunks no longer than the maximum.\<close>

definition cdc_ok :: "crates \<Rightarrow> u32 \<Rightarrow> u32 \<Rightarrow> u32 \<Rightarrow> bool" where
  "cdc_ok X mn av mx \<longleftrightarrow>
     (\<forall>data. data \<noteq> [] \<longrightarrow> tiles 0 (fastcdc X data mn av mx) (length data)
        \<and> list_all (\<lambda>(_, len). len \<le> unat mx) (fastcdc X data mn av mx))"

text \<open>The streaming chunker yields the same chunks, with their bytes, and nothing on empty input.\<close>

definition stream_ok :: "crates \<Rightarrow> u32 \<Rightarrow> u32 \<Rightarrow> u32 \<Rightarrow> bool" where
  "stream_ok X mn av mx \<longleftrightarrow>
     (\<forall>data. streamcdc X data mn av mx =
        (if data = [] then [] else map (\<lambda>(off, len). Inr (slice data off (off + len))) (fastcdc X data mn av mx)))"

abbreviation digest_ok :: "crates \<Rightarrow> bool" where
  "digest_ok X \<equiv> digest32 (blake3 X)"

text \<open>\<open>bincode\<close>, at the type the caller (de)serialises.\<close>

record 'a codec =
  serialize :: "'a \<Rightarrow> string + bytes"
  deserialize :: "bytes \<Rightarrow> string + 'a"

text \<open>Documented: decoding what was encoded gives the value back.\<close>

definition codec_ok :: "'a codec \<Rightarrow> 'a \<Rightarrow> bool" where
  "codec_ok Z v = (case serialize Z v of Inl _ \<Rightarrow> False | Inr b \<Rightarrow> deserialize Z b = Inr v)"

section \<open>A sample instance\<close>

definition hex_digit :: "nat \<Rightarrow> char" where
  "hex_digit n = ''0123456789abcdef'' ! n"

definition hex_byte :: "u8 \<Rightarrow> string" where
  "hex_byte b = [hex_digit (unat b div 16), hex_digit (unat b mod 16)]"

definition hex_digit_val :: "char \<Rightarrow> nat option" where
  "hex_digit_val c = (let i = length (takeWhile (\<lambda>d. d \<noteq> c) ''0123456789abcdef'') in if i < 16 then Some i else None)"

fun hex_pairs :: "string \<Rightarrow> bytes option" where
  "hex_pairs [] = Some []"
| "hex_pairs [c] = None"
| "hex_pairs (c # d # rest) =
     (case (hex_digit_val c, hex_digit_val d, hex_pairs rest) of
        (Some a, Some b, Some bs) \<Rightarrow> Some (of_nat (16 * a + b) # bs) | _ \<Rightarrow> None)"

fun cut_every :: "nat \<Rightarrow> nat \<Rightarrow> nat \<Rightarrow> nat \<Rightarrow> (nat \<times> nat) list" where
  "cut_every 0 k a n = []"
| "cut_every (Suc fuel) k a n =
     (if a < n then (a, min k (n - a)) # cut_every fuel k (a + min k (n - a)) n else [])"

definition sample_cdc :: "bytes \<Rightarrow> u32 \<Rightarrow> u32 \<Rightarrow> u32 \<Rightarrow> (nat \<times> nat) list" where
  "sample_cdc data mn av mx = cut_every (length data) 2 0 (length data)"

definition sample_crates :: crates where
  "sample_crates = \<lparr>
     blake3 = mix_digest,
     hex_encode = (\<lambda>bs. concat (map hex_byte bs)),
     hex_decode = (\<lambda>s n. case hex_pairs s of None \<Rightarrow> Inl OddLength
                     | Some bs \<Rightarrow> if length bs = n then Inr bs else Inl InvalidStringLength),
     fastcdc = sample_cdc,
     streamcdc = (\<lambda>data mn av mx. if data = [] then []
                    else map (\<lambda>(off, len). Inr (slice data off (off + len))) (sample_cdc data mn av mx))\<rparr>"

lemma hex_digit_val_all: "list_all (\<lambda>n. hex_digit_val (hex_digit n) = Some n) [0..<16]"
  by code_simp

lemma hex_digit_val_digit: "n < 16 \<Longrightarrow> hex_digit_val (hex_digit n) = Some n"
  using hex_digit_val_all by (simp add: list_all_iff del: upt_rec_numeral)

lemma hex_pairs_encode: "hex_pairs (concat (map hex_byte bs)) = Some bs"
proof (induction bs)
  case (Cons b bs)
  have b: "unat b < 256" using unat_less_power [of b] by simp
  then have "unat b div 16 < 16" "unat b mod 16 < 16" by simp_all
  then show ?case using Cons by (simp add: hex_byte_def hex_digit_val_digit)
qed simp

lemma hex_digit_set: "n < 16 \<Longrightarrow> hex_digit n \<in> set ''0123456789abcdef''"
  unfolding hex_digit_def by (rule nth_mem) simp

lemma hex_byte_set: "set (hex_byte b) \<subseteq> set ''0123456789abcdef''"
proof -
  have "unat b < 256" using unat_less_power [of b] by simp
  then have "hex_digit (unat b div 16) \<in> set ''0123456789abcdef''" "hex_digit (unat b mod 16) \<in> set ''0123456789abcdef''"
    by (simp_all add: hex_digit_set del: list.set)
  moreover have "set [a, d] \<subseteq> S" if "a \<in> S" "d \<in> S" for a d :: char and S using that by simp
  ultimately show ?thesis unfolding hex_byte_def by blast
qed

lemma length_concat_hex_byte: "length (concat (map hex_byte bs)) = 2 * length bs"
  by (induction bs) (simp_all add: hex_byte_def)

lemma hex_pairs_length: "hex_pairs s = Some bs \<Longrightarrow> length s = 2 * length bs"
  by (induction s arbitrary: bs rule: hex_pairs.induct) (auto split: option.splits)

lemma hex_ok_sample: "hex_ok sample_crates"
  unfolding hex_ok_def sample_crates_def
  using hex_byte_set
  by (auto simp: length_concat_hex_byte hex_pairs_encode simp del: list.set
      split: option.splits if_splits dest: hex_pairs_length)

lemma tiles_cut_every: "n - a \<le> fuel \<Longrightarrow> a \<le> n \<Longrightarrow> 0 < k \<Longrightarrow> tiles a (cut_every fuel k a n) n"
  by (induction fuel arbitrary: a) auto

lemma cut_every_le: "list_all (\<lambda>(_, len). len \<le> k) (cut_every fuel k a n)"
  by (induction fuel arbitrary: a) auto

lemma cdc_ok_sample: "2 \<le> unat mx \<Longrightarrow> cdc_ok sample_crates mn av mx"
proof -
  assume mx: "2 \<le> unat mx"
  have "list_all (\<lambda>(_, len). len \<le> unat mx) (cut_every f 2 a n)" for f a n
    using cut_every_le [of 2 f a n] mx by (auto simp: list_all_iff)
  then show ?thesis by (simp add: cdc_ok_def sample_crates_def sample_cdc_def tiles_cut_every)
qed

lemma stream_ok_sample: "stream_ok sample_crates mn av mx"
  by (simp add: stream_ok_def sample_crates_def)

lemma digest_ok_sample: "digest_ok sample_crates"
  by (simp add: sample_crates_def digest32_mix_digest)

section \<open>Hash methods\<close>

text \<open>\<open>Hash::to_hex\<close> and \<open>Hash::from_hex\<close> of \<open>hash.rs\<close>.\<close>

definition to_hex :: "crates \<Rightarrow> hash \<Rightarrow> string" where
  "to_hex X h = hex_encode X (as_bytes h)"

definition from_hex :: "crates \<Rightarrow> string \<Rightarrow> from_hex_error + hash" where
  "from_hex X s = (case hex_decode X s 32 of Inl e \<Rightarrow> Inl e | Inr out \<Rightarrow> Inr (Hash out))"

lemma from_hex_to_hex: "hex_ok X \<Longrightarrow> wf_hash h \<Longrightarrow> from_hex X (to_hex X h) = Inr h"
proof -
  assume ok: "hex_ok X" and wf: "wf_hash h"
  from ok have "hex_decode X (hex_encode X (as_bytes h)) (length (as_bytes h)) = Inr (as_bytes h)"
    unfolding hex_ok_def by blast
  with wf show ?thesis by (simp add: from_hex_def to_hex_def wf_hash_def)
qed

lemma from_hex_wf: "hex_ok X \<Longrightarrow> from_hex X s = Inr h \<Longrightarrow> wf_hash h"
  by (auto simp: from_hex_def hex_ok_def wf_hash_def split: sum.splits)

lemma from_hex_length: "hex_ok X \<Longrightarrow> from_hex X s = Inr h \<Longrightarrow> length s = 64"
proof -
  assume ok: "hex_ok X" and "from_hex X s = Inr h"
  then obtain bs where "hex_decode X s 32 = Inr bs" by (auto simp: from_hex_def split: sum.splits)
  with ok have "length s = 2 * 32" unfolding hex_ok_def by blast
  then show ?thesis by simp
qed

lemma to_hex_chars: "hex_ok X \<Longrightarrow> set (to_hex X h) \<subseteq> set ''0123456789abcdef''"
  by (simp add: hex_ok_def to_hex_def del: set_simps)

lemma to_hex_inj: "hex_ok X \<Longrightarrow> wf_hash h \<Longrightarrow> wf_hash h' \<Longrightarrow> to_hex X h = to_hex X h' \<Longrightarrow> h = h'"
  using from_hex_to_hex by (metis sum.inject(2))

lemma to_hex_ascii: "hex_ok X \<Longrightarrow> ascii (to_hex X h)"
  using to_hex_chars [of X h] by (auto simp: ascii_def list_all_iff)

lemma to_hex_no: "hex_ok X \<Longrightarrow> c \<in> {TAB, NL, CR, CHR ''/'', CHR ''.''} \<Longrightarrow> c \<notin> set (to_hex X h)"
  using to_hex_chars [of X h] by (auto simp: TAB_def NL_def CR_def)

lemma length_to_hex: "hex_ok X \<Longrightarrow> wf_hash h \<Longrightarrow> length (to_hex X h) = 64"
  by (simp add: hex_ok_def to_hex_def wf_hash_def)

lemma wf_hash_of: "digest_ok X \<Longrightarrow> wf_hash (hash_of (blake3 X) b)"
  by (simp add: digest32_def wf_hash_def hash_of_def)

end
