(* ===== verification/Manifests.thy ===== *)
theory Manifests
  imports Crates
begin

text \<open>
  Content-defined chunking (\<open>crates/np2ptp-core/src/chunk.rs\<close>) and the manifest
  (\<open>crates/np2ptp-core/src/manifest.rs\<close>): construction, the \<open>.nptp\<close> container, structural
  validation and the three ways to get bytes back out of it. \<open>bincode\<close> is the parameter record
  \<open>codec\<close>. A fetch closure \<open>FnMut(&Hash) -> Option<Vec<u8>>\<close> is a state-passing function, so a
  source that changes its answers from call to call is covered. Integer fields keep their widths;
  the unchecked additions wrap, as in a release build.
\<close>

section \<open>Chunks\<close>

definition MIN_CHUNK :: u32 where "MIN_CHUNK = 16 * 1024"

definition AVG_CHUNK :: u32 where "AVG_CHUNK = 64 * 1024"

definition MAX_CHUNK :: u32 where "MAX_CHUNK = 256 * 1024"

record chunk_span =
  span_offset :: u64
  span_length :: u32
  span_hash :: hash

definition chunk_with :: "crates \<Rightarrow> bytes \<Rightarrow> u32 \<Rightarrow> u32 \<Rightarrow> u32 \<Rightarrow> chunk_span list" where
  "chunk_with X data mn av mx =
     (if data = [] then []
      else map (\<lambda>(off, len).
             \<lparr>span_offset = of_nat off, span_length = of_nat len,
              span_hash = hash_of (blake3 X) (slice data off (off + len))\<rparr>)
           (fastcdc X data mn av mx))"

definition chunk :: "crates \<Rightarrow> bytes \<Rightarrow> chunk_span list" where
  "chunk X data = chunk_with X data MIN_CHUNK AVG_CHUNK MAX_CHUNK"

section \<open>The manifest\<close>

definition URI_SCHEME :: string where "URI_SCHEME = ''np2ptp''"

definition NPTP_MAGIC :: bytes where "NPTP_MAGIC = [0x4E, 0x50, 0x54, 0x50]"

definition NPTP_VERSION :: u8 where "NPTP_VERSION = 1"

record chunk_ref =
  cref_hash :: hash
  cref_offset :: u64
  cref_length :: u32

record file_entry =
  fe_path :: string
  fe_size :: u64
  fe_chunk_start :: usize
  fe_chunk_count :: usize

record manifest =
  m_root :: hash
  m_total_size :: u64
  m_chunks :: "chunk_ref list"
  m_files :: "file_entry list"
  m_name :: "string option"

datatype manifest_error =
    Codec string
  | BadUri
  | HexError from_hex_error
  | BadChunk nat
  | SizeMismatch u64 u64
  | BadMagic
  | UnsupportedVersion u8
  | Invalid string

definition chunk_hashes :: "manifest \<Rightarrow> hash list" where
  "chunk_hashes m = map cref_hash (m_chunks m)"

subsection \<open>Construction\<close>

definition span_ref :: "u64 \<Rightarrow> chunk_span \<Rightarrow> chunk_ref" where
  "span_ref global_offset span =
     \<lparr>cref_hash = span_hash span, cref_offset = global_offset + span_offset span, cref_length = span_length span\<rparr>"

fun from_files_loop :: "crates \<Rightarrow> (string \<times> bytes) list \<Rightarrow> chunk_ref list \<Rightarrow> file_entry list \<Rightarrow> u64
    \<Rightarrow> chunk_ref list \<times> file_entry list \<times> u64" where
  "from_files_loop X [] chunks entries global_offset = (chunks, entries, global_offset)"
| "from_files_loop X ((path, data) # files) chunks entries global_offset =
     (let chunk_start = length chunks;
          chunks' = chunks @ map (span_ref global_offset) (chunk X data);
          entry = \<lparr>fe_path = path, fe_size = of_nat (length data), fe_chunk_start = of_nat chunk_start,
                   fe_chunk_count = of_nat (length chunks' - chunk_start)\<rparr>
      in from_files_loop X files chunks' (entries @ [entry]) (global_offset + of_nat (length data)))"

definition from_files :: "crates \<Rightarrow> (string \<times> bytes) list \<Rightarrow> string option \<Rightarrow> manifest" where
  "from_files X files name =
     (case from_files_loop X files [] [] 0 of (chunks, entries, global_offset) \<Rightarrow>
        \<lparr>m_root = merkle_root (blake3 X) (map cref_hash chunks), m_total_size = global_offset,
         m_chunks = chunks, m_files = entries, m_name = name\<rparr>)"

definition default_path :: "string option \<Rightarrow> string" where
  "default_path name = (case name of Some n \<Rightarrow> n | None \<Rightarrow> ''data'')"

definition from_bytes :: "crates \<Rightarrow> bytes \<Rightarrow> string option \<Rightarrow> manifest" where
  "from_bytes X data name = from_files X [(default_path name, data)] name"

definition from_spans :: "crates \<Rightarrow> chunk_span list \<Rightarrow> u64 \<Rightarrow> string option \<Rightarrow> manifest" where
  "from_spans X spans total_size name =
     (let chunks = map (\<lambda>s. \<lparr>cref_hash = span_hash s, cref_offset = span_offset s, cref_length = span_length s\<rparr>) spans in
      \<lparr>m_root = merkle_root (blake3 X) (map cref_hash chunks), m_total_size = total_size, m_chunks = chunks,
       m_files = [\<lparr>fe_path = default_path name, fe_size = total_size, fe_chunk_start = 0,
                   fe_chunk_count = of_nat (length chunks)\<rparr>],
       m_name = name\<rparr>)"

definition is_single_file :: "manifest \<Rightarrow> bool" where
  "is_single_file m = (length (m_files m) = 1)"

subsection \<open>Links and containers\<close>

definition uri :: "crates \<Rightarrow> manifest \<Rightarrow> string" where
  "uri X m = URI_SCHEME @ '':'' @ to_hex X (m_root m)"

definition root_from_uri :: "crates \<Rightarrow> string \<Rightarrow> manifest_error + hash" where
  "root_from_uri X u =
     (case strip_prefix URI_SCHEME u of
        None \<Rightarrow> Inl BadUri
      | Some r \<Rightarrow> (case strip_prefix '':'' r of
          None \<Rightarrow> Inl BadUri
        | Some hex \<Rightarrow> (case from_hex X hex of Inl e \<Rightarrow> Inl (HexError e) | Inr h \<Rightarrow> Inr h)))"

definition to_bytes :: "manifest codec \<Rightarrow> manifest \<Rightarrow> manifest_error + bytes" where
  "to_bytes Z m = (case serialize Z m of Inl e \<Rightarrow> Inl (Codec e) | Inr b \<Rightarrow> Inr b)"

definition from_serialized :: "manifest codec \<Rightarrow> bytes \<Rightarrow> manifest_error + manifest" where
  "from_serialized Z b = (case deserialize Z b of Inl e \<Rightarrow> Inl (Codec e) | Inr m \<Rightarrow> Inr m)"

definition to_nptp :: "manifest codec \<Rightarrow> manifest \<Rightarrow> manifest_error + bytes" where
  "to_nptp Z m =
     (case to_bytes Z m of Inl e \<Rightarrow> Inl e | Inr body \<Rightarrow> Inr (NPTP_MAGIC @ [NPTP_VERSION] @ body))"

definition from_nptp :: "manifest codec \<Rightarrow> bytes \<Rightarrow> manifest_error + manifest" where
  "from_nptp Z b =
     (if length b < 5 \<or> take 4 b \<noteq> NPTP_MAGIC then Inl BadMagic
      else if b ! 4 \<noteq> NPTP_VERSION then Inl (UnsupportedVersion (b ! 4))
      else from_serialized Z (drop 5 b))"

subsection \<open>Checks\<close>

definition root_is_consistent :: "crates \<Rightarrow> manifest \<Rightarrow> bool" where
  "root_is_consistent X m = (merkle_root (blake3 X) (chunk_hashes m) = m_root m)"

text \<open>Both length sums of \<open>validate\<close>: a saturating 64-bit accumulator over the chunk lengths.\<close>

definition sat_lengths :: "chunk_ref list \<Rightarrow> u64" where
  "sat_lengths cs = foldl (\<lambda>acc c. sat_add acc (ucast (cref_length c))) 0 cs"

fun validate_files :: "manifest \<Rightarrow> file_entry list \<Rightarrow> usize \<Rightarrow> u64 \<Rightarrow> manifest_error + (usize \<times> u64)" where
  "validate_files m [] cursor file_bytes = Inr (cursor, file_bytes)"
| "validate_files m (entry # rest) cursor file_bytes =
     (if fe_chunk_start entry \<noteq> cursor then Inl (Invalid ''file chunk ranges must tile the chunk list'')
      else if fe_chunk_count entry = 0 \<and> fe_size entry \<noteq> 0 then Inl (Invalid ''non-empty file owns zero chunks'')
      else case checked_add (fe_chunk_start entry) (fe_chunk_count entry) of
        None \<Rightarrow> Inl (Invalid ''file chunk range overflows usize'')
      | Some e \<Rightarrow>
          if unat e > length (m_chunks m) then Inl (Invalid ''file chunk range out of bounds'')
          else let own_bytes = sat_lengths (slice (m_chunks m) (unat (fe_chunk_start entry)) (unat e)) in
            if own_bytes \<noteq> fe_size entry then Inl (SizeMismatch own_bytes (fe_size entry))
            else validate_files m rest e (sat_add file_bytes (fe_size entry)))"

definition validate :: "manifest \<Rightarrow> manifest_error + unit" where
  "validate m =
     (let chunk_bytes = sat_lengths (m_chunks m) in
      if chunk_bytes \<noteq> m_total_size m then Inl (SizeMismatch chunk_bytes (m_total_size m))
      else case validate_files m (m_files m) 0 0 of
        Inl e \<Rightarrow> Inl e
      | Inr (cursor, file_bytes) \<Rightarrow>
          if unat cursor \<noteq> length (m_chunks m) then Inl (Invalid ''file chunk ranges must tile the chunk list'')
          else if file_bytes \<noteq> m_total_size m then Inl (SizeMismatch file_bytes (m_total_size m))
          else Inr ())"

definition manifest_proof :: "crates \<Rightarrow> manifest \<Rightarrow> nat \<Rightarrow> merkle_proof_rec option" where
  "manifest_proof X m index = merkle_proof (blake3 X) (chunk_hashes m) index"

definition chunk_hash_ok :: "crates \<Rightarrow> manifest \<Rightarrow> nat \<Rightarrow> bytes \<Rightarrow> bool" where
  "chunk_hash_ok X m index b =
     (case nth_opt (m_chunks m) index of None \<Rightarrow> False | Some c \<Rightarrow> hash_of (blake3 X) b = cref_hash c)"

definition verify_chunk :: "crates \<Rightarrow> manifest \<Rightarrow> nat \<Rightarrow> bytes \<Rightarrow> bool" where
  "verify_chunk X m index b =
     (case nth_opt (m_chunks m) index of
        None \<Rightarrow> False
      | Some cref \<Rightarrow>
          if hash_of (blake3 X) b \<noteq> cref_hash cref then False
          else case manifest_proof X m index of
            Some p \<Rightarrow> merkle_verify (blake3 X) (cref_hash cref) p (m_root m)
          | None \<Rightarrow> False)"

subsection \<open>Reconstruction\<close>

type_synonym 's fetcher = "hash \<Rightarrow> 's \<Rightarrow> bytes option \<times> 's"

fun reconstruct_loop :: "crates \<Rightarrow> manifest \<Rightarrow> 's fetcher \<Rightarrow> nat \<Rightarrow> chunk_ref list \<Rightarrow> bytes \<Rightarrow> 's
    \<Rightarrow> (manifest_error + bytes) \<times> 's" where
  "reconstruct_loop X m fetch i [] out s = (Inr out, s)"
| "reconstruct_loop X m fetch i (cref # crefs) out s =
     (case fetch (cref_hash cref) s of
        (None, s') \<Rightarrow> (Inl (BadChunk i), s')
      | (Some b, s') \<Rightarrow>
          if \<not> verify_chunk X m i b then (Inl (BadChunk i), s')
          else reconstruct_loop X m fetch (Suc i) crefs (out @ b) s')"

definition reconstruct :: "crates \<Rightarrow> manifest \<Rightarrow> 's fetcher \<Rightarrow> 's \<Rightarrow> (manifest_error + bytes) \<times> 's" where
  "reconstruct X m fetch s =
     (case validate m of
        Inl e \<Rightarrow> (Inl e, s)
      | Inr _ \<Rightarrow> (case reconstruct_loop X m fetch 0 (m_chunks m) [] s of
          (Inl e, s') \<Rightarrow> (Inl e, s')
        | (Inr out, s') \<Rightarrow>
            if of_nat (length out) \<noteq> m_total_size m
            then (Inl (SizeMismatch (of_nat (length out)) (m_total_size m)), s')
            else (Inr out, s')))"

fun split_loop :: "bytes \<Rightarrow> file_entry list \<Rightarrow> usize \<Rightarrow> manifest_error + (string \<times> bytes) list" where
  "split_loop data [] offset = Inr []"
| "split_loop data (entry # rest) offset =
     (case checked_add offset (fe_size entry) of
        None \<Rightarrow> Inl (Invalid ''file sizes exceed the content stream'')
      | Some e \<Rightarrow>
          if unat e > length data then Inl (Invalid ''file sizes exceed the content stream'')
          else case split_loop data rest e of
            Inl err \<Rightarrow> Inl err
          | Inr out \<Rightarrow> Inr ((fe_path entry, slice data (unat offset) (unat e)) # out))"

definition split_stream :: "manifest \<Rightarrow> bytes \<Rightarrow> manifest_error + (string \<times> bytes) list" where
  "split_stream m data =
     (if of_nat (length data) \<noteq> m_total_size m
      then Inl (SizeMismatch (of_nat (length data)) (m_total_size m))
      else case validate m of Inl e \<Rightarrow> Inl e | Inr _ \<Rightarrow> split_loop data (m_files m) 0)"

text \<open>The inner loop of \<open>reconstruct_files\<close>: \<open>n\<close> chunk indices from \<open>ci\<close> on.\<close>

fun file_chunks_loop :: "crates \<Rightarrow> manifest \<Rightarrow> 's fetcher \<Rightarrow> nat \<Rightarrow> nat \<Rightarrow> bytes \<Rightarrow> 's
    \<Rightarrow> (manifest_error + bytes) \<times> 's" where
  "file_chunks_loop X m fetch ci 0 file_bytes s = (Inr file_bytes, s)"
| "file_chunks_loop X m fetch ci (Suc n) file_bytes s =
     (case nth_opt (m_chunks m) ci of
        None \<Rightarrow> (Inl (Invalid ''file chunk range out of bounds''), s)
      | Some cref \<Rightarrow> (case fetch (cref_hash cref) s of
          (None, s') \<Rightarrow> (Inl (BadChunk ci), s')
        | (Some b, s') \<Rightarrow>
            if \<not> verify_chunk X m ci b then (Inl (BadChunk ci), s')
            else file_chunks_loop X m fetch (Suc ci) n (file_bytes @ b) s'))"

definition entry_range :: "file_entry \<Rightarrow> nat" where
  "entry_range entry = unat (fe_chunk_start entry + fe_chunk_count entry) - unat (fe_chunk_start entry)"

fun reconstruct_files_loop :: "crates \<Rightarrow> manifest \<Rightarrow> 's fetcher \<Rightarrow> file_entry list \<Rightarrow> 's
    \<Rightarrow> (manifest_error + (string \<times> bytes) list) \<times> 's" where
  "reconstruct_files_loop X m fetch [] s = (Inr [], s)"
| "reconstruct_files_loop X m fetch (entry # rest) s =
     (case file_chunks_loop X m fetch (unat (fe_chunk_start entry)) (entry_range entry) [] s of
        (Inl e, s') \<Rightarrow> (Inl e, s')
      | (Inr file_bytes, s') \<Rightarrow>
          if of_nat (length file_bytes) \<noteq> fe_size entry
          then (Inl (SizeMismatch (of_nat (length file_bytes)) (fe_size entry)), s')
          else case reconstruct_files_loop X m fetch rest s' of
            (Inl e, s'') \<Rightarrow> (Inl e, s'')
          | (Inr out, s'') \<Rightarrow> (Inr ((fe_path entry, file_bytes) # out), s''))"

definition reconstruct_files :: "crates \<Rightarrow> manifest \<Rightarrow> 's fetcher \<Rightarrow> 's
    \<Rightarrow> (manifest_error + (string \<times> bytes) list) \<times> 's" where
  "reconstruct_files X m fetch s =
     (case validate m of
        Inl e \<Rightarrow> (Inl e, s)
      | Inr _ \<Rightarrow> reconstruct_files_loop X m fetch (m_files m) s)"

section \<open>Validation against the layout it stands for\<close>

text \<open>
  Specification of a well-formed layout in unbounded arithmetic: the entries cut the chunk list
  into consecutive runs, and each run backs its file's size.
\<close>

definition lengths_sum :: "chunk_ref list \<Rightarrow> nat" where
  "lengths_sum cs = sum_list (map (\<lambda>c. unat (cref_length c)) cs)"

fun layout_ok :: "chunk_ref list \<Rightarrow> nat \<Rightarrow> file_entry list \<Rightarrow> bool" where
  "layout_ok cs start [] = (cs = [])"
| "layout_ok cs start (e # es) =
     (unat (fe_chunk_start e) = start \<and> unat (fe_chunk_count e) \<le> length cs
      \<and> lengths_sum (take (unat (fe_chunk_count e)) cs) = unat (fe_size e)
      \<and> layout_ok (drop (unat (fe_chunk_count e)) cs) (start + unat (fe_chunk_count e)) es)"

lemma lengths_sum_simps [simp]:
  "lengths_sum [] = 0" "lengths_sum (c # cs) = unat (cref_length c) + lengths_sum cs"
  "lengths_sum (cs @ ds) = lengths_sum cs + lengths_sum ds"
  by (simp_all add: lengths_sum_def)

lemma lengths_sum_take_drop: "lengths_sum (take n cs) + lengths_sum (drop n cs) = lengths_sum cs"
  by (metis append_take_drop_id lengths_sum_simps(3))

lemma lengths_sum_bound: "lengths_sum cs \<le> length cs * (2 ^ 32 - 1)"
proof (induction cs)
  case (Cons c cs)
  show ?case using Cons u32_bound [of "cref_length c"] by simp
qed simp

lemma foldl_sat_lengths:
  "unat (foldl (\<lambda>acc c. sat_add acc (ucast (cref_length c))) acc cs) = min (unat acc + lengths_sum cs) (2 ^ 64 - 1)"
  for acc :: u64
proof (induction cs arbitrary: acc)
  case Nil
  show ?case using u64_bounds(2) [of acc] by simp
next
  case (Cons c cs)
  show ?case by (simp add: Cons unat_sat_add)
qed

lemma unat_sat_lengths: "unat (sat_lengths cs) = min (lengths_sum cs) (2 ^ 64 - 1)"
  by (simp add: sat_lengths_def foldl_sat_lengths)

lemma sat_lengths_eq: "lengths_sum cs < 2 ^ 64 \<Longrightarrow> sat_lengths cs = w \<longleftrightarrow> lengths_sum cs = unat w"
  by (simp add: word_unat_eq_iff unat_sat_lengths min_def)

lemma validate_files_bytes:
  "validate_files m es cursor fb = Inr (c', fb') \<Longrightarrow> fb' = foldl sat_add fb (map fe_size es)"
  by (induction m es cursor fb rule: validate_files.induct) (auto split: if_splits option.splits simp: Let_def)

lemma validate_files_layout:
  assumes "length (m_chunks m) < 2 ^ 64" and "lengths_sum (m_chunks m) < 2 ^ 64"
  shows "unat cursor \<le> length (m_chunks m) \<Longrightarrow>
    (\<exists>c' fb'. validate_files m es cursor fb = Inr (c', fb') \<and> unat c' = length (m_chunks m))
    \<longleftrightarrow> layout_ok (drop (unat cursor) (m_chunks m)) (unat cursor) es"
proof (induction es arbitrary: cursor fb)
  case (Cons e es)
  let ?cs = "m_chunks m" and ?n = "unat (fe_chunk_count e)"
  have own: "sat_lengths (slice ?cs (unat cursor) k) = fe_size e \<longleftrightarrow>
      lengths_sum (take (k - unat cursor) (drop (unat cursor) ?cs)) = unat (fe_size e)" for k
  proof -
    have "lengths_sum (take (k - unat cursor) (drop (unat cursor) ?cs)) < 2 ^ 64"
      using assms(2) lengths_sum_take_drop [of "unat cursor" ?cs]
        lengths_sum_take_drop [of "k - unat cursor" "drop (unat cursor) ?cs"] by linarith
    then show ?thesis unfolding slice_def by (rule sat_lengths_eq)
  qed
  show ?case
  proof (cases "fe_chunk_start e = cursor \<and> unat cursor + ?n \<le> length ?cs")
    case False
    then consider "fe_chunk_start e \<noteq> cursor" | "fe_chunk_start e = cursor" "length ?cs < unat cursor + ?n" by linarith
    then show ?thesis
    proof cases
      case 1
      then have "unat (fe_chunk_start e) \<noteq> unat cursor" by (metis word_unat_eq_iff)
      with 1 show ?thesis by simp
    next
      case 2
      have "length ?cs < unat k" if "checked_add cursor (fe_chunk_count e) = Some k" for k
        using 2 unat_checked_add [OF that] by simp
      with 2 Cons.prems show ?thesis by (auto split: option.split)
    qed
  next
    case True
    then have "unat cursor + ?n < 2 ^ 64" using assms by simp
    then obtain k where add: "checked_add cursor (fe_chunk_count e) = Some k"
      and un: "unat k = unat cursor + ?n"
      using True by (simp add: checked_add_def unat_word_ariths)
    have "fe_chunk_count e = 0 \<and> fe_size e \<noteq> 0 \<Longrightarrow>
        lengths_sum (take ?n (drop (unat cursor) ?cs)) \<noteq> unat (fe_size e)" by (auto simp: unat_eq_0)
    moreover have "drop ?n (drop (unat cursor) ?cs) = drop (unat k) ?cs" by (simp add: un add.commute)
    ultimately show ?thesis
      using True own [of "unat k"] Cons.IH [of k "sat_add fb (fe_size e)"] un
      by (auto simp: add Let_def)
  qed
qed auto

lemma layout_sizes: "layout_ok cs start es \<Longrightarrow> sum_list (map (\<lambda>e. unat (fe_size e)) es) = lengths_sum cs"
proof (induction cs start es rule: layout_ok.induct)
  case (2 cs start e es)
  then show ?case using lengths_sum_take_drop [of "unat (fe_chunk_count e)" cs] by simp
qed simp

lemma foldl_sat_add:
  "unat (foldl sat_add acc ws) = min (unat acc + sum_list (map unat ws)) (2 ^ 64 - 1)" for acc :: u64
proof (induction ws arbitrary: acc)
  case Nil
  show ?case using u64_bounds(2) [of acc] by simp
qed (simp add: unat_sat_add)

lemma validate_iff_layout:
  assumes "length (m_chunks m) < 2 ^ 64" and "lengths_sum (m_chunks m) < 2 ^ 64"
  shows "validate m = Inr () \<longleftrightarrow>
    lengths_sum (m_chunks m) = unat (m_total_size m) \<and> layout_ok (m_chunks m) 0 (m_files m)"
proof -
  have lay: "(\<exists>c' fb'. validate_files m (m_files m) 0 0 = Inr (c', fb') \<and> unat c' = length (m_chunks m))
      \<longleftrightarrow> layout_ok (m_chunks m) 0 (m_files m)"
    using validate_files_layout [OF assms, of 0] by simp
  have bytes: "fb' = m_total_size m"
    if "validate_files m (m_files m) 0 0 = Inr (c', fb')" "layout_ok (m_chunks m) 0 (m_files m)"
      "lengths_sum (m_chunks m) = unat (m_total_size m)" for c' fb'
  proof -
    have "unat fb' = unat (m_total_size m)"
      using u64_bounds(2) [of "m_total_size m"] validate_files_bytes [OF that(1)] layout_sizes [OF that(2)] that(3)
      by (simp add: foldl_sat_add comp_def)
    then show ?thesis by (simp add: word_unat_eq_iff)
  qed
  show ?thesis
    using lay bytes by (auto simp: validate_def Let_def sat_lengths_eq [OF assms(2)] split: sum.splits prod.splits)
qed

section \<open>Reconstruction\<close>

lemma verify_chunk_iff:
  "verify_chunk X m i b \<longleftrightarrow> i < length (m_chunks m) \<and> hash_of (blake3 X) b = cref_hash (m_chunks m ! i)
     \<and> root_is_consistent X m"
proof (cases "i < length (m_chunks m)")
  case True
  have "(case manifest_proof X m i of None \<Rightarrow> False
      | Some p \<Rightarrow> merkle_verify (blake3 X) (chunk_hashes m ! i) p (m_root m)) \<longleftrightarrow> root_is_consistent X m"
    using mk.self_check [of "blake3 X" "chunk_hashes m" i "m_root m"] True
    by (auto simp: manifest_proof_def root_is_consistent_def chunk_hashes_def)
  with True show ?thesis
    by (auto simp: verify_chunk_def nth_opt_def chunk_hashes_def split: option.splits)
qed (simp add: verify_chunk_def nth_opt_def)

text \<open>The answers a source gives when asked for a list of hashes in order.\<close>

fun fetch_all :: "'s fetcher \<Rightarrow> hash list \<Rightarrow> 's \<Rightarrow> bytes list option \<times> 's" where
  "fetch_all fetch [] s = (Some [], s)"
| "fetch_all fetch (h # hs) s =
     (case fetch h s of
        (None, s') \<Rightarrow> (None, s')
      | (Some b, s') \<Rightarrow> (case fetch_all fetch hs s' of
          (None, s'') \<Rightarrow> (None, s'') | (Some bs, s'') \<Rightarrow> (Some (b # bs), s'')))"

lemma reconstruct_loop_ok:
  "i + length cs \<le> length (m_chunks m) \<Longrightarrow> cs = slice (m_chunks m) i (i + length cs) \<Longrightarrow>
   reconstruct_loop X m fetch i cs out s = (Inr out', s') \<longleftrightarrow>
     (\<exists>bs. fetch_all fetch (map cref_hash cs) s = (Some bs, s') \<and> out' = out @ concat bs
        \<and> map (hash_of (blake3 X)) bs = map cref_hash cs \<and> (cs \<noteq> [] \<longrightarrow> root_is_consistent X m))"
proof (induction cs arbitrary: i out s)
  case (Cons c cs)
  have sl: "slice (m_chunks m) i (i + length (c # cs)) = m_chunks m ! i # slice (m_chunks m) (Suc i) (Suc i + length cs)"
    using Cons.prems(1) by (simp add: slice_def Cons_nth_drop_Suc [symmetric])
  then have c: "c = m_chunks m ! i" and cs: "cs = slice (m_chunks m) (Suc i) (Suc i + length cs)"
    using Cons.prems(2) by simp_all
  have i: "i < length (m_chunks m)" "Suc i + length cs \<le> length (m_chunks m)" using Cons.prems(1) by simp_all
  obtain r s1 where f: "fetch (cref_hash c) s = (r, s1)" by fastforce
  show ?case
  proof (cases "\<exists>b. r = Some b \<and> verify_chunk X m i b")
    case True
    then obtain b where b: "r = Some b" "verify_chunk X m i b" by blast
    then have "hash_of (blake3 X) b = cref_hash c" "root_is_consistent X m" by (simp_all add: verify_chunk_iff c)
    with b f show ?thesis
      using Cons.IH [OF i(2) cs, of "out @ b" s1] by (auto split: option.splits prod.splits)
  next
    case False
    then show ?thesis using f i(1) by (auto simp: verify_chunk_iff c split: option.splits prod.splits)
  qed
qed auto

lemma reconstruct_loop_append:
  "reconstruct_loop X m fetch i (cs @ ds) out s =
     (case reconstruct_loop X m fetch i cs out s of
        (Inl e, s') \<Rightarrow> (Inl e, s') | (Inr out', s') \<Rightarrow> reconstruct_loop X m fetch (i + length cs) ds out' s')"
  by (induction X m fetch i cs out s rule: reconstruct_loop.induct) (auto split: option.splits prod.splits sum.splits)

lemma reconstruct_loop_prefix:
  "reconstruct_loop X m fetch i cs out s =
     (case reconstruct_loop X m fetch i cs [] s of (Inl e, s') \<Rightarrow> (Inl e, s') | (Inr out', s') \<Rightarrow> (Inr (out @ out'), s'))"
proof (induction cs arbitrary: i out s)
  case (Cons c cs)
  obtain r s1 where f: "fetch (cref_hash c) s = (r, s1)" by fastforce
  show ?case
  proof (cases r)
    case (Some b)
    then show ?thesis
      using f Cons [of "Suc i" "out @ b" s1] Cons [of "Suc i" b s1] by (auto split: prod.splits sum.splits)
  qed (simp add: f)
qed simp

lemma file_chunks_loop_eq:
  "ci + n \<le> length (m_chunks m) \<Longrightarrow>
   file_chunks_loop X m fetch ci n out s = reconstruct_loop X m fetch ci (slice (m_chunks m) ci (ci + n)) out s"
proof (induction n arbitrary: ci out s)
  case (Suc n)
  then have "slice (m_chunks m) ci (ci + Suc n) = m_chunks m ! ci # slice (m_chunks m) (Suc ci) (Suc ci + n)"
    by (simp add: slice_def Cons_nth_drop_Suc [symmetric])
  with Suc show ?case by (auto simp: nth_opt_def split: option.splits prod.splits)
qed simp

lemma lengths_sum_fits: "length cs \<le> 2 ^ 32 \<Longrightarrow> lengths_sum cs < 2 ^ 64"
proof -
  assume "length cs \<le> 2 ^ 32"
  then have "lengths_sum cs \<le> 2 ^ 32 * (2 ^ 32 - 1)"
    using lengths_sum_bound [of cs] by (meson le_trans mult_le_mono1)
  then show ?thesis by simp
qed

subsection \<open>The two reconstructions agree\<close>

lemma validate_files_step:
  assumes "validate_files m (e # es) cursor fb = Inr r"
  obtains k where "fe_chunk_start e = cursor" "k = cursor + fe_chunk_count e"
    "unat k = unat cursor + unat (fe_chunk_count e)" "unat k \<le> length (m_chunks m)"
    "validate_files m es k (sat_add fb (fe_size e)) = Inr r"
proof -
  obtain k where k: "fe_chunk_start e = cursor" "checked_add cursor (fe_chunk_count e) = Some k"
    "unat k \<le> length (m_chunks m)" "validate_files m es k (sat_add fb (fe_size e)) = Inr r"
    using assms by (auto split: if_splits option.splits simp: Let_def)
  moreover have "k = cursor + fe_chunk_count e" using k(2) by (simp add: checked_add_Some)
  ultimately show ?thesis using that unat_checked_add [OF k(2)] by blast
qed

lemma validate_files_cursor:
  "validate_files m es cursor fb = Inr (c', fb') \<Longrightarrow> unat cursor \<le> unat c'"
proof (induction es arbitrary: cursor fb)
  case (Cons e es)
  from Cons.prems show ?case
    by (rule validate_files_step) (use Cons.IH in fastforce)
qed simp

lemma files_loop_agrees:
  "validate_files m es cursor fb = Inr (c', fb') \<Longrightarrow>
   reconstruct_files_loop X m fetch es s = (Inr fs, s') \<Longrightarrow>
   reconstruct_loop X m fetch (unat cursor) (slice (m_chunks m) (unat cursor) (unat c')) [] s
     = (Inr (concat (map snd fs)), s')
   \<and> map fst fs = map fe_path es \<and> map (\<lambda>f. of_nat (length (snd f))) fs = map fe_size es"
proof (induction es arbitrary: cursor fb fs s)
  case (Cons e es)
  let ?cs = "m_chunks m" and ?a = "unat cursor"
  obtain k where st: "fe_chunk_start e = cursor" and k: "k = cursor + fe_chunk_count e"
    and ku: "unat k = ?a + unat (fe_chunk_count e)" and le: "unat k \<le> length ?cs"
    and rec: "validate_files m es k (sat_add fb (fe_size e)) = Inr (c', fb')"
    using Cons.prems(1) by (rule validate_files_step)
  have rng: "entry_range e = unat (fe_chunk_count e)"
    using ku by (simp add: entry_range_def st k)
  have fcl: "file_chunks_loop X m fetch ?a (entry_range e) [] s = reconstruct_loop X m fetch ?a (slice ?cs ?a (unat k)) [] s"
    unfolding rng ku by (rule file_chunks_loop_eq) (use le ku in simp)
  obtain b s1 fs' where b: "reconstruct_loop X m fetch ?a (slice ?cs ?a (unat k)) [] s = (Inr b, s1)"
      "of_nat (length b) = fe_size e" and r: "reconstruct_files_loop X m fetch es s1 = (Inr fs', s')"
      and fs: "fs = (fe_path e, b) # fs'"
    using Cons.prems(2) by (auto simp: st fcl split: prod.splits sum.splits if_splits)
  note IH = Cons.IH [OF rec r]
  have "slice ?cs ?a (unat c') = slice ?cs ?a (unat k) @ slice ?cs (unat k) (unat c')"
    using validate_files_cursor [OF rec] ku by (intro slice_append [symmetric]) simp_all
  then show ?case
    using IH b fs ku le reconstruct_loop_prefix [of X m fetch "unat k" "slice ?cs (unat k) (unat c')" b s1]
    by (simp add: reconstruct_loop_append)
qed simp

lemma split_loop_concat:
  "map (\<lambda>f. of_nat (length (snd f))) fs = map fe_size es \<Longrightarrow> map fst fs = map fe_path es \<Longrightarrow>
   data = pre @ concat (map snd fs) \<Longrightarrow> length data < 2 ^ 64 \<Longrightarrow> split_loop data es (of_nat (length pre)) = Inr fs"
proof (induction es arbitrary: fs pre)
  case (Cons e es)
  then obtain p b fs' where fs: "fs = (p, b) # fs'" by (cases fs) auto
  with Cons.prems have e: "fe_size e = of_nat (length b)" "fe_path e = p" by simp_all
  have len: "length pre + length b < 2 ^ 64" using Cons.prems(3,4) fs by simp
  have rec: "split_loop data es (of_nat (length (pre @ b))) = Inr fs'"
    using Cons.prems fs by (intro Cons.IH) simp_all
  have u: "unat (of_nat (length pre) :: usize) = length pre" "unat (of_nat (length b) :: usize) = length b"
    "unat (of_nat (length pre) + of_nat (length b) :: usize) = length pre + length b"
    using len by (simp_all add: unat_of_nat take_bit_nat_eq_self unat_word_ariths)
  then have "checked_add (of_nat (length pre)) (fe_size e) = Some (of_nat (length (pre @ b)))"
    using len by (simp add: checked_add_def e)
  moreover have "slice data (length pre) (length pre + length b) = b"
    using Cons.prems(3) fs by (simp add: slice_def)
  ultimately show ?case using rec u Cons.prems(3) fs e by simp
qed simp

lemma validate_cursor:
  "validate m = Inr () \<Longrightarrow> \<exists>c' fb'. validate_files m (m_files m) 0 0 = Inr (c', fb') \<and> unat c' = length (m_chunks m)"
  by (auto simp: validate_def Let_def split: if_splits sum.splits prod.splits)

section \<open>Manifests built from files\<close>

abbreviation default_cdc :: "crates \<Rightarrow> bool" where
  "default_cdc X \<equiv> cdc_ok X MIN_CHUNK AVG_CHUNK MAX_CHUNK"

text \<open>The pieces of a file, and the chunk list and entries of a file sequence in closed form.\<close>

definition pieces :: "crates \<Rightarrow> bytes \<Rightarrow> bytes list" where
  "pieces X data =
     (if data = [] then []
      else map (\<lambda>(off, len). slice data off (off + len)) (fastcdc X data MIN_CHUNK AVG_CHUNK MAX_CHUNK))"

fun refs_of :: "crates \<Rightarrow> u64 \<Rightarrow> (string \<times> bytes) list \<Rightarrow> chunk_ref list" where
  "refs_of X off [] = []"
| "refs_of X off ((p, d) # fs) = map (span_ref off) (chunk X d) @ refs_of X (off + of_nat (length d)) fs"

fun entries_of :: "crates \<Rightarrow> nat \<Rightarrow> (string \<times> bytes) list \<Rightarrow> file_entry list" where
  "entries_of X n [] = []"
| "entries_of X n ((p, d) # fs) =
     \<lparr>fe_path = p, fe_size = of_nat (length d), fe_chunk_start = of_nat n, fe_chunk_count = of_nat (length (chunk X d))\<rparr>
     # entries_of X (n + length (chunk X d)) fs"

abbreviation files_size :: "(string \<times> bytes) list \<Rightarrow> nat" where
  "files_size fs \<equiv> sum_list (map (\<lambda>f. length (snd f)) fs)"

lemma from_files_loop_closed:
  "from_files_loop X fs cs es off =
     (cs @ refs_of X off fs, es @ entries_of X (length cs) fs, off + of_nat (files_size fs))"
  by (induction X fs cs es off rule: from_files_loop.induct) (simp_all add: Let_def add.assoc)

lemma from_files_fields:
  "m_chunks (from_files X fs name) = refs_of X 0 fs"
  "m_files (from_files X fs name) = entries_of X 0 fs"
  "m_total_size (from_files X fs name) = of_nat (files_size fs)"
  "root_is_consistent X (from_files X fs name)"
  by (simp_all add: from_files_def from_files_loop_closed root_is_consistent_def chunk_hashes_def)

lemma tiles_pieces:
  "tiles a cuts n \<Longrightarrow> n \<le> length data \<Longrightarrow>
   concat (map (\<lambda>(off, len). slice data off (off + len)) cuts) = slice data a n \<and> a \<le> n
   \<and> map (\<lambda>(off, len). length (slice data off (off + len))) cuts = map snd cuts \<and> length cuts \<le> n - a"
proof (induction a cuts n rule: tiles.induct)
  case (2 a off len rest n)
  then have IH: "concat (map (\<lambda>(off, len). slice data off (off + len)) rest) = slice data (a + len) n"
    "a + len \<le> n" "map (\<lambda>(off, len). length (slice data off (off + len))) rest = map snd rest"
    "length rest \<le> n - (a + len)" by auto
  have "slice data a (a + len) @ slice data (a + len) n = slice data a n"
    using IH(2) by (intro slice_append) simp_all
  with 2 IH show ?case by auto
qed simp

lemma pieces_ok:
  assumes "default_cdc X"
  shows "concat (pieces X d) = d" "map span_hash (chunk X d) = map (hash_of (blake3 X)) (pieces X d)"
    "map (\<lambda>s. unat (span_length s)) (chunk X d) = map length (pieces X d)"
    "length (chunk X d) \<le> length d"
proof -
  let ?cuts = "fastcdc X d MIN_CHUNK AVG_CHUNK MAX_CHUNK"
  show "map span_hash (chunk X d) = map (hash_of (blake3 X)) (pieces X d)"
    by (simp add: chunk_def chunk_with_def pieces_def case_prod_unfold)
  have t: "tiles 0 ?cuts (length d)" "list_all (\<lambda>(_, len). len \<le> unat MAX_CHUNK) ?cuts" if "d \<noteq> []"
    using assms that by (simp_all add: cdc_ok_def)
  show "concat (pieces X d) = d" using tiles_pieces [OF t(1), of d] by (cases "d = []") (simp_all add: pieces_def)
  show "length (chunk X d) \<le> length d"
    using tiles_pieces [OF t(1), of d] by (cases "d = []") (simp_all add: chunk_def chunk_with_def)
  have "len < 2 ^ 32" if "d \<noteq> []" "(off, len) \<in> set ?cuts" for off len
    using t(2) [OF that(1)] that(2) u32_bound [of MAX_CHUNK] by (fastforce simp: list_all_iff)
  then have "map (\<lambda>(off, len). unat (of_nat len :: u32)) ?cuts = map snd ?cuts" if "d \<noteq> []"
    using that by (auto simp: unat_of_nat take_bit_nat_eq_self)
  then show "map (\<lambda>s. unat (span_length s)) (chunk X d) = map length (pieces X d)"
    using tiles_pieces [OF t(1), of d]
    by (cases "d = []") (simp_all add: chunk_def chunk_with_def pieces_def case_prod_unfold comp_def)
qed

lemma chunk_count_pieces: "length (chunk X d) = length (pieces X d)"
  by (simp add: chunk_def chunk_with_def pieces_def)

lemma span_ref_simps [simp]: "cref_hash (span_ref off s) = span_hash s" "cref_length (span_ref off s) = span_length s"
  by (simp_all add: span_ref_def)

lemma lengths_sum_chunk: "default_cdc X \<Longrightarrow> lengths_sum (map (span_ref off) (chunk X d)) = length d"
proof -
  assume ok: "default_cdc X"
  have "lengths_sum (map (span_ref off) (chunk X d)) = sum_list (map length (pieces X d))"
    using pieces_ok(3) [OF ok, of d] by (simp add: lengths_sum_def comp_def)
  also have "\<dots> = length (concat (pieces X d))" by (simp add: length_concat)
  finally show ?thesis by (simp add: pieces_ok(1) [OF ok])
qed

lemma refs_of_sizes:
  "default_cdc X \<Longrightarrow> lengths_sum (refs_of X off fs) = files_size fs \<and> length (refs_of X off fs) \<le> files_size fs"
proof (induction X off fs rule: refs_of.induct)
  case (2 X off p d fs)
  then show ?case using pieces_ok(4) [of X d] by (simp add: lengths_sum_chunk)
qed simp

lemma layout_from_files:
  "default_cdc X \<Longrightarrow> n + files_size fs < 2 ^ 64 \<Longrightarrow> layout_ok (refs_of X off fs) n (entries_of X n fs)"
proof (induction X off fs arbitrary: n rule: refs_of.induct)
  case (2 X off p d fs)
  have len: "length (chunk X d) \<le> length d" by (rule pieces_ok(4) [OF "2.prems"(1)])
  then have u: "unat (of_nat n :: usize) = n" "unat (of_nat (length (chunk X d)) :: usize) = length (chunk X d)"
    "unat (of_nat (length d) :: u64) = length d"
    using "2.prems"(2) by (simp_all add: unat_of_nat take_bit_nat_eq_self)
  have "layout_ok (refs_of X (off + of_nat (length d)) fs) (n + length (chunk X d)) (entries_of X (n + length (chunk X d)) fs)"
    using "2.prems" len by (intro "2.IH") simp_all
  then show ?case by (simp add: u lengths_sum_chunk [OF "2.prems"(1)])
qed simp

lemma from_files_valid:
  assumes "default_cdc X" and "files_size fs < 2 ^ 64"
  shows "validate (from_files X fs name) = Inr ()"
proof -
  have "length (refs_of X 0 fs) < 2 ^ 64" "lengths_sum (refs_of X 0 fs) = files_size fs"
    using refs_of_sizes [OF assms(1), of 0 fs] assms(2) by simp_all
  then show ?thesis
    using layout_from_files [OF assms(1), of 0 fs 0] assms(2)
    by (simp add: validate_iff_layout from_files_fields unat_of_nat take_bit_nat_eq_self)
qed

text \<open>A source that holds every piece of a file sequence under its hash.\<close>

definition serves :: "crates \<Rightarrow> (string \<times> bytes) list \<Rightarrow> (hash \<Rightarrow> bytes option) \<Rightarrow> bool" where
  "serves X fs src = list_all (\<lambda>(_, d). list_all (\<lambda>b. src (hash_of (blake3 X) b) = Some b) (pieces X d)) fs"

abbreviation pure_fetch :: "(hash \<Rightarrow> bytes option) \<Rightarrow> 's fetcher" where
  "pure_fetch src \<equiv> (\<lambda>h s. (src h, s))"

lemma fetch_all_pure:
  "list_all (\<lambda>b. src (hash_of d b) = Some b) bs \<Longrightarrow> fetch_all (pure_fetch src) (map (hash_of d) bs) s = (Some bs, s)"
  by (induction bs) simp_all

lemma files_loop_serves:
  "default_cdc X \<Longrightarrow> n + files_size fs < 2 ^ 64 \<Longrightarrow> serves X fs src \<Longrightarrow> root_is_consistent X m \<Longrightarrow>
   m_chunks m = pre @ refs_of X off fs \<Longrightarrow> n = length pre \<Longrightarrow>
   reconstruct_files_loop X m (pure_fetch src) (entries_of X n fs) s = (Inr fs, s)"
proof (induction X off fs arbitrary: n pre rule: refs_of.induct)
  case (2 X off p d fs)
  let ?k = "length (chunk X d)" and ?r = "map (span_ref off) (chunk X d)"
  note ok = pieces_ok [OF "2.prems"(1)]
  have u: "unat (of_nat n :: usize) = n" "unat (of_nat n + of_nat ?k :: usize) = n + ?k"
    using ok(4) [of d] "2.prems"(2) by (simp_all add: unat_of_nat take_bit_nat_eq_self unat_word_ariths)
  have bound: "n + ?k \<le> length (m_chunks m)" and sl: "slice (m_chunks m) n (n + ?k) = ?r"
    using "2.prems"(5,6) by (simp_all add: slice_def)
  have hashes: "map cref_hash ?r = map (hash_of (blake3 X)) (pieces X d)" by (simp add: comp_def ok(2))
  have "reconstruct_loop X m (pure_fetch src) n ?r [] s = (Inr d, s)"
  proof (subst reconstruct_loop_ok)
    show "\<exists>bs. fetch_all (pure_fetch src) (map cref_hash ?r) s = (Some bs, s) \<and> d = [] @ concat bs
        \<and> map (hash_of (blake3 X)) bs = map cref_hash ?r \<and> (?r \<noteq> [] \<longrightarrow> root_is_consistent X m)"
      unfolding hashes using "2.prems"(3,4)
      by (intro exI [of _ "pieces X d"]) (simp add: ok(1) serves_def fetch_all_pure)
  qed (use bound sl in simp_all)
  then have fl: "file_chunks_loop X m (pure_fetch src) n ?k [] s = (Inr d, s)"
    using file_chunks_loop_eq [OF bound, of X "pure_fetch src" "[]" s] sl by simp
  have "reconstruct_files_loop X m (pure_fetch src) (entries_of X (n + ?k) fs) s = (Inr fs, s)"
    using "2.prems" ok(4) [of d] by (intro "2.IH" [of _ "pre @ ?r"]) (simp_all add: serves_def)
  then show ?case using fl by (simp add: entry_range_def u)
qed simp

lemma declared_sizes_sum:
  "map (\<lambda>f. of_nat (length (snd f))) fs = map fe_size es \<Longrightarrow> files_size fs < 2 ^ 64 \<Longrightarrow>
   sum_list (map unat (map fe_size es)) = files_size fs"
proof (induction es arbitrary: fs)
  case (Cons e es)
  then obtain f fs' where fs: "fs = f # fs'" by (cases fs) auto
  with Cons.prems have "fe_size e = of_nat (length (snd f))" "length (snd f) < 2 ^ 64" by auto
  then have "unat (fe_size e) = length (snd f)" by (simp add: unat_of_nat take_bit_nat_eq_self)
  with Cons.IH [of fs'] Cons.prems fs show ?case by simp
qed simp

lemma reconstruct_success:
  "reconstruct X m fetch s = (Inr out, s') \<longleftrightarrow>
     validate m = Inr () \<and>
     (\<exists>bs. fetch_all fetch (chunk_hashes m) s = (Some bs, s') \<and> map (hash_of (blake3 X)) bs = chunk_hashes m
        \<and> out = concat bs \<and> (m_chunks m = [] \<or> root_is_consistent X m) \<and> of_nat (length out) = m_total_size m)"
proof -
  have "reconstruct_loop X m fetch 0 (m_chunks m) [] s = (Inr o', s'') \<longleftrightarrow>
      (\<exists>bs. fetch_all fetch (chunk_hashes m) s = (Some bs, s'') \<and> o' = concat bs
        \<and> map (hash_of (blake3 X)) bs = chunk_hashes m \<and> (m_chunks m \<noteq> [] \<longrightarrow> root_is_consistent X m))" for o' s''
    using reconstruct_loop_ok [of 0 "m_chunks m" m X fetch "[]" s o' s''] by (simp add: chunk_hashes_def)
  then show ?thesis
    by (auto simp: reconstruct_def split: sum.splits prod.splits if_splits)
qed

section \<open>Properties\<close>

text \<open>
  C10. \<open>validate\<close> decides exactly the layout it documents: for a chunk list of at most $2^{32}$ entries it
  accepts a manifest iff, in unbounded arithmetic, the chunk lengths sum to \<open>total_size\<close> and the file
  entries cut the chunk list into consecutive runs, each backing its file's size. The saturating
  sums and the overflow check accept nothing else and refuse nothing else.
\<close>

theorem validate_iff_tiling:
  assumes "length (m_chunks m) \<le> 2 ^ 32"
  shows "validate m = Inr () \<longleftrightarrow>
    lengths_sum (m_chunks m) = unat (m_total_size m) \<and> layout_ok (m_chunks m) 0 (m_files m)"
  using lengths_sum_fits [OF assms] assms by (intro validate_iff_layout) simp_all

definition sample_hash :: hash where "sample_hash = Hash (replicate 32 7)"

definition sample_manifest :: manifest where
  "sample_manifest =
     \<lparr>m_root = sample_hash, m_total_size = 5,
      m_chunks = [\<lparr>cref_hash = sample_hash, cref_offset = 0, cref_length = 2\<rparr>,
                  \<lparr>cref_hash = sample_hash, cref_offset = 2, cref_length = 3\<rparr>],
      m_files = [\<lparr>fe_path = ''a'', fe_size = 2, fe_chunk_start = 0, fe_chunk_count = 1\<rparr>,
                 \<lparr>fe_path = ''e'', fe_size = 0, fe_chunk_start = 1, fe_chunk_count = 0\<rparr>,
                 \<lparr>fe_path = ''b'', fe_size = 3, fe_chunk_start = 1, fe_chunk_count = 1\<rparr>],
      m_name = None\<rparr>"

theorem validate_iff_tiling_witness:
  "length (m_chunks sample_manifest) \<le> 2 ^ 32 \<and> validate sample_manifest = Inr ()"
proof
  show len: "length (m_chunks sample_manifest) \<le> 2 ^ 32" by (simp add: sample_manifest_def)
  have "lengths_sum (m_chunks sample_manifest) = unat (m_total_size sample_manifest)
      \<and> layout_ok (m_chunks sample_manifest) 0 (m_files sample_manifest)"
    by code_simp
  then show "validate sample_manifest = Inr ()" using validate_iff_tiling [OF len] by blast
qed

text \<open>
  C11. \<open>reconstruct\<close> returns bytes exactly when the manifest validates, the source answered every listed
  hash in order with bytes of that hash, the root commits to the chunk list (when it is not empty)
  and the concatenation has the declared size; the bytes are that concatenation. Nothing a source
  answers, at any call, can make it return anything else.
\<close>

theorem reconstruct_exact:
  "reconstruct X m fetch s = (Inr out, s') \<longleftrightarrow>
     validate m = Inr () \<and>
     (\<exists>bs. fetch_all fetch (chunk_hashes m) s = (Some bs, s') \<and> map (hash_of (blake3 X)) bs = chunk_hashes m
        \<and> out = concat bs \<and> (m_chunks m = [] \<or> root_is_consistent X m) \<and> of_nat (length out) = m_total_size m)"
  by (rule reconstruct_success)

text \<open>
  The two ways to rebuild a tree agree: whenever \<open>reconstruct_files\<close> returns files (of less than
  $2^{64}$ bytes together), \<open>reconstruct\<close> on the same source returns their concatenation and leaves the
  source in the same state, and \<open>split_stream\<close> cuts that stream back into the same files.
\<close>

theorem reconstruct_files_agrees:
  assumes "reconstruct_files X m fetch s = (Inr fs, s')" and "files_size fs < 2 ^ 64"
  shows "reconstruct X m fetch s = (Inr (concat (map snd fs)), s')
    \<and> split_stream m (concat (map snd fs)) = Inr fs \<and> map fst fs = map fe_path (m_files m)"
proof -
  have v: "validate m = Inr ()" and loop: "reconstruct_files_loop X m fetch (m_files m) s = (Inr fs, s')"
    using assms(1) by (auto simp: reconstruct_files_def split: sum.splits)
  obtain c' fb' where vf: "validate_files m (m_files m) 0 0 = Inr (c', fb')" and c': "unat c' = length (m_chunks m)"
    using validate_cursor [OF v] by blast
  note agree = files_loop_agrees [OF vf loop, unfolded c', simplified]
  have fb': "fb' = m_total_size m" using v vf by (auto simp: validate_def Let_def split: if_splits)
  have "unat fb' = min (files_size fs) (2 ^ 64 - 1)"
    using validate_files_bytes [OF vf] declared_sizes_sum [of fs "m_files m"] agree assms(2)
    by (simp add: foldl_sat_add)
  then have "unat (m_total_size m) = length (concat (map snd fs))"
    using assms(2) fb' by (simp add: length_concat comp_def)
  then have total: "of_nat (length (concat (map snd fs))) = m_total_size m"
    by (metis of_nat_unat ucast_id)
  have "split_loop (concat (map snd fs)) (m_files m) (of_nat (length ([] :: bytes))) = Inr fs"
    using agree assms(2) by (intro split_loop_concat [where pre = "[]"]) (simp_all add: length_concat comp_def)
  then show ?thesis
    using agree total v by (simp add: reconstruct_def split_stream_def)
qed

definition piece_source :: "crates \<Rightarrow> (string \<times> bytes) list \<Rightarrow> hash \<Rightarrow> bytes option" where
  "piece_source X fs = map_of (map (\<lambda>b. (hash_of (blake3 X) b, b)) (concat (map (\<lambda>f. pieces X (snd f)) fs)))"

definition sample_files :: "(string \<times> bytes) list" where
  "sample_files = [(''a/x'', [1, 2, 3]), (''e'', []), (''b'', [4, 5])]"

theorem reconstruct_files_agrees_witness:
  "reconstruct sample_crates (from_files sample_crates sample_files None)
     (pure_fetch (piece_source sample_crates sample_files)) () = (Inr [1, 2, 3, 4, 5], ())"
proof -
  let ?m = "from_files sample_crates sample_files None"
  have "reconstruct_files sample_crates ?m (pure_fetch (piece_source sample_crates sample_files)) () = (Inr sample_files, ())"
    by code_simp
  moreover have "files_size sample_files < 2 ^ 64" by (simp add: sample_files_def)
  ultimately show ?thesis
    using reconstruct_files_agrees [of sample_crates ?m "pure_fetch (piece_source sample_crates sample_files)" "()" sample_files "()"]
    by (simp add: sample_files_def)
qed

text \<open>
  C12. Packing and unpacking is the identity: for a chunker that cuts its input into consecutive
  chunks within the maximum, the manifest \<open>from_files\<close> builds for any file sequence of less than $2^{64}$
  bytes (empty files included) validates, has a consistent root, and \<open>reconstruct_files\<close> from any
  source that serves the pieces returns exactly the files, paths and order.
\<close>

theorem from_files_roundtrip:
  assumes "default_cdc X" and "files_size fs < 2 ^ 64" and "serves X fs src"
  shows "validate (from_files X fs name) = Inr () \<and> root_is_consistent X (from_files X fs name)
    \<and> reconstruct_files X (from_files X fs name) (pure_fetch src) s = (Inr fs, s)"
proof -
  have "reconstruct_files_loop X (from_files X fs name) (pure_fetch src) (entries_of X 0 fs) s = (Inr fs, s)"
    using assms by (intro files_loop_serves [where off = 0 and pre = "[]"]) (simp_all add: from_files_fields)
  then show ?thesis
    using from_files_valid [OF assms(1,2), of name] by (simp add: from_files_fields reconstruct_files_def)
qed

theorem from_files_roundtrip_witness:
  "reconstruct_files sample_crates (from_files sample_crates sample_files (Some ''t''))
     (pure_fetch (piece_source sample_crates sample_files)) () = (Inr sample_files, ())"
proof -
  have "default_cdc sample_crates" by (rule cdc_ok_sample) (simp add: MAX_CHUNK_def)
  moreover have "files_size sample_files < 2 ^ 64" by (simp add: sample_files_def)
  moreover have "serves sample_crates sample_files (piece_source sample_crates sample_files)" by code_simp
  ultimately show ?thesis
    using from_files_roundtrip [of sample_crates sample_files _ "Some ''t''" "()"] by blast
qed

text \<open>The chunks a source answered in a run of \<open>reconstruct\<close>.\<close>

definition received :: "manifest \<Rightarrow> 's fetcher \<Rightarrow> 's \<Rightarrow> bytes set" where
  "received m fetch s = (case fst (fetch_all fetch (chunk_hashes m) s) of None \<Rightarrow> {} | Some bs \<Rightarrow> set bs)"

lemma map_hash_of_inj: "map (hash_of d) bs = map (hash_of d) bs' \<Longrightarrow> inj_on d (set bs \<union> set bs') \<Longrightarrow> bs = bs'"
proof -
  assume eq: "map (hash_of d) bs = map (hash_of d) bs'" and "inj_on d (set bs \<union> set bs')"
  then have "inj_on (hash_of d) (set bs \<union> set bs')" by (simp add: inj_on_def hash_of_def)
  with eq show ?thesis by (rule map_inj_on)
qed


definition one_file :: "(string \<times> bytes) list" where
  "one_file = [(''f'', [1, 2])]"


text \<open>
  The \<open>.nptp\<close> container: \<open>from_nptp\<close> inverts \<open>to_nptp\<close>, and it accepts an input only if it is the magic
  header, version 1 and a body that decodes to the manifest returned; anything shorter or with another
  header or version is refused without decoding.
\<close>

theorem nptp_container:
  assumes "codec_ok Z m"
  shows "(\<exists>b. to_nptp Z m = Inr b \<and> from_nptp Z b = Inr m)
    \<and> (\<forall>b m'. from_nptp Z b = Inr m' \<longleftrightarrow> (\<exists>body. b = NPTP_MAGIC @ [NPTP_VERSION] @ body \<and> deserialize Z body = Inr m'))"
proof -
  have acc: "from_nptp Z b = Inr m' \<longleftrightarrow> (\<exists>body. b = NPTP_MAGIC @ [NPTP_VERSION] @ body \<and> deserialize Z body = Inr m')"
    for b m'
  proof
    assume acc: "from_nptp Z b = Inr m'"
    then have l: "5 \<le> length b" "take 4 b = NPTP_MAGIC" "b ! 4 = NPTP_VERSION" "deserialize Z (drop 5 b) = Inr m'"
      by (auto simp: from_nptp_def from_serialized_def split: if_splits sum.splits)
    have "b = take 4 b @ b ! 4 # drop 5 b"
      using l(1) id_take_nth_drop [of 4 b] by simp
    then show "\<exists>body. b = NPTP_MAGIC @ [NPTP_VERSION] @ body \<and> deserialize Z body = Inr m'"
      using l by (metis append_Cons append_Nil)
  qed (auto simp: from_nptp_def from_serialized_def NPTP_MAGIC_def)
  moreover from assms obtain body where "serialize Z m = Inr body" "deserialize Z body = Inr m"
    by (auto simp: codec_ok_def split: sum.splits)
  ultimately show ?thesis by (simp add: to_nptp_def to_bytes_def)
qed

theorem nptp_container_witness:
  "from_nptp \<lparr>serialize = \<lambda>_. Inr [9], deserialize = \<lambda>b. if b = [9] then Inr sample_manifest else Inl ''eof''\<rparr>
     (NPTP_MAGIC @ [NPTP_VERSION, 9]) = Inr sample_manifest"
proof -
  have "codec_ok \<lparr>serialize = \<lambda>_. Inr [9], deserialize = \<lambda>b. if b = [9] then Inr sample_manifest else Inl ''eof''\<rparr> sample_manifest"
    by (simp add: codec_ok_def)
  from nptp_container [OF this] show ?thesis by (auto simp: to_nptp_def to_bytes_def)
qed

text \<open>
  Content links: for a hex codec that decodes what it encodes, \<open>root_from_uri\<close> inverts \<open>uri\<close> on every
  manifest with a 32-byte root, and it returns a root only for a string that is the scheme, a colon and
  a hex string of that root.
\<close>

theorem uri_roundtrip:
  assumes "hex_ok X" and "wf_hash (m_root m)"
  shows "root_from_uri X (uri X m) = Inr (m_root m)
    \<and> (\<forall>u h. root_from_uri X u = Inr h \<longleftrightarrow> (\<exists>hex. u = URI_SCHEME @ '':'' @ hex \<and> from_hex X hex = Inr h))"
proof -
  have strip_colon: "strip_prefix '':'' (CHR '':'' # r) = Some r" for r by (simp add: strip_prefix_def)
  have "root_from_uri X u = Inr h \<longleftrightarrow> (\<exists>hex. u = URI_SCHEME @ '':'' @ hex \<and> from_hex X hex = Inr h)" for u h
    by (auto simp: root_from_uri_def strip_prefix_Some strip_colon split: option.splits sum.splits)
  then show ?thesis using from_hex_to_hex [OF assms] by (auto simp: uri_def)
qed

theorem uri_roundtrip_witness: "root_from_uri sample_crates (uri sample_crates sample_manifest) = Inr sample_hash"
  using uri_roundtrip [OF hex_ok_sample, of sample_manifest]
  by (simp add: wf_hash_def sample_manifest_def sample_hash_def)

end
