(* ===== verification/Fs.thy ===== *)
theory Fs
  imports Text
begin

text \<open>
  The file system as the sources use it through \<open>std::fs\<close> and \<open>std::io\<close>. A path is the list of
  names that resolve it from the root; a file system holds files, directories and the set of paths
  the operating system refuses (permissions, a failing disk), so that every error return of the
  sources is reachable in the model. Each operation returns the error or the changed file system.
  Writes are all-or-nothing here; torn appends are modelled where the code defends against them.
\<close>

type_synonym path = "string list"

datatype io_error = NotFound | PermissionDenied | NotADirectory | IsADirectory | InvalidData | UnexpectedEof | OtherIo string

record fs =
  fs_files :: "(path, bytes) hmap"
  fs_dirs :: "path list"
  fs_denied :: "path \<Rightarrow> bool"

definition empty_fs :: fs where
  "empty_fs = \<lparr>fs_files = [], fs_dirs = [[]], fs_denied = (\<lambda>_. False)\<rparr>"

section \<open>Operations\<close>

definition fs_exists :: "fs \<Rightarrow> path \<Rightarrow> bool" where
  "fs_exists f p = (\<not> fs_denied f p \<and> (hm_contains (fs_files f) p \<or> p \<in> set (fs_dirs f)))"

definition fs_read :: "fs \<Rightarrow> path \<Rightarrow> io_error + bytes" where
  "fs_read f p =
     (if fs_denied f p then Inl PermissionDenied
      else if p \<in> set (fs_dirs f) then Inl IsADirectory
      else case hm_get (fs_files f) p of None \<Rightarrow> Inl NotFound | Some b \<Rightarrow> Inr b)"

definition fs_read_to_string :: "fs \<Rightarrow> path \<Rightarrow> io_error + string" where
  "fs_read_to_string f p =
     (case fs_read f p of Inl e \<Rightarrow> Inl e
      | Inr b \<Rightarrow> (case from_utf8 b of None \<Rightarrow> Inl InvalidData | Some s \<Rightarrow> Inr s))"

text \<open>\<open>fs::metadata(p)?.len()\<close> of a file.\<close>

definition fs_len :: "fs \<Rightarrow> path \<Rightarrow> io_error + nat" where
  "fs_len f p = (case fs_read f p of Inl e \<Rightarrow> Inl e | Inr b \<Rightarrow> Inr (length b))"

text \<open>Opening a file for writing needs its directory and must not hit a directory.\<close>

definition fs_open_write :: "fs \<Rightarrow> path \<Rightarrow> io_error option" where
  "fs_open_write f p =
     (if fs_denied f p then Some PermissionDenied
      else if p = [] \<or> p \<in> set (fs_dirs f) then Some IsADirectory
      else if butlast p \<notin> set (fs_dirs f) then Some NotFound
      else None)"

text \<open>\<open>fs::write\<close> and \<open>File::create\<close> followed by \<open>write_all\<close>.\<close>

definition fs_write :: "fs \<Rightarrow> path \<Rightarrow> bytes \<Rightarrow> io_error + fs" where
  "fs_write f p b =
     (case fs_open_write f p of Some e \<Rightarrow> Inl e
      | None \<Rightarrow> Inr (f\<lparr>fs_files := hm_insert p b (fs_files f)\<rparr>))"

text \<open>\<open>OpenOptions::new().create(true).append(true).open(p)\<close>: an absent file is created empty.\<close>

definition fs_create_append :: "fs \<Rightarrow> path \<Rightarrow> io_error + fs" where
  "fs_create_append f p =
     (case fs_open_write f p of Some e \<Rightarrow> Inl e
      | None \<Rightarrow> Inr (if hm_contains (fs_files f) p then f
                    else f\<lparr>fs_files := hm_insert p [] (fs_files f)\<rparr>))"

text \<open>A \<open>write_all\<close> on an append handle lands at the end of the file as it is now.\<close>

definition file_content :: "fs \<Rightarrow> path \<Rightarrow> bytes" where
  "file_content f p = (case hm_get (fs_files f) p of None \<Rightarrow> [] | Some b \<Rightarrow> b)"

definition fs_append :: "fs \<Rightarrow> path \<Rightarrow> bytes \<Rightarrow> io_error + fs" where
  "fs_append f p b =
     (case fs_create_append f p of Inl e \<Rightarrow> Inl e
      | Inr f' \<Rightarrow> Inr (f'\<lparr>fs_files := hm_insert p (file_content f' p @ b) (fs_files f')\<rparr>))"

text \<open>\<open>fs::create_dir_all\<close>: every prefix must be a directory or absent.\<close>

fun prefixes_of :: "path \<Rightarrow> path list" where
  "prefixes_of [] = [[]]"
| "prefixes_of (x # xs) = [] # map ((#) x) (prefixes_of xs)"

definition fs_create_dir_all :: "fs \<Rightarrow> path \<Rightarrow> io_error + fs" where
  "fs_create_dir_all f p =
     (if fs_denied f p then Inl PermissionDenied
      else if list_ex (\<lambda>q. hm_contains (fs_files f) q) (prefixes_of p) then Inl NotADirectory
      else Inr (f\<lparr>fs_dirs := remdups (prefixes_of p @ fs_dirs f)\<rparr>))"

definition fs_remove_file :: "fs \<Rightarrow> path \<Rightarrow> io_error + fs" where
  "fs_remove_file f p =
     (case fs_read f p of Inl e \<Rightarrow> Inl e
      | Inr _ \<Rightarrow> Inr (f\<lparr>fs_files := hm_remove p (fs_files f)\<rparr>))"

text \<open>\<open>fs::rename\<close> of a file: the destination is replaced.\<close>

definition fs_rename :: "fs \<Rightarrow> path \<Rightarrow> path \<Rightarrow> io_error + fs" where
  "fs_rename f p q =
     (case fs_read f p of Inl e \<Rightarrow> Inl e
      | Inr b \<Rightarrow> (case fs_open_write f q of Some e \<Rightarrow> Inl e
        | None \<Rightarrow> Inr (f\<lparr>fs_files := hm_insert q b (hm_remove p (fs_files f))\<rparr>)))"

text \<open>\<open>fs::read_dir\<close>: the names of the files and of the directories of a directory.\<close>

definition fs_read_dir :: "fs \<Rightarrow> path \<Rightarrow> io_error + (string \<times> bool) list" where
  "fs_read_dir f d =
     (if fs_denied f d then Inl PermissionDenied
      else if d \<notin> set (fs_dirs f) then Inl NotFound
      else Inr (map (\<lambda>(p, _). (last p, False)) (filter (\<lambda>(p, _). p \<noteq> [] \<and> butlast p = d) (fs_files f))
              @ map (\<lambda>p. (last p, True)) (filter (\<lambda>p. p \<noteq> [] \<and> butlast p = d) (fs_dirs f))))"

text \<open>\<open>file.seek(SeekFrom::Start(o)); file.read_exact(&mut buf[..n])\<close>.\<close>

definition read_exact_at :: "bytes \<Rightarrow> nat \<Rightarrow> nat \<Rightarrow> io_error + bytes" where
  "read_exact_at content off n =
     (if off + n \<le> length content \<or> n = 0 then Inr (slice content off (off + n)) else Inl UnexpectedEof)"

section \<open>Laws\<close>

text \<open>The part of a file system an operation must not touch is stated through its contents.\<close>

definition same_except :: "path set \<Rightarrow> fs \<Rightarrow> fs \<Rightarrow> bool" where
  "same_except A f f' \<longleftrightarrow> (\<forall>p. p \<notin> A \<longrightarrow> hm_get (fs_files f') p = hm_get (fs_files f) p)"

lemma same_except_refl [simp]: "same_except A f f"
  by (simp add: same_except_def)

lemma same_except_trans: "same_except A f g \<Longrightarrow> same_except B g h \<Longrightarrow> same_except (A \<union> B) f h"
  by (simp add: same_except_def)

lemma same_except_mono: "same_except A f g \<Longrightarrow> A \<subseteq> B \<Longrightarrow> same_except B f g"
  by (auto simp: same_except_def)

lemma fs_write_file: "fs_write f p b = Inr f' \<Longrightarrow> hm_get (fs_files f') p = Some b \<and> same_except {p} f f'
    \<and> fs_dirs f' = fs_dirs f \<and> fs_denied f' = fs_denied f"
  by (auto simp: fs_write_def same_except_def split: option.splits)

lemma fs_append_file: "fs_append f p b = Inr f' \<Longrightarrow>
    hm_get (fs_files f') p = Some (file_content f p @ b) \<and> same_except {p} f f'
    \<and> fs_dirs f' = fs_dirs f \<and> fs_denied f' = fs_denied f"
  by (auto simp: fs_append_def fs_create_append_def same_except_def file_content_def hm_contains_def
      split: option.splits if_splits)

lemma fs_create_append_file: "fs_create_append f p = Inr f' \<Longrightarrow>
    hm_get (fs_files f') p = Some (file_content f p) \<and> same_except {p} f f'
    \<and> fs_dirs f' = fs_dirs f \<and> fs_denied f' = fs_denied f"
  by (auto simp: fs_create_append_def same_except_def file_content_def hm_contains_def
      split: option.splits if_splits)

lemma fs_create_dir_all_files: "fs_create_dir_all f p = Inr f' \<Longrightarrow>
    fs_files f' = fs_files f \<and> fs_denied f' = fs_denied f \<and> set (fs_dirs f') = set (prefixes_of p) \<union> set (fs_dirs f)"
  by (auto simp: fs_create_dir_all_def split: if_splits)

lemma fs_read_Inr: "fs_read f p = Inr b \<Longrightarrow> hm_get (fs_files f) p = Some b"
  by (auto simp: fs_read_def split: if_splits option.splits)

lemma fs_read_NotFound: "fs_read f p = Inl NotFound \<Longrightarrow> hm_get (fs_files f) p = None"
  by (auto simp: fs_read_def split: if_splits option.splits)

lemma prefixes_of_self [simp]: "p \<in> set (prefixes_of p)"
  by (induction p) auto

lemma set_prefixes_of: "q \<in> set (prefixes_of p) \<longleftrightarrow> (\<exists>r. p = q @ r)"
  by (induction p arbitrary: q) (auto simp: Cons_eq_append_conv)

lemma read_exact_at_slice: "off + n \<le> length c \<Longrightarrow> read_exact_at c off n = Inr (slice c off (off + n))"
  by (simp add: read_exact_at_def)

lemma read_exact_at_append: "off + n \<le> length c \<Longrightarrow> read_exact_at (c @ d) off n = read_exact_at c off n"
  by (simp add: read_exact_at_def slice_def)

end
