(* ===== verification/Paths.thy ===== *)
theory Paths
  imports Fs
begin

text \<open>
  Validation of peer-supplied relative paths: \<open>crates/np2ptp-core/src/path.rs\<close>, and
  \<open>sanitize_output_name\<close> of \<open>crates/np2ptp-node/src/lib.rs\<close>. \<open>std::path::Path::components\<close> is
  modelled with the Unix rules (repeated separators and interior \<open>.\<close> pieces vanish). The lemmas
  show that an accepted path, joined onto an output directory the way the exporters join it,
  names a file strictly below that directory.
\<close>

section \<open>Path components\<close>

datatype path_component = RootDir | CurDir | ParentDir | Normal string

definition path_components :: "string \<Rightarrow> path_component list" where
  "path_components s =
     (let ps = split_on CHR ''/'' s; has_root = (s \<noteq> [] \<and> hd s = CHR ''/'') in
      (if has_root then [RootDir] else if hd ps = ''.'' then [CurDir] else [])
      @ map (\<lambda>p. if p = ''..'' then ParentDir else Normal p) (filter (\<lambda>p. p \<noteq> [] \<and> p \<noteq> ''.'') ps))"

section \<open>Validation\<close>

text \<open>The error messages of the source, one constructor each.\<close>

datatype path_error = EmptyPath | HasBackslash | HasColon | TrailingDotOrSpace | ReservedDevice | NotRelative | NamesNoFile

definition reserved_names :: "string list" where
  "reserved_names =
     [''CON'', ''PRN'', ''AUX'', ''NUL'',
      ''COM1'', ''COM2'', ''COM3'', ''COM4'', ''COM5'', ''COM6'', ''COM7'', ''COM8'', ''COM9'',
      ''LPT1'', ''LPT2'', ''LPT3'', ''LPT4'', ''LPT5'', ''LPT6'', ''LPT7'', ''LPT8'', ''LPT9'',
      ''$MFT'', ''$MFTMIRR'', ''$LOGFILE'', ''$VOLUME'', ''$ATTRDEF'', ''$BITMAP'',
      ''$BOOT'', ''$BADCLUS'', ''$SECURE'', ''$UPCASE'', ''$EXTEND'', ''$QUOTA'',
      ''$OBJID'', ''$REPARSE'']"

definition is_windows_reserved_device :: "string \<Rightarrow> bool" where
  "is_windows_reserved_device name =
     (let stem = hd (split_on CHR ''.'' name) in to_ascii_uppercase stem \<in> set reserved_names)"

text \<open>
  The loop over the components, counting the accepted ones. A component of a \<open>&str\<close> is always
  valid UTF-8, so the \<open>to_str\<close> error of the source cannot occur.
\<close>

fun check_components :: "path_component list \<Rightarrow> nat \<Rightarrow> path_error + nat" where
  "check_components [] n = Inr n"
| "check_components (Normal name # rest) n =
     (if CHR '':'' \<in> set name then Inl HasColon
      else if name \<noteq> [] \<and> (last name = CHR ''.'' \<or> last name = CHR '' '')
        then Inl TrailingDotOrSpace
      else if is_windows_reserved_device name then Inl ReservedDevice
      else check_components rest (n + 1))"
| "check_components (_ # rest) n = Inl NotRelative"

definition validate_relative_path :: "string \<Rightarrow> path_error + unit" where
  "validate_relative_path path =
     (if path = [] then Inl EmptyPath
      else if CHR 0x5C \<in> set path then Inl HasBackslash
      else case check_components (path_components path) 0 of
        Inl e \<Rightarrow> Inl e
      | Inr n \<Rightarrow> if n = 0 then Inl NamesNoFile else Inr ())"

section \<open>Joining\<close>

text \<open>
  \<open>dest.push(comp)\<close> for the pieces of a \<open>split('/')\<close>, as the location the file system resolves: an
  empty or \<open>.\<close> piece stays, \<open>..\<close> goes up. No piece contains a separator, so none replaces the path.
\<close>

definition push_comp :: "path \<Rightarrow> string \<Rightarrow> path" where
  "push_comp dest piece = (if piece = [] \<or> piece = ''.'' then dest
     else if piece = ''..'' then butlast dest else dest @ [piece])"

definition join_relative :: "path \<Rightarrow> string \<Rightarrow> path" where
  "join_relative out_dir rel = foldl push_comp out_dir (split_on CHR ''/'' rel)"

text \<open>A joined path that ends in a separator or \<open>.\<close> names a directory, which cannot be created as a file.\<close>

definition names_directory :: "string \<Rightarrow> bool" where
  "names_directory rel = (last (split_on CHR ''/'' rel) \<in> {[], ''.''})"

section \<open>Display names\<close>

text \<open>The UTF-8 encodings of the characters with the \<open>White_Space\<close> property.\<close>

definition ws_encodings :: "string list" where
  "ws_encodings =
     [[CHR 0x09], [CHR 0x0A], [CHR 0x0B], [CHR 0x0C], [CHR 0x0D], [CHR 0x20], [CHR 0xC2, CHR 0x85],
      [CHR 0xC2, CHR 0xA0], [CHR 0xE1, CHR 0x9A, CHR 0x80], [CHR 0xE2, CHR 0x80, CHR 0xA8],
      [CHR 0xE2, CHR 0x80, CHR 0xA9], [CHR 0xE2, CHR 0x80, CHR 0xAF], [CHR 0xE2, CHR 0x81, CHR 0x9F],
      [CHR 0xE3, CHR 0x80, CHR 0x80], [CHR 0xE2, CHR 0x80, CHR 0x80], [CHR 0xE2, CHR 0x80, CHR 0x81],
      [CHR 0xE2, CHR 0x80, CHR 0x82], [CHR 0xE2, CHR 0x80, CHR 0x83], [CHR 0xE2, CHR 0x80, CHR 0x84],
      [CHR 0xE2, CHR 0x80, CHR 0x85], [CHR 0xE2, CHR 0x80, CHR 0x86], [CHR 0xE2, CHR 0x80, CHR 0x87],
      [CHR 0xE2, CHR 0x80, CHR 0x88], [CHR 0xE2, CHR 0x80, CHR 0x89], [CHR 0xE2, CHR 0x80, CHR 0x8A]]"

definition ws_prefix :: "string list \<Rightarrow> string \<Rightarrow> nat" where
  "ws_prefix encs s = (case filter (\<lambda>e. take (length e) s = e) encs of [] \<Rightarrow> 0 | e # _ \<Rightarrow> length e)"

function trim_ws :: "string list \<Rightarrow> string \<Rightarrow> string" where
  "trim_ws encs s = (let n = ws_prefix encs s in if n = 0 \<or> s = [] then s else trim_ws encs (drop n s))"
  by pat_completeness auto
termination
  by (relation "measure (\<lambda>(e, s). length s)") auto

declare trim_ws.simps [simp del]

text \<open>\<open>str::trim\<close>: leading and trailing white space removed.\<close>

definition str_trim :: "string \<Rightarrow> string" where
  "str_trim s = rev (trim_ws (map rev ws_encodings) (rev (trim_ws ws_encodings s)))"

definition is_sep :: "char \<Rightarrow> bool" where
  "is_sep c = (c = CHR ''/'' \<or> c = CHR 0x5C)"

text \<open>\<open>rsplit(['/', '\\']).next()\<close>: what follows the last separator of either platform.\<close>

definition final_component :: "string \<Rightarrow> string" where
  "final_component s = rev (takeWhile (\<lambda>c. \<not> is_sep c) (rev s))"

definition sanitize_output_name :: "string \<Rightarrow> string option" where
  "sanitize_output_name name =
     (let trimmed = str_trim name in
      if trimmed = [] then None
      else let last_part = final_component trimmed in
        if validate_relative_path last_part = Inr () then Some last_part else None)"

section \<open>Lemmas\<close>

text \<open>What an accepted component looks like.\<close>

definition safe_name :: "string \<Rightarrow> bool" where
  "safe_name n \<longleftrightarrow> n \<noteq> [] \<and> n \<noteq> ''.'' \<and> n \<noteq> ''..'' \<and> CHR ''/'' \<notin> set n \<and> CHR 0x5C \<notin> set n \<and> CHR '':'' \<notin> set n
     \<and> last n \<noteq> CHR ''.'' \<and> last n \<noteq> CHR '' '' \<and> \<not> is_windows_reserved_device n"

definition real_pieces :: "string \<Rightarrow> string list" where
  "real_pieces s = filter (\<lambda>p. p \<noteq> [] \<and> p \<noteq> ''.'') (split_on CHR ''/'' s)"

lemma check_components_Inr:
  "check_components cs n = Inr m \<Longrightarrow>
    (\<forall>c \<in> set cs. \<exists>p. c = Normal p \<and> CHR '':'' \<notin> set p \<and> \<not> is_windows_reserved_device p
       \<and> (p \<noteq> [] \<longrightarrow> last p \<noteq> CHR ''.'' \<and> last p \<noteq> CHR '' '')) \<and> m = n + length cs"
  by (induction cs n rule: check_components.induct) (auto split: if_splits)

lemma set_split_on: "p \<in> set (split_on c s) \<Longrightarrow> set p \<subseteq> set s"
  by (induction s arbitrary: p) (fastforce split: list.splits if_splits)+

lemma validated_pieces:
  assumes "validate_relative_path s = Inr ()"
  shows "real_pieces s \<noteq> []" "\<And>p. p \<in> set (real_pieces s) \<Longrightarrow> safe_name p"
proof -
  from assms obtain n where n: "check_components (path_components s) 0 = Inr n" "n \<noteq> 0"
    and bs: "CHR 0x5C \<notin> set s" "s \<noteq> []"
    by (auto simp: validate_relative_path_def split: if_splits sum.splits)
  note ok = check_components_Inr [OF n(1)]
  have pc: "path_components s = map (\<lambda>p. if p = ''..'' then ParentDir else Normal p) (real_pieces s)"
    using ok by (auto simp: path_components_def Let_def real_pieces_def split: if_splits)
  show "real_pieces s \<noteq> []" using n(2) ok pc by auto
  fix p assume p: "p \<in> set (real_pieces s)"
  then have "p \<in> set (split_on CHR ''/'' s)" and ne: "p \<noteq> []" "p \<noteq> ''.''"
    by (auto simp: real_pieces_def)
  then have "CHR ''/'' \<notin> set p" "CHR 0x5C \<notin> set p"
    using split_on_no_sep set_split_on bs(1) by blast+
  moreover have "(if p = ''..'' then ParentDir else Normal p) \<in> set (path_components s)"
    using p pc by auto
  ultimately show "safe_name p"
    using ok ne by (auto simp: safe_name_def split: if_splits)
qed

lemma foldl_push_safe:
  "(\<And>p. p \<in> set ps \<Longrightarrow> p \<noteq> ''..'') \<Longrightarrow>
   foldl push_comp d ps = d @ filter (\<lambda>p. p \<noteq> [] \<and> p \<noteq> ''.'') ps"
  by (induction ps arbitrary: d) (auto simp: push_comp_def)

lemma join_relative_validated:
  assumes "validate_relative_path s = Inr ()"
  shows "join_relative d s = d @ real_pieces s"
proof -
  have "p \<noteq> ''..''" if "p \<in> set (split_on CHR ''/'' s)" for p
  proof
    assume "p = ''..''"
    with that have "p \<in> set (real_pieces s)" by (auto simp: real_pieces_def)
    with validated_pieces(2) [OF assms] \<open>p = ''..''\<close> show False by (auto simp: safe_name_def)
  qed
  then show ?thesis by (simp add: join_relative_def real_pieces_def foldl_push_safe)
qed

lemma split_on_single: "c \<notin> set s \<Longrightarrow> split_on c s = [s]"
  by (induction s) auto

section \<open>Properties\<close>

text \<open>
  C9. Path safety: a path \<open>validate_relative_path\<close> accepts, joined piece by piece onto any output
  directory as the exporters do, is that directory followed by at least one name, and no name is
  empty, \<open>.\<close>, \<open>..\<close>, contains a separator of either platform or a colon, ends in a dot or a space,
  or is a reserved device name. So the destination is strictly below the output directory.
\<close>

theorem validated_path_stays_below:
  assumes "validate_relative_path rel = Inr ()"
  shows "\<exists>names. join_relative out_dir rel = out_dir @ names \<and> names \<noteq> [] \<and> list_all safe_name names"
  using validated_pieces [OF assms] join_relative_validated [OF assms]
  by (auto simp: list_all_iff)

theorem validated_path_stays_below_witness:
  "\<exists>names. join_relative [''out''] ''dir/file.txt'' = [''out''] @ names \<and> names \<noteq> [] \<and> list_all safe_name names"
  by (rule validated_path_stays_below) code_simp

lemma check_components_bad:
  assumes "c \<in> set cs" and "\<And>n rest. \<exists>e. check_components (c # rest) n = Inl e"
  shows "\<exists>e. check_components cs n = Inl e"
  using assms(1)
proof (induction cs arbitrary: n)
  case (Cons d cs)
  show ?case
  proof (cases "d = c")
    case True
    then show ?thesis using assms(2) by simp
  next
    case False
    with Cons obtain e where "check_components cs (n + 1) = Inl e" by auto
    then show ?thesis by (cases d) auto
  qed
qed simp

lemma validate_bad_component:
  assumes "c \<in> set (path_components s)" and "\<And>n rest. \<exists>e. check_components (c # rest) n = Inl e"
  shows "validate_relative_path s \<noteq> Inr ()"
  using check_components_bad [OF assms, of 0] by (auto simp: validate_relative_path_def)

definition escapes :: "string \<Rightarrow> bool" where
  "escapes piece \<longleftrightarrow> piece = ''..'' \<or> CHR '':'' \<in> set piece
     \<or> piece \<notin> {[], ''.''} \<and> (last piece \<in> {CHR ''.'', CHR '' ''} \<or> is_windows_reserved_device piece)"

text \<open>
  Every escape the path module lists is refused with its own error: an empty path, a
  backslash anywhere, an absolute path, a leading \<open>.\<close>, any \<open>..\<close> piece, a colon in a piece, a piece
  that ends in a dot or a space, and a path without a real piece.
\<close>

theorem unsafe_paths_rejected:
  "validate_relative_path [] = Inl EmptyPath \<and> validate_relative_path (p @ CHR 0x5C # q) = Inl HasBackslash
   \<and> validate_relative_path (CHR ''/'' # s) \<noteq> Inr ()
   \<and> (list_ex escapes (split_on CHR ''/'' s) \<longrightarrow> validate_relative_path s \<noteq> Inr ())"
proof (intro conjI impI)
  show "validate_relative_path (CHR ''/'' # s) \<noteq> Inr ()"
    by (rule validate_bad_component [of RootDir]) (simp_all add: path_components_def)
  assume "list_ex escapes (split_on CHR ''/'' s)"
  then obtain piece where piece: "piece \<in> set (split_on CHR ''/'' s)" and bad: "escapes piece"
    by (auto simp: list_ex_iff)
  show "validate_relative_path s \<noteq> Inr ()"
  proof
    assume "validate_relative_path s = Inr ()"
    moreover have "piece \<in> set (real_pieces s)"
      using piece bad by (auto simp: real_pieces_def escapes_def)
    ultimately have "safe_name piece" by (rule validated_pieces(2))
    with bad show False by (auto simp: safe_name_def escapes_def)
  qed
qed (simp_all add: validate_relative_path_def)

theorem unsafe_paths_rejected_witness:
  "validate_relative_path ''a/../b'' \<noteq> Inr () \<and> validate_relative_path ''file.exe:evil'' \<noteq> Inr ()
   \<and> validate_relative_path ''x/NUL.txt'' \<noteq> Inr ()"
proof -
  have "list_ex escapes (split_on CHR ''/'' ''a/../b'')" "list_ex escapes (split_on CHR ''/'' ''file.exe:evil'')"
    "list_ex escapes (split_on CHR ''/'' ''x/NUL.txt'')"
    by code_simp+
  then show ?thesis using unsafe_paths_rejected by metis
qed

text \<open>
  A name that \<open>sanitize_output_name\<close> returns is a single safe component: writing to it under any
  directory creates exactly that entry of the directory.
\<close>

theorem sanitize_output_name_safe:
  assumes "sanitize_output_name name = Some n"
  shows "safe_name n \<and> join_relative d n = d @ [n]"
proof -
  from assms have n: "n = final_component (str_trim name)" and v: "validate_relative_path n = Inr ()"
    by (auto simp: sanitize_output_name_def Let_def split: if_splits)
  have sep: "\<not> is_sep c" if "c \<in> set n" for c
    using that by (auto simp: n final_component_def dest: set_takeWhileD)
  then have one: "split_on CHR ''/'' n = [n]"
    by (intro split_on_single) (auto simp: is_sep_def)
  have "real_pieces n = [n]"
    using validated_pieces(1) [OF v] by (simp add: real_pieces_def one split: if_splits)
  then show ?thesis
    using validated_pieces(2) [OF v, of n] join_relative_validated [OF v, of d] by simp
qed

theorem sanitize_output_name_safe_witness:
  "safe_name ''escape'' \<and> join_relative [''out''] ''escape'' = [''out''] @ [''escape'']"
  by (rule sanitize_output_name_safe [of "''../escape''"]) code_simp

end
