(* ===== verification/Store.thy ===== *)
theory Store
  imports Manifests Paths
begin

text \<open>
  The content-addressed chunk store of \<open>crates/np2ptp-store/src/lib.rs\<close>: pack files with a text
  index, the legacy one-file-per-chunk layout, and \<open>refs.tsv\<close> for chunks referenced in place. A
  \<open>store\<close> is one handle, with the maps and read cursors it keeps in memory; the directory it shares
  with other handles is the file system. Every operation returns its result with the handle and the
  file system as they are afterwards, on the error branches too. A \<open>PathBuf\<close> is the location it
  resolves to; the progress callbacks are returned as the list of calls made. The locks of the
  handle order the operations of one handle; sibling handles are interleaved in
  \<open>Store_Siblings\<close>.
\<close>

section \<open>Data\<close>

type_synonym pack_loc = "u32 \<times> u64 \<times> u32"

type_synonym ref_loc = "path \<times> u64 \<times> u32"

definition PACK_ROTATE_SIZE :: u64 where "PACK_ROTATE_SIZE = 256 * 1024 * 1024"

definition WRITE_GUARD_NAME :: string where "WRITE_GUARD_NAME = ''.write-lock''"

datatype store_error = Io io_error | Manifest manifest_error | Missing hash | Corrupt hash | UnsafePath string

record pack_state =
  current_id :: u32
  current_file :: path
  current_size :: u64

record store =
  st_objects :: path
  st_refs_path :: path
  st_refs :: "(hash, ref_loc) hmap"
  st_packs_dir :: path
  st_pack_index_path :: path
  st_pack_index :: "(hash, pack_loc) hmap"
  st_pack_index_pos :: u64
  st_refs_pos :: u64
  st_pack_state :: pack_state

section \<open>Index lines\<close>

text \<open>A path as text, \<open>to_string_lossy\<close>, and back, \<open>PathBuf::from\<close>.\<close>

definition path_text :: "path \<Rightarrow> string" where
  "path_text p = from_utf8_lossy (str_bytes (concat (map (\<lambda>n. CHR ''/'' # n) p)))"

definition text_path :: "string \<Rightarrow> path" where
  "text_path s = filter (\<lambda>n. n \<noteq> [] \<and> n \<noteq> ''.'') (split_on CHR ''/'' s)"

definition pack_index_line :: "crates \<Rightarrow> hash \<Rightarrow> u32 \<Rightarrow> u64 \<Rightarrow> u32 \<Rightarrow> string" where
  "pack_index_line X h pack_id offset len =
     to_hex X h @ [TAB] @ show_nat (unat pack_id) @ [TAB] @ show_nat (unat offset) @ [TAB] @ show_nat (unat len)"

definition ref_line :: "crates \<Rightarrow> hash \<Rightarrow> path \<Rightarrow> u64 \<Rightarrow> u32 \<Rightarrow> string" where
  "ref_line X h source offset len =
     to_hex X h @ [TAB] @ show_nat (unat offset) @ [TAB] @ show_nat (unat len) @ [TAB] @ path_text source"

definition parse_ref_line :: "crates \<Rightarrow> string \<Rightarrow> (hash \<times> ref_loc) option" where
  "parse_ref_line X line =
     (case splitn 4 TAB line of
        [hsh, offset, len, path] \<Rightarrow>
          (case (from_hex X hsh, parse_u64 offset, parse_u32 len) of
             (Inr h, Some off, Some n) \<Rightarrow> Some (h, (text_path path, off, n)) | _ \<Rightarrow> None)
      | _ \<Rightarrow> None)"

definition parse_pack_index_line :: "crates \<Rightarrow> string \<Rightarrow> (hash \<times> pack_loc) option" where
  "parse_pack_index_line X line =
     (case splitn 4 TAB line of
        [hsh, pack_id, offset, len] \<Rightarrow>
          (case (from_hex X hsh, parse_u32 pack_id, parse_u64 offset, parse_u32 len) of
             (Inr h, Some pid, Some off, Some n) \<Rightarrow> Some (h, (pid, off, n)) | _ \<Rightarrow> None)
      | _ \<Rightarrow> None)"

definition insert_lines :: "(string \<Rightarrow> ('k \<times> 'v) option) \<Rightarrow> ('k, 'v) hmap \<Rightarrow> string list \<Rightarrow> ('k, 'v) hmap" where
  "insert_lines parse m ls = foldl (\<lambda>m line. case parse line of None \<Rightarrow> m | Some (k, v) \<Rightarrow> hm_insert k v m) m ls"

section \<open>Opening\<close>

definition acquire_write_guard :: "fs \<Rightarrow> path \<Rightarrow> io_error + fs" where
  "acquire_write_guard f p = fs_create_append f p"

definition truncate_partial_line_locked :: "fs \<Rightarrow> path \<Rightarrow> io_error + fs" where
  "truncate_partial_line_locked f p =
     (case fs_read_to_string f p of
        Inl NotFound \<Rightarrow> Inr f
      | Inl e \<Rightarrow> Inl e
      | Inr text \<Rightarrow>
          if text = [] \<or> last text = NL then Inr f
          else let kept = (case rfind_nl text of Some pos \<Rightarrow> take (Suc pos) text | None \<Rightarrow> []) in
            fs_write f p (str_bytes kept))"

definition load_pack_index :: "crates \<Rightarrow> fs \<Rightarrow> path \<Rightarrow> store_error + (hash, pack_loc) hmap \<times> u64" where
  "load_pack_index X f p =
     (case fs_read_to_string f p of
        Inl NotFound \<Rightarrow> Inr ([], 0)
      | Inl e \<Rightarrow> Inl (Io e)
      | Inr text \<Rightarrow> Inr (insert_lines (parse_pack_index_line X) [] (str_lines text), of_nat (length text)))"

definition load_refs :: "crates \<Rightarrow> fs \<Rightarrow> path \<Rightarrow> store_error + (hash, ref_loc) hmap \<times> u64" where
  "load_refs X f p =
     (case fs_read_to_string f p of
        Inl NotFound \<Rightarrow> Inr ([], 0)
      | Inl e \<Rightarrow> Inl (Io e)
      | Inr text \<Rightarrow> Inr (insert_lines (parse_ref_line X) [] (str_lines text), of_nat (length text)))"

definition pack_name :: "u32 \<Rightarrow> string" where
  "pack_name pid = show_nat (unat pid) @ ''.pack''"

definition pack_file_id :: "string \<Rightarrow> u32 option" where
  "pack_file_id name = (case strip_suffix ''.pack'' name of None \<Rightarrow> None | Some stem \<Rightarrow> parse_u32 stem)"

fun max_pack_id :: "(string \<times> bool) list \<Rightarrow> u32 option \<Rightarrow> u32 option" where
  "max_pack_id [] max_id = max_id"
| "max_pack_id ((name, _) # rest) max_id =
     max_pack_id rest (case pack_file_id name of
        None \<Rightarrow> max_id
      | Some pid \<Rightarrow> Some (case max_id of None \<Rightarrow> pid | Some m \<Rightarrow> max m pid))"

definition pack_open :: "fs \<Rightarrow> path \<Rightarrow> io_error + pack_state \<times> fs" where
  "pack_open f packs_dir =
     (case fs_read_dir f packs_dir of
        Inl e \<Rightarrow> Inl e
      | Inr entries \<Rightarrow>
          let pid = (case max_pack_id entries None of None \<Rightarrow> 0 | Some m \<Rightarrow> m);
              p = packs_dir @ [pack_name pid]
          in case fs_create_append f p of
            Inl e \<Rightarrow> Inl e
          | Inr f' \<Rightarrow> (case fs_len f' p of
              Inl e \<Rightarrow> Inl e
            | Inr n \<Rightarrow> Inr (\<lparr>current_id = pid, current_file = p, current_size = of_nat n\<rparr>, f')))"

text \<open>The calls of \<open>Store::open\<close> in order; the first failure returns, with the changes made so far.\<close>

definition open_dirs :: "fs \<Rightarrow> path \<Rightarrow> (io_error + unit) \<times> fs" where
  "open_dirs f dir =
     (case fs_create_dir_all f (dir @ [''objects'']) of
        Inl e \<Rightarrow> (Inl e, f)
      | Inr f1 \<Rightarrow> (case fs_create_dir_all f1 (dir @ [''packs'']) of Inl e \<Rightarrow> (Inl e, f1) | Inr f2 \<Rightarrow> (Inr (), f2)))"

definition open_trim :: "fs \<Rightarrow> path \<Rightarrow> (io_error + unit) \<times> fs" where
  "open_trim f dir =
     (case acquire_write_guard f (dir @ [''packs'', WRITE_GUARD_NAME]) of
        Inl e \<Rightarrow> (Inl e, f)
      | Inr f1 \<Rightarrow> (case truncate_partial_line_locked f1 (dir @ [''packs'', ''index'']) of
          Inl e \<Rightarrow> (Inl e, f1)
        | Inr f2 \<Rightarrow> (case truncate_partial_line_locked f2 (dir @ [''refs.tsv'']) of
            Inl e \<Rightarrow> (Inl e, f2)
          | Inr f3 \<Rightarrow> (Inr (), f3))))"

definition store_open :: "crates \<Rightarrow> fs \<Rightarrow> path \<Rightarrow> (store_error + store) \<times> fs" where
  "store_open X f dir =
     (case open_dirs f dir of
        (Inl e, f1) \<Rightarrow> (Inl (Io e), f1)
      | (Inr _, f1) \<Rightarrow> (case open_trim f1 dir of
          (Inl e, f2) \<Rightarrow> (Inl (Io e), f2)
        | (Inr _, f2) \<Rightarrow> (case load_pack_index X f2 (dir @ [''packs'', ''index'']) of
            Inl e \<Rightarrow> (Inl e, f2)
          | Inr (pack_index, pack_index_pos) \<Rightarrow> (case load_refs X f2 (dir @ [''refs.tsv'']) of
              Inl e \<Rightarrow> (Inl e, f2)
            | Inr (refs, refs_pos) \<Rightarrow> (case pack_open f2 (dir @ [''packs'']) of
                Inl e \<Rightarrow> (Inl (Io e), f2)
              | Inr (ps, f3) \<Rightarrow>
                  (Inr \<lparr>st_objects = dir @ [''objects''], st_refs_path = dir @ [''refs.tsv''], st_refs = refs,
                        st_packs_dir = dir @ [''packs''], st_pack_index_path = dir @ [''packs'', ''index''],
                        st_pack_index = pack_index, st_pack_index_pos = pack_index_pos,
                        st_refs_pos = refs_pos, st_pack_state = ps\<rparr>, f3))))))"

definition store_root :: "store \<Rightarrow> path" where
  "store_root st = butlast (st_objects st)"

section \<open>Lookup\<close>

definition path_for :: "crates \<Rightarrow> store \<Rightarrow> hash \<Rightarrow> path" where
  "path_for X st h = (let hex = to_hex X h in st_objects st @ [take 2 hex, hex])"

text \<open>
  The two refreshes read the complete lines behind the cursor into the map. \<open>tail_lines\<close> is what
  they share: the complete part of the unread tail, if there is any.
\<close>

definition tail_lines :: "fs \<Rightarrow> path \<Rightarrow> u64 \<Rightarrow> io_error + string option" where
  "tail_lines f p pos =
     (case fs_read f p of
        Inl NotFound \<Rightarrow> Inr None
      | Inl e \<Rightarrow> Inl e
      | Inr content \<Rightarrow>
          if length content \<le> unat pos then Inr None
          else case from_utf8 (drop (unat pos) content) of
            None \<Rightarrow> Inl InvalidData
          | Some tail \<Rightarrow> (case rfind_nl tail of None \<Rightarrow> Inr None | Some last_nl \<Rightarrow> Inr (Some (take (Suc last_nl) tail))))"

definition refresh_pack_index :: "crates \<Rightarrow> store \<Rightarrow> fs \<Rightarrow> (store_error + unit) \<times> store" where
  "refresh_pack_index X st f =
     (case tail_lines f (st_pack_index_path st) (st_pack_index_pos st) of
        Inl e \<Rightarrow> (Inl (Io e), st)
      | Inr None \<Rightarrow> (Inr (), st)
      | Inr (Some complete) \<Rightarrow>
          (Inr (), st\<lparr>st_pack_index := insert_lines (parse_pack_index_line X) (st_pack_index st) (str_lines complete),
                     st_pack_index_pos := st_pack_index_pos st + of_nat (length complete)\<rparr>))"

definition refresh_refs :: "crates \<Rightarrow> store \<Rightarrow> fs \<Rightarrow> (store_error + unit) \<times> store" where
  "refresh_refs X st f =
     (case tail_lines f (st_refs_path st) (st_refs_pos st) of
        Inl e \<Rightarrow> (Inl (Io e), st)
      | Inr None \<Rightarrow> (Inr (), st)
      | Inr (Some complete) \<Rightarrow>
          (Inr (), st\<lparr>st_refs := insert_lines (parse_ref_line X) (st_refs st) (str_lines complete),
                     st_refs_pos := st_refs_pos st + of_nat (length complete)\<rparr>))"

definition present :: "crates \<Rightarrow> store \<Rightarrow> fs \<Rightarrow> hash \<Rightarrow> bool" where
  "present X st f h =
     (hm_contains (st_pack_index st) h \<or> fs_exists f (path_for X st h) \<or> hm_contains (st_refs st) h)"

definition has :: "crates \<Rightarrow> store \<Rightarrow> fs \<Rightarrow> hash \<Rightarrow> bool \<times> store" where
  "has X st f h =
     (if present X st f h then (True, st)
      else let st' = snd (refresh_pack_index X st f) in (hm_contains (st_pack_index st') h, st'))"

definition read_from_pack :: "store \<Rightarrow> fs \<Rightarrow> u32 \<Rightarrow> u64 \<Rightarrow> u32 \<Rightarrow> store_error + bytes" where
  "read_from_pack st f pack_id offset len =
     (case fs_read f (st_packs_dir st @ [pack_name pack_id]) of
        Inl e \<Rightarrow> Inl (Io e)
      | Inr content \<Rightarrow> (case read_exact_at content (unat offset) (unat len) of Inl e \<Rightarrow> Inl (Io e) | Inr b \<Rightarrow> Inr b))"

definition get_from_pack_index :: "crates \<Rightarrow> store \<Rightarrow> fs \<Rightarrow> hash \<Rightarrow> store_error + bytes option" where
  "get_from_pack_index X st f h =
     (case hm_get (st_pack_index st) h of
        None \<Rightarrow> Inr None
      | Some (pack_id, offset, len) \<Rightarrow> (case read_from_pack st f pack_id offset len of
          Inl e \<Rightarrow> Inl e
        | Inr b \<Rightarrow> if hash_of (blake3 X) b \<noteq> h then Inl (Corrupt h) else Inr (Some b)))"

definition get_reference :: "crates \<Rightarrow> store \<Rightarrow> fs \<Rightarrow> hash \<Rightarrow> store_error + bytes option" where
  "get_reference X st f h =
     (case hm_get (st_refs st) h of
        None \<Rightarrow> Inr None
      | Some (p, offset, len) \<Rightarrow> (case fs_read f p of
          Inl NotFound \<Rightarrow> Inr None
        | Inl e \<Rightarrow> Inl (Io e)
        | Inr content \<Rightarrow> (case read_exact_at content (unat offset) (unat len) of
            Inl e \<Rightarrow> Inl (Io e)
          | Inr b \<Rightarrow> if hash_of (blake3 X) b \<noteq> h then Inl (Corrupt h) else Inr (Some b))))"

definition get_object :: "crates \<Rightarrow> store \<Rightarrow> fs \<Rightarrow> hash \<Rightarrow> store_error + bytes option" where
  "get_object X st f h =
     (case fs_read f (path_for X st h) of
        Inr b \<Rightarrow> if hash_of (blake3 X) b \<noteq> h then Inl (Corrupt h) else Inr (Some b)
      | Inl NotFound \<Rightarrow> Inr None
      | Inl e \<Rightarrow> Inl (Io e))"

definition get :: "crates \<Rightarrow> store \<Rightarrow> fs \<Rightarrow> hash \<Rightarrow> (store_error + bytes option) \<times> store" where
  "get X st f h =
     (case get_from_pack_index X st f h of
        Inl e \<Rightarrow> (Inl e, st)
      | Inr (Some b) \<Rightarrow> (Inr (Some b), st)
      | Inr None \<Rightarrow> (case get_object X st f h of
          Inl e \<Rightarrow> (Inl e, st)
        | Inr (Some b) \<Rightarrow> (Inr (Some b), st)
        | Inr None \<Rightarrow> (case get_reference X st f h of
            Inl e \<Rightarrow> (Inl e, st)
          | Inr (Some b) \<Rightarrow> (Inr (Some b), st)
          | Inr None \<Rightarrow> (case refresh_pack_index X st f of
              (Inl e, st') \<Rightarrow> (Inl e, st')
            | (Inr _, st') \<Rightarrow> (get_from_pack_index X st' f h, st')))))"

section \<open>Writing\<close>

text \<open>A write through the open append handle lands at the end of the file as it is now.\<close>

definition handle_append :: "fs \<Rightarrow> path \<Rightarrow> bytes \<Rightarrow> io_error + fs" where
  "handle_append f p b =
     (if fs_denied f p then Inl PermissionDenied
      else Inr (f\<lparr>fs_files := hm_insert p (file_content f p @ b) (fs_files f)\<rparr>))"

text \<open>Rotation: the id advances before the new file is opened, so it stays advanced when that fails.\<close>

definition pack_rotate :: "pack_state \<Rightarrow> fs \<Rightarrow> path \<Rightarrow> (io_error + unit) \<times> pack_state \<times> fs" where
  "pack_rotate ps f packs_dir =
     (if current_size ps \<ge> PACK_ROTATE_SIZE then
        let pid = current_id ps + 1; p = packs_dir @ [pack_name pid] in
        case fs_create_append f p of
          Inl e \<Rightarrow> (Inl e, ps\<lparr>current_id := pid\<rparr>, f)
        | Inr f' \<Rightarrow> (Inr (), \<lparr>current_id = pid, current_file = p, current_size = 0\<rparr>, f')
      else (Inr (), ps, f))"

definition pack_write :: "pack_state \<Rightarrow> fs \<Rightarrow> path \<Rightarrow> bytes \<Rightarrow> (io_error + u32 \<times> u64) \<times> pack_state \<times> fs" where
  "pack_write ps f packs_dir b =
     (case pack_rotate ps f packs_dir of
        (Inl e, ps1, f1) \<Rightarrow> (Inl e, ps1, f1)
      | (Inr _, ps1, f1) \<Rightarrow> (case acquire_write_guard f1 (packs_dir @ [WRITE_GUARD_NAME]) of
          Inl e \<Rightarrow> (Inl e, ps1, f1)
        | Inr f2 \<Rightarrow>
            let offset = of_nat (length (file_content f2 (current_file ps1))) in
            case handle_append f2 (current_file ps1) b of
              Inl e \<Rightarrow> (Inl e, ps1, f2)
            | Inr f3 \<Rightarrow> (Inr (current_id ps1, offset), ps1\<lparr>current_size := offset + of_nat (length b)\<rparr>, f3)))"

definition append_pack_index_line :: "crates \<Rightarrow> fs \<Rightarrow> path \<Rightarrow> hash \<Rightarrow> u32 \<Rightarrow> u64 \<Rightarrow> u32 \<Rightarrow> io_error + u64 \<times> fs" where
  "append_pack_index_line X f p h pack_id offset len =
     (let line = pack_index_line X h pack_id offset len @ [NL] in
      case fs_append f p (str_bytes line) of Inl e \<Rightarrow> Inl e | Inr f' \<Rightarrow> Inr (of_nat (length line), f'))"

definition add_reference :: "crates \<Rightarrow> store \<Rightarrow> fs \<Rightarrow> hash \<Rightarrow> path \<Rightarrow> u64 \<Rightarrow> u32 \<Rightarrow> (io_error + unit) \<times> store \<times> fs" where
  "add_reference X st f h source offset len =
     (case fs_append f (st_refs_path st) (str_bytes (ref_line X h source offset len @ [NL])) of
        Inl e \<Rightarrow> (Inl e, st, f)
      | Inr f' \<Rightarrow> (Inr (), st\<lparr>st_refs := hm_insert h (source, offset, len) (st_refs st)\<rparr>, f'))"

text \<open>The part of \<open>put\<close> behind the dedup check: pack bytes, index line, in-memory entry, cursor.\<close>

definition put_new :: "crates \<Rightarrow> store \<Rightarrow> fs \<Rightarrow> hash \<Rightarrow> bytes \<Rightarrow> (store_error + hash \<times> bool) \<times> store \<times> fs" where
  "put_new X st f h b =
     (case pack_write (st_pack_state st) f (st_packs_dir st) b of
        (Inl e, ps, f1) \<Rightarrow> (Inl (Io e), st\<lparr>st_pack_state := ps\<rparr>, f1)
      | (Inr (pack_id, offset), ps, f1) \<Rightarrow>
          let len = of_nat (length b); st1 = st\<lparr>st_pack_state := ps\<rparr> in
          case append_pack_index_line X f1 (st_pack_index_path st) h pack_id offset len of
            Inl e \<Rightarrow> (Inl (Io e), st1, f1)
          | Inr (written, f2) \<Rightarrow>
              (Inr (h, True),
               st1\<lparr>st_pack_index := hm_insert h (pack_id, offset, len) (st_pack_index st1),
                   st_pack_index_pos := st_pack_index_pos st1 + written\<rparr>, f2))"

definition put :: "crates \<Rightarrow> store \<Rightarrow> fs \<Rightarrow> bytes \<Rightarrow> (store_error + hash \<times> bool) \<times> store \<times> fs" where
  "put X st f b =
     (let h = hash_of (blake3 X) b in
      case has X st f h of
        (True, st1) \<Rightarrow> (Inr (h, False), st1, f)
      | (False, st1) \<Rightarrow>
          let st2 = snd (refresh_pack_index X st1 f); st3 = snd (refresh_refs X st2 f) in
          if present X st3 f h then (Inr (h, False), st3, f) else put_new X st3 f h b)"

fun count_objects :: "fs \<Rightarrow> path \<Rightarrow> (string \<times> bool) list \<Rightarrow> nat \<Rightarrow> store_error + nat" where
  "count_objects f objects [] count = Inr count"
| "count_objects f objects ((name, is_dir) # shards) count =
     (if is_dir then
        case fs_read_dir f (objects @ [name]) of
          Inl e \<Rightarrow> Inl (Io e)
        | Inr entries \<Rightarrow>
            count_objects f objects shards (count + length (filter (\<lambda>(n, _). \<not> str_contains ''.tmp.'' n) entries))
      else count_objects f objects shards count)"

definition object_count :: "crates \<Rightarrow> store \<Rightarrow> fs \<Rightarrow> (store_error + nat) \<times> store" where
  "object_count X st f =
     (case refresh_pack_index X st f of
        (Inl e, st') \<Rightarrow> (Inl e, st')
      | (Inr _, st') \<Rightarrow> (case fs_read_dir f (st_objects st) of
          Inl e \<Rightarrow> (Inl (Io e), st')
        | Inr shards \<Rightarrow> (count_objects f (st_objects st) shards (length (st_pack_index st')), st')))"

section \<open>Sidecar files\<close>

definition lines_text :: "string list \<Rightarrow> string" where
  "lines_text ls = concat (map (\<lambda>l. l @ [NL]) ls)"

definition tidy :: "string \<Rightarrow> bool" where
  "tidy l \<longleftrightarrow> ascii l \<and> NL \<notin> set l \<and> CR \<notin> set l"

text \<open>An append-only text file that holds exactly these lines; absent is as good as empty.\<close>

definition sidecar :: "fs \<Rightarrow> path \<Rightarrow> string list \<Rightarrow> bool" where
  "sidecar f p ls \<longleftrightarrow> list_all tidy ls \<and> \<not> fs_denied f p \<and> p \<notin> set (fs_dirs f)
     \<and> (case hm_get (fs_files f) p of None \<Rightarrow> ls = [] | Some c \<Rightarrow> c = str_bytes (lines_text ls))"

lemma lines_text_simps [simp]: "lines_text [] = []" "lines_text (ls @ ls') = lines_text ls @ lines_text ls'"
    "lines_text (l # ls) = l @ NL # lines_text ls"
  by (simp_all add: lines_text_def)

lemma str_lines_lines_text: "list_all tidy ls \<Longrightarrow> str_lines (lines_text ls) = ls"
  unfolding lines_text_def by (rule str_lines_terminated) (auto simp: list_all_iff tidy_def)

lemma ascii_lines_text: "list_all tidy ls \<Longrightarrow> ascii (lines_text ls)"
  by (induction ls) (auto simp: tidy_def NL_def)

lemma lines_text_eq_Nil [simp]: "lines_text ls = [] \<longleftrightarrow> ls = []"
  by (cases ls) auto

lemma rfind_nl_lines_text: "ls \<noteq> [] \<Longrightarrow> rfind_nl (lines_text ls) = Some (length (lines_text ls) - 1)"
proof (induction ls rule: rev_induct)
  case (snoc l ls)
  have "rfind_nl ((lines_text ls @ l) @ NL # []) = Some (length (lines_text ls @ l))"
    by (rule rfind_nl_append) simp
  then show ?case by simp
qed simp

lemma insert_lines_append: "insert_lines P m (ls @ ls') = insert_lines P (insert_lines P m ls) ls'"
  by (simp add: insert_lines_def)

lemma insert_lines_view: "hm_get (insert_lines P m ls) = hm_get m ++ hm_get (insert_lines P [] ls)"
proof (induction ls rule: rev_induct)
  case Nil
  show ?case by (simp add: insert_lines_def fun_eq_iff map_add_def)
next
  case (snoc l ls)
  have step: "insert_lines P m' (ls @ [l]) = (case P l of None \<Rightarrow> insert_lines P m' ls | Some (k, v) \<Rightarrow> hm_insert k v (insert_lines P m' ls))"
    for m' unfolding insert_lines_def by simp
  show ?case
  proof (cases "P l")
    case None
    with snoc show ?thesis by (simp add: step)
  next
    case (Some kv)
    with snoc show ?thesis by (cases kv) (simp add: step fun_eq_iff map_add_def)
  qed
qed

lemma insert_lines_refold:
  "hm_get m = hm_get (insert_lines P [] (ls @ ls')) \<Longrightarrow> hm_get (insert_lines P m ls') = hm_get m"
  unfolding insert_lines_view [of P m] insert_lines_append insert_lines_view [of P "insert_lines P [] ls"]
  by (auto simp: fun_eq_iff map_add_def split: option.split)

lemma hm_wf_insert_lines: "hm_wf m \<Longrightarrow> hm_wf (insert_lines P m ls)"
  by (induction ls arbitrary: m) (auto simp: insert_lines_def split: option.splits)

lemma parse_pack_index_line_inverse:
  assumes "hex_ok X" and "wf_hash h"
  shows "parse_pack_index_line X (pack_index_line X h pid off len) = Some (h, (pid, off, len))"
proof -
  have "splitn 4 TAB (pack_index_line X h pid off len) = [to_hex X h, show_nat (unat pid), show_nat (unat off), show_nat (unat len)]"
    unfolding pack_index_line_def using to_hex_no [OF assms(1), of TAB h] show_nat_no [of TAB]
    by (simp add: splitn_4)
  then show ?thesis by (simp add: parse_pack_index_line_def from_hex_to_hex [OF assms])
qed

lemma tidy_pack_index_line: "hex_ok X \<Longrightarrow> tidy (pack_index_line X h pid off len)"
  using to_hex_no [of X NL h] to_hex_no [of X CR h] to_hex_ascii [of X h] show_nat_no
  by (auto simp: tidy_def pack_index_line_def TAB_def NL_def CR_def)

lemma tail_lines_sidecar:
  assumes "sidecar f p (ls @ ls')" and "unat pos = length (lines_text ls)"
  shows "tail_lines f p pos = Inr (if ls' = [] then None else Some (lines_text ls'))"
proof (cases "hm_get (fs_files f) p")
  case None
  with assms show ?thesis by (auto simp: sidecar_def tail_lines_def fs_read_def)
next
  case (Some c)
  with assms have c: "fs_read f p = Inr c" "c = str_bytes (lines_text (ls @ ls'))" and tidy: "list_all tidy ls'"
    by (auto simp: sidecar_def fs_read_def)
  then have "from_utf8 (drop (unat pos) c) = Some (lines_text ls')"
    using from_utf8_str_bytes [OF ascii_lines_text [OF tidy]] assms(2) by simp
  then show ?thesis
    using c assms(2) rfind_nl_lines_text [of ls'] by (auto simp: tail_lines_def)
qed

lemma fs_read_to_string_sidecar:
  "sidecar f p ls \<Longrightarrow> fs_read_to_string f p = (if hm_get (fs_files f) p = None then Inl NotFound else Inr (lines_text ls))"
  using from_utf8_str_bytes [of "lines_text ls"] ascii_lines_text [of ls]
  by (auto simp: fs_read_to_string_def fs_read_def sidecar_def split: option.splits)

lemma sidecar_append:
  assumes "sidecar f p ls" and "tidy l" and "fs_append f p (str_bytes (l @ [NL])) = Inr f'"
  shows "sidecar f' p (ls @ [l])"
  using assms fs_append_file [OF assms(3)]
  by (auto simp: sidecar_def file_content_def str_bytes_def split: option.splits)

section \<open>The invariant of a handle\<close>

text \<open>The open pack is the one its id names, unless a failed rotation left it behind, to rotate again.\<close>

definition pack_state_ok :: "path \<Rightarrow> pack_state \<Rightarrow> bool" where
  "pack_state_ok packs ps \<longleftrightarrow> current_file ps = packs @ [pack_name (current_id ps)] \<or> PACK_ROTATE_SIZE \<le> current_size ps"

text \<open>
  \<open>layout_of\<close>: the paths of a store rooted at \<open>dir\<close>. \<open>synced\<close>: the maps in memory say what the sidecars
  say, and the index cursor is at the end. \<open>packs_sound\<close>, \<open>objects_sound\<close>, \<open>refs_sound\<close>: every entry leads
  to bytes of its hash.
\<close>

definition layout_of :: "path \<Rightarrow> store \<Rightarrow> bool" where
  "layout_of dir st \<longleftrightarrow> st_objects st = dir @ [''objects''] \<and> st_refs_path st = dir @ [''refs.tsv'']
     \<and> st_packs_dir st = dir @ [''packs''] \<and> st_pack_index_path st = dir @ [''packs'', ''index'']
     \<and> pack_state_ok (dir @ [''packs'']) (st_pack_state st)"

definition reads_hash :: "crates \<Rightarrow> fs \<Rightarrow> path \<Rightarrow> u64 \<Rightarrow> u32 \<Rightarrow> hash \<Rightarrow> bool" where
  "reads_hash X f p off len h \<longleftrightarrow> (\<exists>c. fs_read f p = Inr c \<and> unat off + unat len \<le> length c
     \<and> hash_of (blake3 X) (slice c (unat off) (unat off + unat len)) = h)"

definition synced :: "crates \<Rightarrow> store \<Rightarrow> fs \<Rightarrow> bool" where
  "synced X st f \<longleftrightarrow>
     (\<exists>ls. sidecar f (st_pack_index_path st) ls \<and> unat (st_pack_index_pos st) = length (lines_text ls)
        \<and> hm_get (st_pack_index st) = hm_get (insert_lines (parse_pack_index_line X) [] ls))
     \<and> (\<exists>ls ls'. sidecar f (st_refs_path st) (ls @ ls') \<and> unat (st_refs_pos st) = length (lines_text ls)
        \<and> hm_get (st_refs st) = hm_get (insert_lines (parse_ref_line X) [] (ls @ ls')))"

definition packs_sound :: "crates \<Rightarrow> store \<Rightarrow> fs \<Rightarrow> bool" where
  "packs_sound X st f \<longleftrightarrow> (\<forall>h pid off len. hm_get (st_pack_index st) h = Some (pid, off, len) \<longrightarrow>
     reads_hash X f (st_packs_dir st @ [pack_name pid]) off len h)"

definition refs_sound :: "crates \<Rightarrow> store \<Rightarrow> fs \<Rightarrow> bool" where
  "refs_sound X st f \<longleftrightarrow> (\<forall>h p off len. hm_get (st_refs st) h = Some (p, off, len) \<longrightarrow> reads_hash X f p off len h)"

definition objects_sound :: "crates \<Rightarrow> store \<Rightarrow> fs \<Rightarrow> bool" where
  "objects_sound X st f \<longleftrightarrow> (\<forall>h. path_for X st h \<notin> set (fs_dirs f)
     \<and> (\<forall>b. hm_get (fs_files f) (path_for X st h) = Some b \<longrightarrow> hash_of (blake3 X) b = h))"

definition accessible :: "path \<Rightarrow> fs \<Rightarrow> bool" where
  "accessible dir f \<longleftrightarrow> (\<forall>p. \<not> fs_denied f (dir @ p)) \<and> (\<forall>pid. dir @ [''packs'', pack_name pid] \<notin> set (fs_dirs f))"

definition store_inv :: "crates \<Rightarrow> path \<Rightarrow> store \<Rightarrow> fs \<Rightarrow> bool" where
  "store_inv X dir st f \<longleftrightarrow> layout_of dir st \<and> accessible dir f \<and> synced X st f
     \<and> packs_sound X st f \<and> objects_sound X st f \<and> refs_sound X st f"

text \<open>What a handle answers, and the physical bound on file sizes.\<close>

definition holds :: "crates \<Rightarrow> store \<Rightarrow> fs \<Rightarrow> hash \<Rightarrow> bytes option" where
  "holds X st f h = (case fst (get X st f h) of Inr (Some b) \<Rightarrow> Some b | _ \<Rightarrow> None)"

definition fs_fits :: "fs \<Rightarrow> bool" where
  "fs_fits f \<longleftrightarrow> (\<forall>p. length (file_content f p) < 2 ^ 64)"

subsection \<open>Growing files\<close>

definition grows :: "fs \<Rightarrow> fs \<Rightarrow> bool" where
  "grows f f' \<longleftrightarrow> fs_dirs f' = fs_dirs f \<and> fs_denied f' = fs_denied f
     \<and> (\<forall>p c. hm_get (fs_files f) p = Some c \<longrightarrow> (\<exists>d. hm_get (fs_files f') p = Some (c @ d)))"

lemma grows_refl [simp]: "grows f f"
  by (simp add: grows_def)

lemma grows_trans: "grows f g \<Longrightarrow> grows g h \<Longrightarrow> grows f h"
  unfolding grows_def by (metis append.assoc)

lemma fs_append_grows: "fs_append f p b = Inr f' \<Longrightarrow> grows f f'"
  by (auto simp: grows_def fs_append_def fs_create_append_def file_content_def hm_contains_def
      split: option.splits if_splits)

lemma fs_create_append_grows: "fs_create_append f p = Inr f' \<Longrightarrow> grows f f'"
  by (auto simp: grows_def fs_create_append_def hm_contains_def split: option.splits if_splits)

lemma handle_append_file: "handle_append f p b = Inr f' \<Longrightarrow>
    hm_get (fs_files f') p = Some (file_content f p @ b) \<and> same_except {p} f f' \<and> grows f f'"
  by (auto simp: handle_append_def grows_def same_except_def file_content_def split: if_splits option.splits)

text \<open>All a reader of byte ranges sees of it: readable files stay readable and keep their bytes.\<close>

definition reads_grow :: "fs \<Rightarrow> fs \<Rightarrow> bool" where
  "reads_grow f f' \<longleftrightarrow> (\<forall>p c. fs_read f p = Inr c \<longrightarrow> (\<exists>d. fs_read f' p = Inr (c @ d)))"

lemma grows_reads: "grows f f' \<Longrightarrow> reads_grow f f'"
  by (fastforce simp: reads_grow_def grows_def fs_read_def split: if_splits option.splits)

lemma reads_hash_grows: "reads_grow f f' \<Longrightarrow> reads_hash X f p off len h \<Longrightarrow> reads_hash X f' p off len h"
proof -
  assume g: "reads_grow f f'" and "reads_hash X f p off len h"
  then obtain c where c: "fs_read f p = Inr c" "unat off + unat len \<le> length c"
    "hash_of (blake3 X) (slice c (unat off) (unat off + unat len)) = h" by (auto simp: reads_hash_def)
  obtain d where "fs_read f' p = Inr (c @ d)" using g c(1) by (auto simp: reads_grow_def)
  then show ?thesis using c by (auto simp: reads_hash_def slice_def)
qed

lemma reads_hash_read: "reads_hash X f p off len h \<Longrightarrow>
    \<exists>c b. fs_read f p = Inr c \<and> read_exact_at c (unat off) (unat len) = Inr b \<and> hash_of (blake3 X) b = h"
  by (auto simp: reads_hash_def read_exact_at_slice)

text \<open>Bytes already readable stay the same bytes.\<close>

lemma read_exact_grows:
  "reads_grow f f' \<Longrightarrow> fs_read f p = Inr c \<Longrightarrow> unat off + unat len \<le> length c \<Longrightarrow>
   \<exists>c'. fs_read f' p = Inr c' \<and> read_exact_at c' (unat off) (unat len) = read_exact_at c (unat off) (unat len)"
  using read_exact_at_append by (fastforce simp: reads_grow_def)

subsection \<open>Lookups under the invariant\<close>

lemma refresh_pack_index_synced: "synced X st f \<Longrightarrow> refresh_pack_index X st f = (Inr (), st)"
  using tail_lines_sidecar [of f "st_pack_index_path st" _ "[]" "st_pack_index_pos st"]
  by (auto simp: synced_def refresh_pack_index_def)

text \<open>Reading the references again changes nothing but the cursor.\<close>

definition same_view :: "store \<Rightarrow> store \<Rightarrow> bool" where
  "same_view st st' \<longleftrightarrow> st_objects st' = st_objects st \<and> st_refs_path st' = st_refs_path st
     \<and> st_packs_dir st' = st_packs_dir st \<and> st_pack_index_path st' = st_pack_index_path st
     \<and> st_pack_state st' = st_pack_state st \<and> st_pack_index_pos st' = st_pack_index_pos st
     \<and> hm_get (st_pack_index st') = hm_get (st_pack_index st) \<and> hm_get (st_refs st') = hm_get (st_refs st)"

lemma refresh_refs_synced:
  assumes "synced X st f" and "fs_fits f"
  shows "\<exists>st'. refresh_refs X st f = (Inr (), st') \<and> same_view st st' \<and> synced X st' f"
proof -
  obtain ls ls' where r: "sidecar f (st_refs_path st) (ls @ ls')" "unat (st_refs_pos st) = length (lines_text ls)"
    "hm_get (st_refs st) = hm_get (insert_lines (parse_ref_line X) [] (ls @ ls'))"
    and ix: "\<exists>is. sidecar f (st_pack_index_path st) is \<and> unat (st_pack_index_pos st) = length (lines_text is)
        \<and> hm_get (st_pack_index st) = hm_get (insert_lines (parse_pack_index_line X) [] is)"
    using assms(1) unfolding synced_def by blast
  have tail: "tail_lines f (st_refs_path st) (st_refs_pos st) = Inr (if ls' = [] then None else Some (lines_text ls'))"
    using r(1,2) by (rule tail_lines_sidecar)
  show ?thesis
  proof (cases "ls' = []")
    case True
    then show ?thesis using tail assms(1) by (simp add: refresh_refs_def same_view_def)
  next
    case False
    let ?st = "st\<lparr>st_refs := insert_lines (parse_ref_line X) (st_refs st) (str_lines (lines_text ls')),
        st_refs_pos := st_refs_pos st + of_nat (length (lines_text ls'))\<rparr>"
    have tidy: "list_all tidy ls'" using r(1) by (simp add: sidecar_def)
    have view: "hm_get (insert_lines (parse_ref_line X) (st_refs st) ls') = hm_get (st_refs st)"
      using r(3) by (rule insert_lines_refold)
    have "length (lines_text (ls @ ls')) < 2 ^ 64"
      using r(1) assms(2) False by (auto simp: sidecar_def fs_fits_def file_content_def split: option.splits
          dest!: spec [of _ "st_refs_path st"])
    then have pos: "unat (st_refs_pos st + of_nat (length (lines_text ls'))) = length (lines_text (ls @ ls'))"
      using r(2) by (simp add: unat_word_ariths unat_of_nat)
    have "synced X ?st f"
      unfolding synced_def
    proof
      show "\<exists>ls. sidecar f (st_pack_index_path ?st) ls \<and> unat (st_pack_index_pos ?st) = length (lines_text ls)
          \<and> hm_get (st_pack_index ?st) = hm_get (insert_lines (parse_pack_index_line X) [] ls)" using ix by simp
      show "\<exists>ls ls'. sidecar f (st_refs_path ?st) (ls @ ls') \<and> unat (st_refs_pos ?st) = length (lines_text ls)
          \<and> hm_get (st_refs ?st) = hm_get (insert_lines (parse_ref_line X) [] (ls @ ls'))"
        using r view pos by (intro exI [of _ "ls @ ls'"] exI [of _ "[]"]) (simp add: str_lines_lines_text [OF tidy])
    qed
    moreover have "same_view st ?st" using view by (simp add: same_view_def str_lines_lines_text [OF tidy])
    ultimately show ?thesis using tail False by (simp add: refresh_refs_def)
  qed
qed

lemma present_view: "same_view st st' \<Longrightarrow> present X st' f h = present X st f h"
  by (simp add: present_def same_view_def path_for_def hm_contains_def)

lemma path_for_view: "same_view st st' \<Longrightarrow> path_for X st' h = path_for X st h"
  by (simp add: same_view_def path_for_def)

lemma store_inv_view: "same_view st st' \<Longrightarrow> synced X st' f \<Longrightarrow> store_inv X dir st f \<Longrightarrow> store_inv X dir st' f"
proof -
  assume v: "same_view st st'" and "synced X st' f" and "store_inv X dir st f"
  moreover from v have "layout_of dir st' = layout_of dir st" by (simp add: same_view_def layout_of_def)
  moreover from v have "packs_sound X st' f = packs_sound X st f" by (simp add: same_view_def packs_sound_def)
  moreover from v have "refs_sound X st' f = refs_sound X st f" by (simp add: same_view_def refs_sound_def)
  moreover from v have "objects_sound X st' f = objects_sound X st f" by (simp add: objects_sound_def path_for_view)
  ultimately show ?thesis by (simp add: store_inv_def)
qed

lemma get_parts_view:
  assumes "same_view st st'"
  shows "get_from_pack_index X st' f h = get_from_pack_index X st f h" "get_object X st' f h = get_object X st f h"
    "get_reference X st' f h = get_reference X st f h"
proof -
  have eqs: "hm_get (st_pack_index st') = hm_get (st_pack_index st)" "st_packs_dir st' = st_packs_dir st"
    "hm_get (st_refs st') = hm_get (st_refs st)" "path_for X st' h = path_for X st h"
    using assms by (simp_all add: same_view_def path_for_def)
  show "get_from_pack_index X st' f h = get_from_pack_index X st f h"
    unfolding get_from_pack_index_def read_from_pack_def eqs ..
  show "get_object X st' f h = get_object X st f h" by (simp add: get_object_def eqs)
  show "get_reference X st' f h = get_reference X st f h" by (simp add: get_reference_def eqs)
qed

text \<open>Under the invariant a lookup consults the index, then the old layout, then the references.\<close>

lemma get_from_pack_sound:
  assumes "packs_sound X st f"
  shows "(hm_get (st_pack_index st) h = None \<and> get_from_pack_index X st f h = Inr None) \<or>
    (\<exists>pid off len b. hm_get (st_pack_index st) h = Some (pid, off, len) \<and> get_from_pack_index X st f h = Inr (Some b)
       \<and> hash_of (blake3 X) b = h)"
proof (cases "hm_get (st_pack_index st) h")
  case None
  then show ?thesis by (simp add: get_from_pack_index_def)
next
  case (Some loc)
  obtain pid off len where loc: "loc = (pid, off, len)" by (cases loc) auto
  with assms Some have "reads_hash X f (st_packs_dir st @ [pack_name pid]) off len h" by (simp add: packs_sound_def)
  from reads_hash_read [OF this] show ?thesis
    using Some loc by (auto simp: get_from_pack_index_def read_from_pack_def)
qed

lemma get_reference_sound:
  assumes "refs_sound X st f"
  shows "(hm_get (st_refs st) h = None \<and> get_reference X st f h = Inr None) \<or>
    (\<exists>loc b. hm_get (st_refs st) h = Some loc \<and> get_reference X st f h = Inr (Some b) \<and> hash_of (blake3 X) b = h)"
proof (cases "hm_get (st_refs st) h")
  case None
  then show ?thesis by (simp add: get_reference_def)
next
  case (Some loc)
  obtain p off len where loc: "loc = (p, off, len)" by (cases loc) auto
  with assms Some have "reads_hash X f p off len h" by (simp add: refs_sound_def)
  from reads_hash_read [OF this] show ?thesis using Some loc by (auto simp: get_reference_def)
qed

lemma path_for_accessible: "layout_of dir st \<Longrightarrow> accessible dir f \<Longrightarrow> \<not> fs_denied f (path_for X st h)"
  by (simp add: accessible_def layout_of_def path_for_def Let_def)

lemma get_object_sound:
  assumes "layout_of dir st" "accessible dir f" "objects_sound X st f"
  shows "get_object X st f h = Inr (hm_get (fs_files f) (path_for X st h))"
    "fs_exists f (path_for X st h) \<longleftrightarrow> hm_get (fs_files f) (path_for X st h) \<noteq> None"
  using assms path_for_accessible [OF assms(1,2), of X h]
  by (auto simp: get_object_def objects_sound_def fs_read_def fs_exists_def hm_contains_def split: option.split)

subsection \<open>Writing under the invariant\<close>

lemma pack_name_other: "pack_name pid \<noteq> ''index''" "pack_name pid \<noteq> WRITE_GUARD_NAME"
proof -
  have "is_digit (hd (pack_name pid))"
    using show_nat_hd [of "unat pid"] show_nat_digits [of "unat pid"] by (simp add: pack_name_def)
  then show "pack_name pid \<noteq> ''index''" "pack_name pid \<noteq> WRITE_GUARD_NAME"
    by (auto simp: is_digit_def WRITE_GUARD_NAME_def)
qed

lemma fs_fits_get: "fs_fits f \<Longrightarrow> hm_get (fs_files f) p = Some c \<Longrightarrow> length c < 2 ^ 64"
  unfolding fs_fits_def file_content_def by (metis option.simps(5))

lemma same_except_file: "same_except A f f' \<Longrightarrow> p \<notin> A \<Longrightarrow> hm_get (fs_files f') p = hm_get (fs_files f) p"
  by (simp add: same_except_def)

lemma sidecar_other: "sidecar f p ls \<Longrightarrow> grows f f' \<Longrightarrow> same_except A f f' \<Longrightarrow> p \<notin> A \<Longrightarrow> sidecar f' p ls"
  by (simp add: sidecar_def grows_def same_except_def)

lemma pack_rotate_ok:
  assumes "pack_rotate ps f packs = (Inr (), ps', f')" and "pack_state_ok packs ps"
  shows "current_file ps' = packs @ [pack_name (current_id ps')]" "grows f f'" "same_except {current_file ps'} f f'"
  using assms fs_create_append_file fs_create_append_grows
  by (auto simp: pack_rotate_def pack_state_ok_def Let_def split: if_splits sum.splits)

lemma pack_write_ok:
  assumes "pack_write ps f packs b = (Inr (pid, off), ps', f')" and "pack_state_ok packs ps"
  shows "current_file ps' = packs @ [pack_name (current_id ps')]" "pid = current_id ps'" "grows f f'"
    "same_except {packs @ [WRITE_GUARD_NAME], packs @ [pack_name pid]} f f'"
    "\<exists>c. hm_get (fs_files f') (packs @ [pack_name pid]) = Some (c @ b) \<and> off = of_nat (length c)"
proof -
  obtain ps1 f1 f2 where rot: "pack_rotate ps f packs = (Inr (), ps1, f1)"
    and guard: "fs_create_append f1 (packs @ [WRITE_GUARD_NAME]) = Inr f2"
    and app: "handle_append f2 (current_file ps1) b = Inr f'"
    and res: "pid = current_id ps1" "off = of_nat (length (file_content f2 (current_file ps1)))"
      "ps' = ps1\<lparr>current_size := off + of_nat (length b)\<rparr>"
    using assms(1) by (auto simp: pack_write_def acquire_write_guard_def Let_def split: prod.splits sum.splits)
  note r = pack_rotate_ok [OF rot assms(2)] and g = fs_create_append_file [OF guard]
    and a = handle_append_file [OF app]
  show "current_file ps' = packs @ [pack_name (current_id ps')]" "pid = current_id ps'" using res r(1) by simp_all
  show "grows f f'" using r(2) fs_create_append_grows [OF guard] a grows_trans by blast
  show "same_except {packs @ [WRITE_GUARD_NAME], packs @ [pack_name pid]} f f'"
    using r(1,3) g a res(1) by (simp add: same_except_def)
  show "\<exists>c. hm_get (fs_files f') (packs @ [pack_name pid]) = Some (c @ b) \<and> off = of_nat (length c)"
    using a r(1) res by auto
qed

lemma put_new_parts:
  assumes "put_new X st f h b = (Inr (h', new), st', f')"
  obtains pid off ps f1 where "pack_write (st_pack_state st) f (st_packs_dir st) b = (Inr (pid, off), ps, f1)"
    "fs_append f1 (st_pack_index_path st) (str_bytes (pack_index_line X h pid off (of_nat (length b)) @ [NL])) = Inr f'"
    "st' = st\<lparr>st_pack_state := ps, st_pack_index := hm_insert h (pid, off, of_nat (length b)) (st_pack_index st),
       st_pack_index_pos := st_pack_index_pos st + of_nat (length (pack_index_line X h pid off (of_nat (length b)) @ [NL]))\<rparr>"
    "h' = h" "new"
proof -
  obtain r ps f1 where pw: "pack_write (st_pack_state st) f (st_packs_dir st) b = (r, ps, f1)" by (metis prod_cases3)
  show ?thesis
  proof (cases r)
    case (Inl e)
    with assms pw show ?thesis by (simp add: put_new_def)
  next
    case (Inr po)
    obtain pid off where po: "po = (pid, off)" by (cases po)
    let ?l = "pack_index_line X h pid off (of_nat (length b)) @ [NL]"
    show ?thesis
    proof (cases "fs_append f1 (st_pack_index_path st) (str_bytes ?l)")
      case (Inl e)
      with assms pw Inr po show ?thesis by (simp add: put_new_def append_pack_index_line_def Let_def)
    next
      case (Inr f2)
      let ?st = "st\<lparr>st_pack_state := ps, st_pack_index := hm_insert h (pid, off, of_nat (length b)) (st_pack_index st),
        st_pack_index_pos := st_pack_index_pos st + of_nat (length ?l)\<rparr>"
      have "put_new X st f h b = (Inr (h, True), ?st, f2)"
        using pw \<open>r = Inr po\<close> po Inr by (simp add: put_new_def append_pack_index_line_def Let_def)
      then have eqs: "h' = h" "new" "st' = ?st" "f' = f2" using assms unfolding prod.inject sum.inject by auto
      have "pack_write (st_pack_state st) f (st_packs_dir st) b = (Inr (pid, off), ps, f1)" using pw \<open>r = Inr po\<close> po by simp
      then show ?thesis using Inr eqs by (intro that [of pid off ps f1]) simp_all
    qed
  qed
qed

lemma sync_append:
  assumes sync: "synced X st f" and X: "hex_ok X" "wf_hash h" and lay: "layout_of dir st"
    and g: "grows f f1" and se: "same_except {st_packs_dir st @ [WRITE_GUARD_NAME], st_packs_dir st @ [pack_name pid]} f f1"
    and idx: "st_pack_index_path st \<notin> {st_packs_dir st @ [WRITE_GUARD_NAME], st_packs_dir st @ [pack_name pid]}"
    and app: "fs_append f1 (st_pack_index_path st) (str_bytes (pack_index_line X h pid off len @ [NL])) = Inr f'"
    and fits: "fs_fits f'"
  shows "synced X (st\<lparr>st_pack_state := ps, st_pack_index := hm_insert h (pid, off, len) (st_pack_index st),
       st_pack_index_pos := st_pack_index_pos st + of_nat (length (pack_index_line X h pid off len @ [NL]))\<rparr>) f'"
proof -
  let ?l = "pack_index_line X h pid off len" and ?ip = "st_pack_index_path st" and ?rp = "st_refs_path st"
  obtain ls where ls: "sidecar f ?ip ls" "unat (st_pack_index_pos st) = length (lines_text ls)"
    "hm_get (st_pack_index st) = hm_get (insert_lines (parse_pack_index_line X) [] ls)"
    using sync by (auto simp: synced_def)
  have "sidecar f1 ?ip ls" using ls(1) g se idx by (rule sidecar_other)
  then have sc: "sidecar f' ?ip (ls @ [?l])" using tidy_pack_index_line [OF X(1)] app by (rule sidecar_append)
  have "hm_get (fs_files f') ?ip = Some (str_bytes (lines_text (ls @ [?l])))"
    using sc by (auto simp: sidecar_def split: option.splits)
  from fs_fits_get [OF fits this] have "length (lines_text (ls @ [?l])) < 2 ^ 64" by simp
  then have pos: "unat (st_pack_index_pos st + of_nat (length (?l @ [NL]))) = length (lines_text (ls @ [?l]))"
    using ls(2) by (simp add: unat_word_ariths unat_of_nat)
  have view: "hm_get (hm_insert h (pid, off, len) (st_pack_index st))
      = hm_get (insert_lines (parse_pack_index_line X) [] (ls @ [?l]))"
    using ls(3) by (simp add: insert_lines_append hm.lookup_insert)
      (simp add: insert_lines_def parse_pack_index_line_inverse [OF X] hm.lookup_insert)
  have rp: "?rp \<noteq> ?ip" "?rp \<notin> {st_packs_dir st @ [WRITE_GUARD_NAME], st_packs_dir st @ [pack_name pid]}"
    using lay by (auto simp: layout_of_def)
  obtain rs rs' where rs: "sidecar f ?rp (rs @ rs')" "unat (st_refs_pos st) = length (lines_text rs)"
    "hm_get (st_refs st) = hm_get (insert_lines (parse_ref_line X) [] (rs @ rs'))"
    using sync by (auto simp: synced_def)
  have "sidecar f1 ?rp (rs @ rs')" using rs(1) g se rp(2) by (rule sidecar_other)
  then have "sidecar f' ?rp (rs @ rs')"
    using fs_append_grows [OF app] fs_append_file [OF app] rp(1) by (auto intro: sidecar_other)
  then have "\<exists>rs rs'. sidecar f' ?rp (rs @ rs') \<and> unat (st_refs_pos st) = length (lines_text rs)
      \<and> hm_get (st_refs st) = hm_get (insert_lines (parse_ref_line X) [] (rs @ rs'))" using rs(2,3) by blast
  moreover have "\<exists>ls. sidecar f' ?ip ls \<and> unat (st_pack_index_pos st + of_nat (length (?l @ [NL]))) = length (lines_text ls)
      \<and> hm_get (hm_insert h (pid, off, len) (st_pack_index st)) = hm_get (insert_lines (parse_pack_index_line X) [] ls)"
    using sc pos view by blast
  moreover let ?st = "st\<lparr>st_pack_state := ps, st_pack_index := hm_insert h (pid, off, len) (st_pack_index st),
       st_pack_index_pos := st_pack_index_pos st + of_nat (length (?l @ [NL]))\<rparr>"
  have "st_pack_index_path ?st = ?ip" "st_refs_path ?st = ?rp" "st_refs_pos ?st = st_refs_pos st" "st_refs ?st = st_refs st"
    "st_pack_index ?st = hm_insert h (pid, off, len) (st_pack_index st)"
    "st_pack_index_pos ?st = st_pack_index_pos st + of_nat (length (?l @ [NL]))" by simp_all
  ultimately show ?thesis unfolding synced_def by presburger
qed

lemma put_new_ok:
  assumes inv: "store_inv X dir st f" and X: "hex_ok X" "wf_hash h" and h: "h = hash_of (blake3 X) b"
    and len: "length b < 2 ^ 32" and fits: "fs_fits f'"
    and put: "put_new X st f h b = (Inr r, st', f')"
  shows "store_inv X dir st' f'" "grows f f'" "r = (h, True)"
    "\<exists>pid off len. hm_get (st_pack_index st') = (hm_get (st_pack_index st))(h \<mapsto> (pid, off, len))"
    "get_from_pack_index X st' f' h = Inr (Some b)"
    "st_refs st' = st_refs st" "st_packs_dir st' = st_packs_dir st" "\<And>k. path_for X st' k = path_for X st k"
    "\<And>k. hm_get (fs_files f') (path_for X st k) = hm_get (fs_files f) (path_for X st k)"
proof -
  let ?len = "of_nat (length b) :: u32"
  obtain pid off ps f1 where pw: "pack_write (st_pack_state st) f (st_packs_dir st) b = (Inr (pid, off), ps, f1)"
    and app: "fs_append f1 (st_pack_index_path st) (str_bytes (pack_index_line X h pid off ?len @ [NL])) = Inr f'"
    and st': "st' = st\<lparr>st_pack_state := ps, st_pack_index := hm_insert h (pid, off, ?len) (st_pack_index st),
       st_pack_index_pos := st_pack_index_pos st + of_nat (length (pack_index_line X h pid off ?len @ [NL]))\<rparr>"
    and r: "r = (h, True)"
    using put by (cases r) (auto elim: put_new_parts)
  have lay: "layout_of dir st" and acc: "accessible dir f" and sync: "synced X st f" and sound: "packs_sound X st f"
      "objects_sound X st f" "refs_sound X st f" using inv by (simp_all add: store_inv_def)
  have cf: "pack_state_ok (st_packs_dir st) (st_pack_state st)"
    using lay by (simp add: layout_of_def)
  note w = pack_write_ok [OF pw cf]
  note fa = fs_append_file [OF app]
  show g: "grows f f'" using w(3) fs_append_grows [OF app] grows_trans by blast
  show "r = (h, True)" by (rule r)
  show "\<exists>pid off len. hm_get (st_pack_index st') = (hm_get (st_pack_index st))(h \<mapsto> (pid, off, len))"
    by (auto simp: st' hm.lookup_insert)
  show same: "st_refs st' = st_refs st" "st_packs_dir st' = st_packs_dir st" "\<And>k. path_for X st' k = path_for X st k"
    by (simp_all add: st' path_for_def)
  have idx: "st_pack_index_path st \<notin> {st_packs_dir st @ [WRITE_GUARD_NAME], st_packs_dir st @ [pack_name pid]}"
    using lay pack_name_other(1) [of pid] by (auto simp: layout_of_def WRITE_GUARD_NAME_def)
  show obj: "\<And>k. hm_get (fs_files f') (path_for X st k) = hm_get (fs_files f) (path_for X st k)"
    using w(4) fa lay by (auto simp: same_except_def layout_of_def path_for_def Let_def)
  obtain c where c: "hm_get (fs_files f1) (st_packs_dir st @ [pack_name pid]) = Some (c @ b)" "off = of_nat (length c)"
    using w(5) by blast
  have c': "hm_get (fs_files f') (st_packs_dir st @ [pack_name pid]) = Some (c @ b)"
    using fa idx c(1) by (auto simp: same_except_def)
  from fs_fits_get [OF fits this] have off: "unat off = length c" "unat ?len = length b" using c(2) len by (simp_all add: unat_of_nat take_bit_nat_eq_self)
  have acc': "accessible dir f'" using acc g by (simp add: accessible_def grows_def)
  have rd: "fs_read f' (st_packs_dir st @ [pack_name pid]) = Inr (c @ b)"
    using acc' lay c' by (auto simp: fs_read_def accessible_def layout_of_def)
  then have new: "reads_hash X f' (st_packs_dir st @ [pack_name pid]) off ?len h"
    using off h by (simp add: reads_hash_def slice_def)
  show "get_from_pack_index X st' f' h = Inr (Some b)"
    using rd off h by (simp add: get_from_pack_index_def read_from_pack_def st' read_exact_at_def slice_def)
  have "layout_of dir st'" using lay w(1) by (simp add: layout_of_def pack_state_ok_def st')
  moreover have "packs_sound X st' f'"
    using sound(1) new reads_hash_grows [OF grows_reads [OF g]] by (auto simp: packs_sound_def st')
  moreover have "refs_sound X st' f'" using sound(3) reads_hash_grows [OF grows_reads [OF g]] by (auto simp: refs_sound_def st')
  moreover have "objects_sound X st' f'" using sound(2) g by (simp add: objects_sound_def same obj grows_def)
  moreover have "synced X st' f'"
    using sync_append [OF sync X lay w(3,4) idx app fits] by (simp add: st')
  ultimately show "store_inv X dir st' f'" using acc' by (simp add: store_inv_def)
qed

lemma holds_parts:
  assumes "store_inv X dir st f"
  shows "holds X st f h =
    (case hm_get (st_pack_index st) h of
       Some _ \<Rightarrow> (case get_from_pack_index X st f h of Inr r \<Rightarrow> r | Inl _ \<Rightarrow> None)
     | None \<Rightarrow> (case hm_get (fs_files f) (path_for X st h) of
         Some b \<Rightarrow> Some b
       | None \<Rightarrow> (case get_reference X st f h of Inr r \<Rightarrow> r | Inl _ \<Rightarrow> None)))"
proof -
  have sync: "synced X st f" and ps: "packs_sound X st f" and rs: "refs_sound X st f"
    and ob: "layout_of dir st" "accessible dir f" "objects_sound X st f"
    using assms by (simp_all add: store_inv_def)
  show ?thesis
    using get_from_pack_sound [OF ps, of h] get_reference_sound [OF rs, of h]
    by (auto simp: holds_def get_def get_object_sound(1) [OF ob] refresh_pack_index_synced [OF sync] split: option.splits)
qed

lemma holds_hash: "store_inv X dir st f \<Longrightarrow> holds X st f h = Some b \<Longrightarrow> hash_of (blake3 X) b = h"
proof -
  assume inv: "store_inv X dir st f" and hb: "holds X st f h = Some b"
  then have "packs_sound X st f" "refs_sound X st f" "objects_sound X st f" by (simp_all add: store_inv_def)
  then show ?thesis
    using hb get_from_pack_sound [of X st f h] get_reference_sound [of X st f h]
    by (auto simp: holds_parts [OF inv] objects_sound_def split: option.splits)
qed

lemma present_holds: "store_inv X dir st f \<Longrightarrow> present X st f h \<longleftrightarrow> holds X st f h \<noteq> None"
proof -
  assume inv: "store_inv X dir st f"
  then have "packs_sound X st f" "refs_sound X st f"
    and ob: "layout_of dir st" "accessible dir f" "objects_sound X st f" by (simp_all add: store_inv_def)
  then show ?thesis
    using get_from_pack_sound [of X st f h] get_reference_sound [of X st f h]
    by (auto simp: holds_parts [OF inv] present_def hm_contains_def get_object_sound(2) [OF ob] split: option.splits)
qed

lemma get_hash: "get X st f h = (Inr (Some b), st') \<Longrightarrow> hash_of (blake3 X) b = h"
  by (auto simp: get_def get_from_pack_index_def get_object_def get_reference_def
      split: sum.splits option.splits prod.splits if_splits io_error.splits)

lemma get_synced: "store_inv X dir st f \<Longrightarrow> get X st f h = (Inr (holds X st f h), st)"
proof -
  assume inv: "store_inv X dir st f"
  have sync: "synced X st f" and ps: "packs_sound X st f" and rs: "refs_sound X st f"
    and ob: "layout_of dir st" "accessible dir f" "objects_sound X st f"
    using inv by (simp_all add: store_inv_def)
  show ?thesis
    using get_from_pack_sound [OF ps, of h] get_reference_sound [OF rs, of h]
    by (auto simp: holds_def get_def get_object_sound(1) [OF ob] refresh_pack_index_synced [OF sync] split: option.splits)
qed

lemma has_synced: "store_inv X dir st f \<Longrightarrow> has X st f h = (holds X st f h \<noteq> None, st)"
  using refresh_pack_index_synced [of X st f] present_holds [of X dir st f h]
  by (auto simp: store_inv_def has_def Let_def present_def)

lemma holds_view:
  assumes "same_view st st'" and "synced X st' f" and "store_inv X dir st f"
  shows "holds X st' f = holds X st f"
proof
  fix h
  have "hm_get (st_pack_index st') = hm_get (st_pack_index st)" using assms(1) by (simp add: same_view_def)
  then show "holds X st' f h = holds X st f h"
    unfolding holds_parts [OF assms(3)] holds_parts [OF store_inv_view [OF assms]]
      get_parts_view [OF assms(1)] path_for_view [OF assms(1)] by simp
qed

text \<open>Lookups of the entries a growing file system keeps.\<close>

lemma get_from_pack_grows:
  assumes "packs_sound X st f" and "reads_grow f f'" and "st_packs_dir st' = st_packs_dir st"
    and "hm_get (st_pack_index st') k = hm_get (st_pack_index st) k"
  shows "get_from_pack_index X st' f' k = get_from_pack_index X st f k"
proof (cases "hm_get (st_pack_index st) k")
  case None
  then show ?thesis using assms(4) by (simp add: get_from_pack_index_def)
next
  case (Some loc)
  obtain pid off len where loc: "loc = (pid, off, len)" by (cases loc) auto
  with assms(1) Some have "reads_hash X f (st_packs_dir st @ [pack_name pid]) off len k" by (simp add: packs_sound_def)
  then obtain c where c: "fs_read f (st_packs_dir st @ [pack_name pid]) = Inr c" "unat off + unat len \<le> length c"
    by (auto simp: reads_hash_def)
  from read_exact_grows [OF assms(2) this] show ?thesis
    using c Some loc assms(3,4) by (auto simp: get_from_pack_index_def read_from_pack_def)
qed

lemma get_reference_grows:
  assumes "refs_sound X st f" and "reads_grow f f'" and "hm_get (st_refs st') k = hm_get (st_refs st) k"
  shows "get_reference X st' f' k = get_reference X st f k"
proof (cases "hm_get (st_refs st) k")
  case None
  then show ?thesis using assms(3) by (simp add: get_reference_def)
next
  case (Some loc)
  obtain p off len where loc: "loc = (p, off, len)" by (cases loc) auto
  with assms(1) Some have "reads_hash X f p off len k" by (simp add: refs_sound_def)
  then obtain c where c: "fs_read f p = Inr c" "unat off + unat len \<le> length c" by (auto simp: reads_hash_def)
  from read_exact_grows [OF assms(2) this] show ?thesis
    using c Some loc assms(3) by (auto simp: get_reference_def)
qed

lemma holds_grows:
  assumes "store_inv X dir st f" "store_inv X dir' st' f'" and "grows f f'" and "st_packs_dir st' = st_packs_dir st"
    and "hm_get (st_pack_index st') k = hm_get (st_pack_index st) k" and "hm_get (st_refs st') k = hm_get (st_refs st) k"
    and "hm_get (fs_files f') (path_for X st' k) = hm_get (fs_files f) (path_for X st k)"
  shows "holds X st' f' k = holds X st f k"
proof -
  have "packs_sound X st f" "refs_sound X st f" using assms(1) by (simp_all add: store_inv_def)
  then have eqs: "get_from_pack_index X st' f' k = get_from_pack_index X st f k" "get_reference X st' f' k = get_reference X st f k"
    using get_from_pack_grows [OF _ grows_reads [OF assms(3)] assms(4,5)] get_reference_grows [OF _ grows_reads [OF assms(3)] assms(6)]
    by simp_all
  show ?thesis unfolding holds_parts [OF assms(1)] holds_parts [OF assms(2)] eqs assms(5,7) ..
qed

lemma put_new_holds:
  assumes "store_inv X dir st f" "hex_ok X" "wf_hash h" "h = hash_of (blake3 X) b" "length b < 2 ^ 32" "fs_fits f'"
    and "put_new X st f h b = (Inr r, st', f')"
  shows "holds X st' f' = (holds X st f)(h \<mapsto> b)"
proof
  fix k
  note n = put_new_ok [OF assms]
  show "holds X st' f' k = ((holds X st f)(h \<mapsto> b)) k"
  proof (cases "k = h")
    case True
    then show ?thesis using n(4,5) by (auto simp: holds_parts [OF n(1)])
  next
    case False
    then have "hm_get (st_pack_index st') k = hm_get (st_pack_index st) k" using n(4) by auto
    from holds_grows [OF assms(1) n(1,2,7) this] show ?thesis using n(6,8,9) False by simp
  qed
qed

subsection \<open>Writing that fails\<close>

definition pack_files :: "path \<Rightarrow> path set" where
  "pack_files packs = insert (packs @ [WRITE_GUARD_NAME]) (range (\<lambda>pid. packs @ [pack_name pid]))"

lemma pack_files_iff: "p \<in> pack_files packs \<longleftrightarrow> p = packs @ [WRITE_GUARD_NAME] \<or> (\<exists>pid. p = packs @ [pack_name pid])"
  by (auto simp: pack_files_def)

lemma pack_rotate_any:
  assumes "pack_rotate ps f packs = (r, ps', f')" and "pack_state_ok packs ps"
  shows "pack_state_ok packs ps' \<and> grows f f' \<and> same_except (pack_files packs) f f'
    \<and> (r = Inr () \<longrightarrow> current_file ps' = packs @ [pack_name (current_id ps')])"
proof (cases r)
  case (Inl e)
  then show ?thesis using assms by (auto simp: pack_rotate_def pack_state_ok_def Let_def split: if_splits sum.splits)
next
  case (Inr u)
  then have "pack_rotate ps f packs = (Inr (), ps', f')" using assms(1) by simp
  note ok = pack_rotate_ok [OF this assms(2)]
  then have "same_except (pack_files packs) f f'"
    by (intro same_except_mono [OF ok(3)]) (auto simp: pack_files_iff)
  then show ?thesis using ok by (simp add: pack_state_ok_def)
qed

lemma pack_write_any:
  assumes "pack_write ps f packs b = (r, ps', f')" and "pack_state_ok packs ps"
  shows "pack_state_ok packs ps' \<and> grows f f' \<and> same_except (pack_files packs) f f'"
proof -
  obtain r1 ps1 f1 where rot: "pack_rotate ps f packs = (r1, ps1, f1)" by (metis prod_cases3)
  note ro = pack_rotate_any [OF rot assms(2)]
  show ?thesis
  proof (cases "\<exists>f2. r1 = Inr () \<and> acquire_write_guard f1 (packs @ [WRITE_GUARD_NAME]) = Inr f2")
    case False
    then have "ps' = ps1 \<and> f' = f1" using assms(1) rot by (auto simp: pack_write_def split: sum.splits)
    then show ?thesis using ro by simp
  next
    case True
    then obtain f2 where f2: "r1 = Inr ()" "fs_create_append f1 (packs @ [WRITE_GUARD_NAME]) = Inr f2"
      by (auto simp: acquire_write_guard_def)
    have cf: "current_file ps1 = packs @ [pack_name (current_id ps1)]" using ro f2(1) by simp
    have g2: "grows f f2" "same_except (pack_files packs) f f2"
      using ro fs_create_append_grows [OF f2(2)] fs_create_append_file [OF f2(2)] grows_trans
      by (auto simp: same_except_def pack_files_iff)
    have "f' = f2 \<and> ps' = ps1 \<or> handle_append f2 (current_file ps1) b = Inr f' \<and> (\<exists>n. ps' = ps1\<lparr>current_size := n\<rparr>)"
      using assms(1) rot f2 by (auto simp: pack_write_def acquire_write_guard_def Let_def split: sum.splits)
    then show ?thesis
    proof
      assume "f' = f2 \<and> ps' = ps1"
      then show ?thesis using ro g2 by simp
    next
      assume a: "handle_append f2 (current_file ps1) b = Inr f' \<and> (\<exists>n. ps' = ps1\<lparr>current_size := n\<rparr>)"
      then have "grows f f'" using g2(1) handle_append_file grows_trans by blast
      moreover have "same_except (pack_files packs) f f'"
        using g2(2) handle_append_file [of f2 "current_file ps1" b f'] a cf by (auto simp: same_except_def pack_files_iff)
      moreover have "pack_state_ok packs ps'" using a cf by (auto simp: pack_state_ok_def)
      ultimately show ?thesis by blast
    qed
  qed
qed

text \<open>Bytes behind the pack files that no index line mentions are invisible.\<close>

lemma stray_bytes_harmless:
  assumes inv: "store_inv X dir st f" and g: "grows f f'" and se: "same_except (pack_files (st_packs_dir st)) f f'"
    and ps: "pack_state_ok (st_packs_dir st) ps"
  shows "store_inv X dir (st\<lparr>st_pack_state := ps\<rparr>) f' \<and> holds X (st\<lparr>st_pack_state := ps\<rparr>) f' = holds X st f"
proof -
  let ?st = "st\<lparr>st_pack_state := ps\<rparr>"
  have lay: "layout_of dir st" and acc: "accessible dir f" and sync: "synced X st f" and sound: "packs_sound X st f"
      "objects_sound X st f" "refs_sound X st f" using inv by (simp_all add: store_inv_def)
  have path: "path_for X ?st k = path_for X st k" for k by (simp add: path_for_def)
  have obj: "hm_get (fs_files f') (path_for X st k) = hm_get (fs_files f) (path_for X st k)" for k
    using se lay by (auto simp: same_except_def pack_files_iff layout_of_def path_for_def Let_def)
  have other: "st_pack_index_path st \<notin> pack_files (st_packs_dir st)" "st_refs_path st \<notin> pack_files (st_packs_dir st)"
    using lay pack_name_other(1) [symmetric] by (auto simp: layout_of_def pack_files_iff WRITE_GUARD_NAME_def)
  have "synced X ?st f'"
    using sync sidecar_other [OF _ g se other(1)] sidecar_other [OF _ g se other(2)] unfolding synced_def by fastforce
  moreover have "layout_of dir ?st" using lay ps by (simp add: layout_of_def)
  moreover have "accessible dir f'" using acc g by (simp add: accessible_def grows_def)
  moreover have "packs_sound X ?st f'" "refs_sound X ?st f'"
    using sound reads_hash_grows [OF grows_reads [OF g]] by (auto simp: packs_sound_def refs_sound_def)
  moreover have "objects_sound X ?st f'" using sound(2) g by (simp add: objects_sound_def path obj grows_def)
  ultimately have inv': "store_inv X dir ?st f'" by (simp add: store_inv_def)
  have "holds X ?st f' k = holds X st f k" for k
    by (rule holds_grows [OF inv inv' g]) (simp_all add: path obj)
  with inv' show ?thesis by blast
qed

lemma put_new_fail:
  assumes inv: "store_inv X dir st f" and "put_new X st f h b = (Inl e, st', f')"
  shows "store_inv X dir st' f' \<and> holds X st' f' = holds X st f"
proof -
  obtain r ps f1 where pw: "pack_write (st_pack_state st) f (st_packs_dir st) b = (r, ps, f1)" by (metis prod_cases3)
  then have "st' = st\<lparr>st_pack_state := ps\<rparr> \<and> f' = f1"
    using assms(2) by (auto simp: put_new_def Let_def split: sum.splits)
  moreover have "pack_state_ok (st_packs_dir st) (st_pack_state st)" using inv by (simp add: store_inv_def layout_of_def)
  ultimately show ?thesis using stray_bytes_harmless [OF inv] pack_write_any [OF pw] by blast
qed

text \<open>The shape of \<open>put\<close> in a store in good state.\<close>

lemma put_cases:
  assumes inv: "store_inv X dir st f" and fits: "fs_fits f" and put: "put X st f b = (r, st', f')"
  obtains (known) "holds X st f (hash_of (blake3 X) b) \<noteq> None" "r = Inr (hash_of (blake3 X) b, False)" "st' = st" "f' = f"
    | (new) st3 where "holds X st f (hash_of (blake3 X) b) = None" "store_inv X dir st3 f" "holds X st3 f = holds X st f"
        "put_new X st3 f (hash_of (blake3 X) b) b = (r, st', f')"
proof -
  let ?h = "hash_of (blake3 X) b"
  have sync: "synced X st f" using inv by (simp add: store_inv_def)
  obtain st3 where rr: "refresh_refs X st f = (Inr (), st3)" "same_view st st3" "synced X st3 f"
    using refresh_refs_synced [OF sync fits] by blast
  have "put X st f b = (if holds X st f ?h \<noteq> None then (Inr (?h, False), st, f) else put_new X st3 f ?h b)"
    by (simp add: put_def has_synced [OF inv] Let_def refresh_pack_index_synced [OF sync] rr(1)
        present_view [OF rr(2)] present_holds [OF inv])
  then show ?thesis using put store_inv_view [OF rr(2,3) inv] holds_view [OF rr(2,3) inv] known new
    by (cases "holds X st f ?h = None") auto
qed

lemma put_fail:
  assumes "store_inv X dir st f" and "fs_fits f" and "put X st f b = (Inl e, st', f')"
  shows "store_inv X dir st' f' \<and> holds X st' f' = holds X st f"
  using assms by (rule put_cases) (use put_new_fail in fastforce)+

lemma put_ok:
  assumes inv: "store_inv X dir st f" and X: "hex_ok X" "digest_ok X" and len: "length b < 2 ^ 32"
    and fits: "fs_fits f" "fs_fits f'" and put: "put X st f b = (Inr (h, new), st', f')"
  shows "h = hash_of (blake3 X) b" "store_inv X dir st' f'" "new \<longleftrightarrow> holds X st f h = None"
    "holds X st' f' = (if new then (holds X st f)(h \<mapsto> b) else holds X st f)"
proof -
  let ?h = "hash_of (blake3 X) b"
  have "h = ?h \<and> store_inv X dir st' f' \<and> (new \<longleftrightarrow> holds X st f h = None)
      \<and> holds X st' f' = (if new then (holds X st f)(h \<mapsto> b) else holds X st f)"
    using inv fits(1) put
  proof (cases rule: put_cases)
    case (new st3)
    have wf: "wf_hash ?h" using X(2) by (rule wf_hash_of)
    note n = put_new_ok [OF new(2) X(1) wf refl len fits(2) new(4)]
    then show ?thesis using new(1,3) put_new_holds [OF new(2) X(1) wf refl len fits(2) new(4)] by simp
  qed (use inv in simp)
  then show "h = ?h" "store_inv X dir st' f'" "new \<longleftrightarrow> holds X st f h = None"
    "holds X st' f' = (if new then (holds X st f)(h \<mapsto> b) else holds X st f)" by auto
qed

section \<open>Opening and recovery\<close>

text \<open>
  A sidecar as a crash can leave it: complete lines and an unterminated rest. \<open>openable\<close>: nothing in
  the file system stands in the way of the store's own files and directories.
\<close>

definition torn_sidecar :: "fs \<Rightarrow> path \<Rightarrow> string list \<Rightarrow> string \<Rightarrow> bool" where
  "torn_sidecar f p ls part \<longleftrightarrow> list_all tidy ls \<and> ascii part \<and> NL \<notin> set part
     \<and> (case hm_get (fs_files f) p of None \<Rightarrow> ls = [] \<and> part = [] | Some c \<Rightarrow> c = str_bytes (lines_text ls @ part))"

definition openable :: "path \<Rightarrow> fs \<Rightarrow> bool" where
  "openable dir f \<longleftrightarrow> (\<forall>p. \<not> fs_denied f (dir @ p))
     \<and> (\<forall>q \<in> set (prefixes_of (dir @ [''objects''])) \<union> set (prefixes_of (dir @ [''packs''])). hm_get (fs_files f) q = None)
     \<and> dir @ [''refs.tsv''] \<notin> set (fs_dirs f) \<and> (\<forall>n. dir @ [''packs'', n] \<notin> set (fs_dirs f))"

text \<open>A directory whose own files can be written: what the calls after \<open>open_dirs\<close> start from.\<close>

definition store_dirs :: "path \<Rightarrow> fs \<Rightarrow> bool" where
  "store_dirs dir f \<longleftrightarrow> (\<forall>p. \<not> fs_denied f (dir @ p)) \<and> dir \<in> set (fs_dirs f)
     \<and> dir @ [''objects''] \<in> set (fs_dirs f) \<and> dir @ [''packs''] \<in> set (fs_dirs f)
     \<and> dir @ [''refs.tsv''] \<notin> set (fs_dirs f) \<and> (\<forall>n. dir @ [''packs'', n] \<notin> set (fs_dirs f))"

lemma open_dirs_ok:
  assumes "openable dir f"
  obtains f' where "open_dirs f dir = (Inr (), f')" "fs_files f' = fs_files f" "fs_denied f' = fs_denied f" "store_dirs dir f'"
    "set (fs_dirs f') = set (prefixes_of (dir @ [''objects''])) \<union> set (prefixes_of (dir @ [''packs''])) \<union> set (fs_dirs f)"
proof -
  let ?o = "dir @ [''objects'']" and ?p = "dir @ [''packs'']"
  have no: "\<not> list_ex (\<lambda>q. hm_contains (fs_files f) q) (prefixes_of ?o)"
    "\<not> list_ex (\<lambda>q. hm_contains (fs_files f) q) (prefixes_of ?p)"
    using assms by (auto simp: openable_def list_ex_iff hm_contains_def)
  have nd: "\<not> fs_denied f ?o" "\<not> fs_denied f ?p" using assms by (auto simp: openable_def)
  let ?f1 = "f\<lparr>fs_dirs := remdups (prefixes_of ?o @ fs_dirs f)\<rparr>"
  let ?f2 = "?f1\<lparr>fs_dirs := remdups (prefixes_of ?p @ fs_dirs ?f1)\<rparr>"
  have d: "set (fs_dirs ?f2) = set (prefixes_of ?o) \<union> set (prefixes_of ?p) \<union> set (fs_dirs f)" by auto
  show ?thesis
  proof (rule that)
    show "open_dirs f dir = (Inr (), ?f2)"
      using no nd by (simp add: open_dirs_def fs_create_dir_all_def)
    have "dir \<in> set (fs_dirs ?f2)" "?o \<in> set (fs_dirs ?f2)" "?p \<in> set (fs_dirs ?f2)"
      unfolding d by (auto simp: set_prefixes_of)
    moreover have "dir @ [''refs.tsv''] \<notin> set (fs_dirs ?f2)" "dir @ [''packs'', n] \<notin> set (fs_dirs ?f2)" for n
      using assms unfolding d by (auto simp: set_prefixes_of openable_def append_eq_append_conv2 Cons_eq_append_conv append_eq_Cons_conv)
    ultimately show "store_dirs dir ?f2" using assms by (simp add: store_dirs_def openable_def)
  qed auto
qed

lemma truncate_ok:
  assumes "torn_sidecar f p ls part" and "fs_open_write f p = None" and "p \<notin> set (fs_dirs f)" and "\<not> fs_denied f p"
  shows "\<exists>f'. truncate_partial_line_locked f p = Inr f' \<and> sidecar f' p ls \<and> same_except {p} f f'
    \<and> fs_dirs f' = fs_dirs f \<and> fs_denied f' = fs_denied f \<and> (hm_get (fs_files f) p = None \<or> hm_get (fs_files f') p \<noteq> None)"
proof (cases "hm_get (fs_files f) p")
  case None
  with assms show ?thesis
    by (auto simp: truncate_partial_line_locked_def fs_read_to_string_def fs_read_def torn_sidecar_def sidecar_def)
next
  case (Some c)
  let ?t = "lines_text ls @ part"
  have tidy: "list_all tidy ls" and part: "ascii part" "NL \<notin> set part" and c: "c = str_bytes ?t"
    using assms(1) Some by (auto simp: torn_sidecar_def)
  have rd: "fs_read_to_string f p = Inr ?t"
    using Some assms(3,4) c part(1) ascii_lines_text [OF tidy] from_utf8_str_bytes [of ?t]
    by (simp add: fs_read_to_string_def fs_read_def)
  show ?thesis
  proof (cases "part = []")
    case True
    have "?t = [] \<or> last ?t = NL" using True by (cases ls rule: rev_cases) auto
    with True rd Some c tidy assms(3,4) show ?thesis
      by (auto simp: truncate_partial_line_locked_def sidecar_def)
  next
    case False
    have "last part \<noteq> NL" using part(2) last_in_set [OF False] by metis
    then have nl: "last ?t \<noteq> NL" "?t \<noteq> []" using False by simp_all
    have kept: "(case rfind_nl ?t of Some pos \<Rightarrow> take (Suc pos) ?t | None \<Rightarrow> []) = lines_text ls"
    proof (cases ls rule: rev_cases)
      case Nil
      then show ?thesis using part(2) rfind_nl_None [of part] by simp
    next
      case (snoc ls' l)
      then show ?thesis using rfind_nl_append [OF part(2), of "lines_text ls' @ l"] by simp
    qed
    have "fs_write f p (str_bytes (lines_text ls)) = Inr (f\<lparr>fs_files := hm_insert p (str_bytes (lines_text ls)) (fs_files f)\<rparr>)"
      using assms(2) by (simp add: fs_write_def)
    then show ?thesis
      using rd nl kept tidy assms(3,4)
      by (auto simp: truncate_partial_line_locked_def Let_def sidecar_def same_except_def)
  qed
qed

lemma load_sidecar:
  assumes "sidecar f p ls"
  shows "load_pack_index X f p = Inr (insert_lines (parse_pack_index_line X) [] ls, of_nat (length (lines_text ls)))"
    "load_refs X f p = Inr (insert_lines (parse_ref_line X) [] ls, of_nat (length (lines_text ls)))"
proof -
  have tidy: "list_all tidy ls" using assms by (simp add: sidecar_def)
  have none: "hm_get (fs_files f) p = None \<Longrightarrow> ls = []" using assms by (auto simp: sidecar_def)
  show "load_pack_index X f p = Inr (insert_lines (parse_pack_index_line X) [] ls, of_nat (length (lines_text ls)))"
    "load_refs X f p = Inr (insert_lines (parse_ref_line X) [] ls, of_nat (length (lines_text ls)))"
    using none str_lines_lines_text [OF tidy]
    by (auto simp: load_pack_index_def load_refs_def fs_read_to_string_sidecar [OF assms] insert_lines_def)
qed

lemma pack_open_ok:
  assumes "store_dirs dir f"
  obtains ps f' where "pack_open f (dir @ [''packs'']) = Inr (ps, f')"
    "current_file ps = dir @ [''packs'', pack_name (current_id ps)]" "grows f f'" "same_except {current_file ps} f f'"
proof -
  obtain es where es: "fs_read_dir f (dir @ [''packs'']) = Inr es"
    using assms by (simp add: fs_read_dir_def store_dirs_def)
  define pid where "pid = (case max_pack_id es None of None \<Rightarrow> 0 | Some m \<Rightarrow> m)"
  let ?p = "dir @ [''packs'', pack_name pid]"
  have "fs_open_write f ?p = None" using assms by (simp add: fs_open_write_def store_dirs_def butlast_append)
  then obtain f' where f': "fs_create_append f ?p = Inr f'" by (simp add: fs_create_append_def)
  note cf = fs_create_append_file [OF f'] and g = fs_create_append_grows [OF f']
  have "fs_len f' ?p = Inr (length (file_content f ?p))"
    using assms cf by (simp add: fs_len_def fs_read_def store_dirs_def)
  then have "pack_open f (dir @ [''packs'']) =
      Inr (\<lparr>current_id = pid, current_file = ?p, current_size = of_nat (length (file_content f ?p))\<rparr>, f')"
    by (simp add: pack_open_def es Let_def f' flip: pid_def)
  then show ?thesis using that g cf by simp
qed

lemma syncedI:
  assumes "sidecar f (st_pack_index_path st) ls" and "unat (st_pack_index_pos st) = length (lines_text ls)"
    and "hm_get (st_pack_index st) = hm_get (insert_lines (parse_pack_index_line X) [] ls)"
    and "sidecar f (st_refs_path st) (rs @ rs')" and "unat (st_refs_pos st) = length (lines_text rs)"
    and "hm_get (st_refs st) = hm_get (insert_lines (parse_ref_line X) [] (rs @ rs'))"
  shows "synced X st f"
  using assms unfolding synced_def by blast

lemma torn_length: "torn_sidecar g p ls part \<Longrightarrow> fs_fits g \<Longrightarrow> length (lines_text ls) < 2 ^ 64"
  by (cases "hm_get (fs_files g) p") (auto simp: torn_sidecar_def dest!: fs_fits_get)

text \<open>Creating for append leaves an existing file alone.\<close>

lemma create_append_same: "fs_create_append f p = Inr f' \<Longrightarrow> hm_get (fs_files f) q = Some c \<Longrightarrow> hm_get (fs_files f') q = Some c"
  by (auto simp: fs_create_append_def hm_contains_def split: option.splits if_splits)

lemma pack_open_same: "pack_open f d = Inr (ps, f') \<Longrightarrow> hm_get (fs_files f) q = Some c \<Longrightarrow> hm_get (fs_files f') q = Some c"
  by (auto simp: pack_open_def Let_def split: sum.splits dest: create_append_same)

text \<open>What a successful open leaves: trimmed sidecars, maps that say the same, other files as they were.\<close>

lemma store_open_ok:
  assumes op: "openable dir g" and ti: "torn_sidecar g (dir @ [''packs'', ''index'']) ls part"
    and tr: "torn_sidecar g (dir @ [''refs.tsv'']) rs rpart" and fits: "fs_fits g"
  obtains st f where "store_open X g dir = (Inr st, f)" "layout_of dir st" "synced X st f" "accessible dir f"
    "hm_get (st_pack_index st) = hm_get (insert_lines (parse_pack_index_line X) [] ls)"
    "hm_get (st_refs st) = hm_get (insert_lines (parse_ref_line X) [] rs)"
    "file_content f (dir @ [''packs'', ''index'']) = str_bytes (lines_text ls)"
    "file_content f (dir @ [''refs.tsv'']) = str_bytes (lines_text rs)"
    "\<forall>p c. p \<noteq> dir @ [''packs'', ''index''] \<longrightarrow> p \<noteq> dir @ [''refs.tsv''] \<longrightarrow>
       hm_get (fs_files g) p = Some c \<longrightarrow> hm_get (fs_files f) p = Some c"
    "\<forall>p. hm_get (fs_files g) p \<noteq> None \<longrightarrow> hm_get (fs_files f) p \<noteq> None"
    "\<forall>x y. hm_get (fs_files f) (dir @ [''objects'', x, y]) = hm_get (fs_files g) (dir @ [''objects'', x, y])"
    "set (fs_dirs f) = set (prefixes_of (dir @ [''objects''])) \<union> set (prefixes_of (dir @ [''packs''])) \<union> set (fs_dirs g)"
    "fs_denied f = fs_denied g"
proof -
  let ?ip = "dir @ [''packs'', ''index'']" and ?rp = "dir @ [''refs.tsv'']" and ?gp = "dir @ [''packs'', WRITE_GUARD_NAME]"
  obtain f1 where f1: "open_dirs g dir = (Inr (), f1)" "fs_files f1 = fs_files g" "fs_denied f1 = fs_denied g" "store_dirs dir f1"
    "set (fs_dirs f1) = set (prefixes_of (dir @ [''objects''])) \<union> set (prefixes_of (dir @ [''packs''])) \<union> set (fs_dirs g)"
    using open_dirs_ok [OF op] by blast
  have ow: "fs_open_write f ?ip = None" "fs_open_write f ?rp = None" "fs_open_write f ?gp = None" "\<not> fs_denied f ?ip"
      "\<not> fs_denied f ?rp" "?ip \<notin> set (fs_dirs f)" "?rp \<notin> set (fs_dirs f)"
    if "fs_dirs f = fs_dirs f1" "fs_denied f = fs_denied f1" for f
    using f1(4) that by (simp_all add: fs_open_write_def store_dirs_def butlast_append)
  obtain f2 where f2: "fs_create_append f1 ?gp = Inr f2" using ow(3) [of f1] by (simp add: fs_create_append_def)
  note g2 = fs_create_append_file [OF f2]
  have ti2: "torn_sidecar f2 ?ip ls part" using ti g2 f1(2) by (simp add: torn_sidecar_def same_except_def WRITE_GUARD_NAME_def)
  obtain f3 where f3: "truncate_partial_line_locked f2 ?ip = Inr f3" "sidecar f3 ?ip ls" "same_except {?ip} f2 f3"
    "fs_dirs f3 = fs_dirs f1" "fs_denied f3 = fs_denied f1" "hm_get (fs_files f2) ?ip = None \<or> hm_get (fs_files f3) ?ip \<noteq> None"
    using truncate_ok [OF ti2] ow [of f2] g2 by auto
  have tr3: "torn_sidecar f3 ?rp rs rpart" using tr g2 f1(2) f3(3) by (simp add: torn_sidecar_def same_except_def)
  obtain f4 where f4: "truncate_partial_line_locked f3 ?rp = Inr f4" "sidecar f4 ?rp rs" "same_except {?rp} f3 f4"
    "fs_dirs f4 = fs_dirs f1" "fs_denied f4 = fs_denied f1" "hm_get (fs_files f3) ?rp = None \<or> hm_get (fs_files f4) ?rp \<noteq> None"
    using truncate_ok [OF tr3] ow [of f3] f3(4,5) by auto
  have si4: "sidecar f4 ?ip ls" using f3(2-5) f4(3-5) by (simp add: sidecar_def same_except_def)
  have "store_dirs dir f4" using f1(4) f4(4,5) by (simp add: store_dirs_def)
  then obtain ps f5 where f5: "pack_open f4 (dir @ [''packs'']) = Inr (ps, f5)"
    "current_file ps = dir @ [''packs'', pack_name (current_id ps)]" "grows f4 f5" "same_except {current_file ps} f4 f5"
    by (rule pack_open_ok)
  define st where "st = \<lparr>st_objects = dir @ [''objects''], st_refs_path = ?rp, st_refs = insert_lines (parse_ref_line X) [] rs,
      st_packs_dir = dir @ [''packs''], st_pack_index_path = ?ip, st_pack_index = insert_lines (parse_pack_index_line X) [] ls,
      st_pack_index_pos = of_nat (length (lines_text ls)), st_refs_pos = of_nat (length (lines_text rs)), st_pack_state = ps\<rparr>"
  have trim: "open_trim f1 dir = (Inr (), f4)"
    by (simp add: open_trim_def acquire_write_guard_def f2 f3(1) f4(1))
  have "store_open X g dir = (Inr st, f5)"
    by (simp add: store_open_def f1(1) trim load_sidecar [OF si4] load_sidecar [OF f4(2)] f5(1) st_def)
  moreover have cf: "current_file ps \<noteq> ?ip" "current_file ps \<noteq> ?rp"
    using pack_name_other(1) [of "current_id ps"] f5(2) by simp_all
  then have sc5: "sidecar f5 ?ip ls" "sidecar f5 ?rp rs"
    using si4 f4(2) f5(3,4) by (auto intro: sidecar_other)
  moreover have "layout_of dir st" using f5(2) by (simp add: layout_of_def pack_state_ok_def st_def)
  moreover have lens: "length (lines_text ls) < 2 ^ 64" "length (lines_text rs) < 2 ^ 64"
    using torn_length [OF ti fits] torn_length [OF tr fits] by simp_all
  then have "synced X st f5"
    using sc5 by (intro syncedI [where ls = ls and rs = rs and rs' = "[]"])
      (simp_all add: st_def unat_of_nat take_bit_nat_eq_self)
  moreover have dirs5: "set (fs_dirs f5) = set (fs_dirs f1)" "fs_denied f5 = fs_denied g"
    using f5(3) f4(4,5) f1(3) by (simp_all add: grows_def)
  then have "accessible dir f5" using f1(3,4) by (simp add: accessible_def store_dirs_def)
  moreover have "hm_get (fs_files f5) p = Some c"
    if "p \<noteq> ?ip" "p \<noteq> ?rp" "hm_get (fs_files g) p = Some c" for p c
    using that f4(3) f3(3) f1(2) create_append_same [OF f2, of p c]
    by (intro pack_open_same [OF f5(1)]) (simp add: same_except_def)
  moreover have "hm_get (fs_files f5) p \<noteq> None" if "hm_get (fs_files g) p \<noteq> None" for p
  proof -
    have "hm_get (fs_files f2) p \<noteq> None" using that f1(2) create_append_same [OF f2, of p] by auto
    then have "hm_get (fs_files f3) p \<noteq> None" using f3(3,6) by (cases "p = ?ip") (auto simp: same_except_def)
    then have "hm_get (fs_files f4) p \<noteq> None" using f4(3,6) by (cases "p = ?rp") (auto simp: same_except_def)
    then show ?thesis using pack_open_same [OF f5(1), of p] by auto
  qed
  moreover have "hm_get (fs_files f5) (dir @ [''objects'', x, y]) = hm_get (fs_files g) (dir @ [''objects'', x, y])" for x y
    using f5(2,4) f4(3) f3(3) g2 f1(2) by (simp add: same_except_def)
  moreover have "file_content f5 ?ip = str_bytes (lines_text ls)" "file_content f5 ?rp = str_bytes (lines_text rs)"
    using sc5 by (auto simp: sidecar_def file_content_def str_bytes_def split: option.splits)
  ultimately show ?thesis using that dirs5 f1(5) by (simp add: st_def)
qed

text \<open>
  A crash: what had been written is there, the pack files and the two sidecars may carry torn
  bytes behind it, and the old layout is as it was.
\<close>

definition crashed :: "path \<Rightarrow> fs \<Rightarrow> fs \<Rightarrow> bool" where
  "crashed dir f g \<longleftrightarrow> grows f g
     \<and> (\<exists>part. ascii part \<and> NL \<notin> set part
          \<and> file_content g (dir @ [''packs'', ''index'']) = file_content f (dir @ [''packs'', ''index'']) @ str_bytes part)
     \<and> (\<exists>part. ascii part \<and> NL \<notin> set part
          \<and> file_content g (dir @ [''refs.tsv'']) = file_content f (dir @ [''refs.tsv'']) @ str_bytes part)
     \<and> (\<forall>x y. hm_get (fs_files g) (dir @ [''objects'', x, y]) = hm_get (fs_files f) (dir @ [''objects'', x, y]))"

lemma crashed_torn:
  assumes "sidecar f p ls" and "ascii part" "NL \<notin> set part" and "file_content g p = file_content f p @ str_bytes part"
  shows "torn_sidecar g p ls part"
proof -
  have "file_content f p = str_bytes (lines_text ls)" "list_all tidy ls"
    using assms(1) by (auto simp: sidecar_def file_content_def str_bytes_def split: option.splits)
  with assms(2-4) show ?thesis
    by (auto simp: torn_sidecar_def file_content_def str_bytes_def split: option.splits)
qed

lemma sidecar_content: "sidecar f p ls \<Longrightarrow> file_content f p = str_bytes (lines_text ls)"
  by (auto simp: sidecar_def file_content_def str_bytes_def split: option.splits)

lemma reopened_reads:
  assumes g: "grows f g" and op: "openable dir g"
    and other: "\<And>p c. p \<noteq> dir @ [''packs'', ''index''] \<Longrightarrow> p \<noteq> dir @ [''refs.tsv''] \<Longrightarrow>
       hm_get (fs_files g) p = Some c \<Longrightarrow> hm_get (fs_files f') p = Some c"
    and kept: "\<And>p. hm_get (fs_files g) p \<noteq> None \<Longrightarrow> hm_get (fs_files f') p \<noteq> None"
    and dirs: "set (fs_dirs f') = set (prefixes_of (dir @ [''objects''])) \<union> set (prefixes_of (dir @ [''packs''])) \<union> set (fs_dirs g)"
    and den: "fs_denied f' = fs_denied g"
    and side: "file_content f' (dir @ [''packs'', ''index'']) = file_content f (dir @ [''packs'', ''index''])"
      "file_content f' (dir @ [''refs.tsv'']) = file_content f (dir @ [''refs.tsv''])"
  shows "reads_grow f f'"
  unfolding reads_grow_def
proof (intro allI impI)
  fix p c assume rd: "fs_read f p = Inr c"
  then have c: "hm_get (fs_files f) p = Some c" "\<not> fs_denied f p" "p \<notin> set (fs_dirs f)"
    by (auto simp: fs_read_def split: if_splits option.splits)
  obtain d where d: "hm_get (fs_files g) p = Some (c @ d)" using g c(1) by (auto simp: grows_def)
  have nd: "p \<notin> set (fs_dirs f')" "\<not> fs_denied f' p"
    using c(2,3) d g op by (auto simp: dirs den grows_def openable_def)
  show "\<exists>d. fs_read f' p = Inr (c @ d)"
  proof (cases "p \<in> {dir @ [''packs'', ''index''], dir @ [''refs.tsv'']}")
    case True
    then have "file_content f' p = c" using side c(1) by (auto simp: file_content_def)
    then show ?thesis using nd kept [of p] d by (auto simp: fs_read_def file_content_def split: option.splits)
  next
    case False
    then show ?thesis using other [of p "c @ d"] d nd by (auto simp: fs_read_def)
  qed
qed

lemma reopen_after_crash:
  assumes inv: "store_inv X dir st f" and cr: "crashed dir f g" and op: "openable dir g" and fits: "fs_fits g"
  obtains st' f' where "store_open X g dir = (Inr st', f')" "store_inv X dir st' f'" "holds X st' f' = holds X st f"
proof -
  let ?ip = "dir @ [''packs'', ''index'']" and ?rp = "dir @ [''refs.tsv'']"
  have lay: "layout_of dir st" and sound: "packs_sound X st f" "objects_sound X st f" "refs_sound X st f"
    using inv by (simp_all add: store_inv_def)
  obtain ls rs where ls: "sidecar f ?ip ls" "hm_get (st_pack_index st) = hm_get (insert_lines (parse_pack_index_line X) [] ls)"
    and rs: "sidecar f ?rp rs" "hm_get (st_refs st) = hm_get (insert_lines (parse_ref_line X) [] rs)"
    using inv lay by (auto simp: store_inv_def synced_def layout_of_def)
  have g: "grows f g" and obj: "\<And>x y. hm_get (fs_files g) (dir @ [''objects'', x, y]) = hm_get (fs_files f) (dir @ [''objects'', x, y])"
    using cr by (simp_all add: crashed_def)
  obtain part rpart where t: "torn_sidecar g ?ip ls part" "torn_sidecar g ?rp rs rpart"
    using cr crashed_torn [OF ls(1)] crashed_torn [OF rs(1)] unfolding crashed_def by blast
  obtain st' f' where o: "store_open X g dir = (Inr st', f')" "layout_of dir st'" "synced X st' f'" "accessible dir f'"
    "hm_get (st_pack_index st') = hm_get (insert_lines (parse_pack_index_line X) [] ls)"
    "hm_get (st_refs st') = hm_get (insert_lines (parse_ref_line X) [] rs)"
    "file_content f' ?ip = str_bytes (lines_text ls)" "file_content f' ?rp = str_bytes (lines_text rs)"
    "\<forall>p c. p \<noteq> ?ip \<longrightarrow> p \<noteq> ?rp \<longrightarrow> hm_get (fs_files g) p = Some c \<longrightarrow> hm_get (fs_files f') p = Some c"
    "\<forall>p. hm_get (fs_files g) p \<noteq> None \<longrightarrow> hm_get (fs_files f') p \<noteq> None"
    "\<forall>x y. hm_get (fs_files f') (dir @ [''objects'', x, y]) = hm_get (fs_files g) (dir @ [''objects'', x, y])"
    "set (fs_dirs f') = set (prefixes_of (dir @ [''objects''])) \<union> set (prefixes_of (dir @ [''packs''])) \<union> set (fs_dirs g)"
    "fs_denied f' = fs_denied g"
    by (rule store_open_ok [OF op t fits, of X])
  have ix: "hm_get (st_pack_index st') = hm_get (st_pack_index st)" and rf: "hm_get (st_refs st') = hm_get (st_refs st)"
    using o(5,6) ls(2) rs(2) by simp_all
  have rg: "reads_grow f f'"
    using reopened_reads [OF g op _ _ o(12,13)] o(9,10) sidecar_content [OF ls(1)] sidecar_content [OF rs(1)] o(7,8) by simp
  have same: "st_packs_dir st' = st_packs_dir st" "\<And>h. path_for X st' h = path_for X st h"
    using lay o(2) by (simp_all add: layout_of_def path_for_def)
  have path: "path_for X st h = dir @ [''objects'', take 2 (to_hex X h), to_hex X h]" for h
    using lay by (simp add: layout_of_def path_for_def Let_def)
  have "packs_sound X st' f'" "refs_sound X st' f'"
    using sound(1,3) reads_hash_grows [OF rg] ix rf same(1) by (simp_all add: packs_sound_def refs_sound_def)
  moreover have "path_for X st h \<notin> set (fs_dirs f')" for h
    using sound(2) g o(12) by (auto simp: objects_sound_def path grows_def set_prefixes_of append_eq_append_conv2
        Cons_eq_append_conv append_eq_Cons_conv)
  then have "objects_sound X st' f'"
    using sound(2) by (simp add: objects_sound_def same(2)) (simp add: path o(11) obj)
  ultimately have inv': "store_inv X dir st' f'" using o(2-4) by (simp add: store_inv_def)
  have "holds X st' f' h = holds X st f h" for h
  proof -
    have eqs: "get_from_pack_index X st' f' h = get_from_pack_index X st f h" "get_reference X st' f' h = get_reference X st f h"
      "hm_get (fs_files f') (path_for X st h) = hm_get (fs_files f) (path_for X st h)"
      using get_from_pack_grows [OF sound(1) rg same(1)] get_reference_grows [OF sound(3) rg] ix rf o(11) obj by (simp_all add: path)
    show ?thesis unfolding holds_parts [OF inv'] holds_parts [OF inv] same(2) ix eqs ..
  qed
  then show ?thesis using that [OF o(1) inv'] by blast
qed

section \<open>A fresh store\<close>

lemma fresh_store:
  assumes op: "openable dir g" and none: "fs_files g = []"
    and dirs: "\<forall>h. dir @ [''objects'', take 2 (to_hex X h), to_hex X h] \<notin> set (fs_dirs g)"
  obtains st f where "store_open X g dir = (Inr st, f)" "store_inv X dir st f" "holds X st f = Map.empty"
proof -
  have t: "torn_sidecar g p [] []" for p by (simp add: torn_sidecar_def none)
  have fits: "fs_fits g" by (simp add: fs_fits_def file_content_def none)
  obtain st f where o: "store_open X g dir = (Inr st, f)" "layout_of dir st" "synced X st f" "accessible dir f"
    "hm_get (st_pack_index st) = hm_get (insert_lines (parse_pack_index_line X) [] [])"
    "hm_get (st_refs st) = hm_get (insert_lines (parse_ref_line X) [] [])"
    "file_content f (dir @ [''packs'', ''index'']) = str_bytes (lines_text [])"
    "file_content f (dir @ [''refs.tsv'']) = str_bytes (lines_text [])"
    "\<forall>p c. p \<noteq> dir @ [''packs'', ''index''] \<longrightarrow> p \<noteq> dir @ [''refs.tsv''] \<longrightarrow> hm_get (fs_files g) p = Some c \<longrightarrow> hm_get (fs_files f) p = Some c"
    "\<forall>p. hm_get (fs_files g) p \<noteq> None \<longrightarrow> hm_get (fs_files f) p \<noteq> None"
    "\<forall>x y. hm_get (fs_files f) (dir @ [''objects'', x, y]) = hm_get (fs_files g) (dir @ [''objects'', x, y])"
    "set (fs_dirs f) = set (prefixes_of (dir @ [''objects''])) \<union> set (prefixes_of (dir @ [''packs''])) \<union> set (fs_dirs g)"
    "fs_denied f = fs_denied g"
    by (rule store_open_ok [OF op t t fits, of X])
  have path: "path_for X st h = dir @ [''objects'', take 2 (to_hex X h), to_hex X h]" for h
    using o(2) by (simp add: layout_of_def path_for_def Let_def)
  have empty: "hm_get (st_pack_index st) h = None" "hm_get (st_refs st) h = None" for h
    using o(5,6) by (simp_all add: insert_lines_def)
  have "path_for X st h \<notin> set (fs_dirs f)" for h
    using dirs o(12) by (auto simp: path set_prefixes_of append_eq_append_conv2 Cons_eq_append_conv append_eq_Cons_conv)
  then have inv: "store_inv X dir st f"
    using o(2-4,11) empty by (simp add: store_inv_def packs_sound_def refs_sound_def objects_sound_def) (simp add: path none)
  have "get_reference X st f h = Inr None" for h by (simp add: get_reference_def empty)
  then have "holds X st f h = None" for h
    using o(11) by (simp add: holds_parts [OF inv] empty path none)
  then show ?thesis using that [OF o(1) inv] by blast
qed

lemma fs_fits_small: "list_all (\<lambda>(p, c). length c \<le> 255) (fs_files f) \<Longrightarrow> fs_fits f"
proof -
  assume small: "list_all (\<lambda>(p, c). length c \<le> 255) (fs_files f)"
  have "length c < 2 ^ 64" if "hm_get (fs_files f) p = Some c" for p c
    using small map_of_SomeD [OF that [unfolded hm_get_def]] by (fastforce simp: list_all_iff)
  then show ?thesis by (auto simp: fs_fits_def file_content_def split: option.split)
qed

definition sample_open :: "(store_error + store) \<times> fs" where
  "sample_open = store_open sample_crates empty_fs [''s'']"

definition sample_store :: store where "sample_store = projr (fst sample_open)"

definition sample_fs :: fs where "sample_fs = snd sample_open"

lemma sample_store_inv: "store_inv sample_crates [''s''] sample_store sample_fs" "holds sample_crates sample_store sample_fs = Map.empty"
proof -
  have "openable [''s''] empty_fs" by (auto simp: openable_def empty_fs_def)
  moreover have "fs_files empty_fs = []" by (simp add: empty_fs_def)
  moreover have "\<forall>h. [''s''] @ [''objects'', take 2 (to_hex sample_crates h), to_hex sample_crates h] \<notin> set (fs_dirs empty_fs)"
    by (simp add: empty_fs_def)
  ultimately obtain st f where o: "sample_open = (Inr st, f)" and "store_inv sample_crates [''s''] st f"
      "holds sample_crates st f = Map.empty"
    unfolding sample_open_def by (rule fresh_store)
  moreover have "sample_store = st" "sample_fs = f" unfolding sample_store_def sample_fs_def o by simp_all
  ultimately show "store_inv sample_crates [''s''] sample_store sample_fs" "holds sample_crates sample_store sample_fs = Map.empty"
    by simp_all
qed

definition sample_put :: "(store_error + hash \<times> bool) \<times> store \<times> fs" where
  "sample_put = put sample_crates sample_store sample_fs [1, 2, 3]"

lemma sample_put_fits: "fs_fits sample_fs" "fs_fits (snd (snd sample_put))"
  by (rule fs_fits_small, code_simp)+

lemma sample_put_result: "fst sample_put = Inr (hash_of (blake3 sample_crates) [1, 2, 3], True)"
  by code_simp

section \<open>Properties\<close>

text \<open>
  C14. Nothing unverified leaves the store: whatever the directory holds (corrupted packs, edited source
  files, a hostile index), bytes that \<open>get\<close> returns for a hash have that hash.
\<close>

theorem store_get_verified:
  assumes "get X st f h = (Inr (Some b), st')"
  shows "hash_of (blake3 X) b = h"
  using get_hash [OF assms] .

theorem store_get_verified_witness:
  "\<exists>b. fst (get sample_crates (fst (snd sample_put)) (snd (snd sample_put)) (hash_of (blake3 sample_crates) [1, 2, 3])) = Inr (Some b)
     \<and> hash_of (blake3 sample_crates) b = hash_of (blake3 sample_crates) [1, 2, 3]"
proof -
  let ?h = "hash_of (blake3 sample_crates) [1, 2, 3]"
  have "fst (get sample_crates (fst (snd sample_put)) (snd (snd sample_put)) ?h) = Inr (Some [1, 2, 3])"
    by code_simp
  then obtain b st' where g: "get sample_crates (fst (snd sample_put)) (snd (snd sample_put)) ?h = (Inr (Some b), st')"
    by (metis prod.collapse)
  from store_get_verified [OF this] show ?thesis using g by auto
qed



text \<open>
  C16. Crash safety: take a store in a good state and any crash that leaves what was written, with torn
  bytes behind the pack files and an unterminated rest in \<open>packs/index\<close> and \<open>refs.tsv\<close>. Opening the
  directory again succeeds, trims the torn lines, and yields a handle in a good state that answers
  every lookup as before the crash. (Without torn bytes this is plain persistence across restarts.)
\<close>

theorem store_survives_crash:
  assumes "store_inv X dir st f" and "crashed dir f g" and "openable dir g" and "fs_fits g"
  shows "\<exists>st' f'. store_open X g dir = (Inr st', f') \<and> store_inv X dir st' f' \<and> holds X st' f' = holds X st f"
  using reopen_after_crash [OF assms] by metis

definition sample_crash :: fs where
  "sample_crash = projr (handle_append (snd (snd sample_put)) [''s'', ''packs'', ''index''] (str_bytes ''0102''))"

lemma crashed_by_append:
  assumes "handle_append f (dir @ [''packs'', ''index'']) (str_bytes part) = Inr g" and "ascii part" "NL \<notin> set part"
  shows "crashed dir f g"
proof -
  note a = handle_append_file [OF assms(1)]
  have "file_content g (dir @ [''packs'', ''index'']) = file_content f (dir @ [''packs'', ''index'']) @ str_bytes part"
    using a by (simp add: file_content_def)
  moreover have "file_content g (dir @ [''refs.tsv'']) = file_content f (dir @ [''refs.tsv'']) @ str_bytes []"
    using a by (simp add: file_content_def same_except_def str_bytes_def)
  moreover have "hm_get (fs_files g) (dir @ [''objects'', x, y]) = hm_get (fs_files f) (dir @ [''objects'', x, y])" for x y
    using a by (simp add: same_except_def)
  moreover have "ascii []" "NL \<notin> set []" by simp_all
  ultimately show ?thesis unfolding crashed_def using a assms(2,3) by blast
qed

lemma sample_crash_state:
  "\<not> fs_denied sample_crash p" "hm_get (fs_files sample_crash) [] = None" "hm_get (fs_files sample_crash) [''s''] = None"
  "hm_get (fs_files sample_crash) [''s'', ''objects''] = None" "hm_get (fs_files sample_crash) [''s'', ''packs''] = None"
  "fs_dirs sample_crash = [[''s'', ''packs''], [''s''], [''s'', ''objects''], []]"
  by code_simp+

theorem store_survives_crash_witness:
  "\<exists>st' f'. store_open sample_crates sample_crash [''s''] = (Inr st', f')
     \<and> holds sample_crates st' f' (hash_of (blake3 sample_crates) [1, 2, 3]) = Some [1, 2, 3]"
proof -
  obtain st f where p: "sample_put = (Inr (hash_of (blake3 sample_crates) [1, 2, 3], True), st, f)"
    using sample_put_result by (metis prod.collapse)
  have fits: "fs_fits f" using sample_put_fits(2) unfolding p by simp
  note ok = put_ok [OF sample_store_inv(1) hex_ok_sample digest_ok_sample _ sample_put_fits(1) fits p [unfolded sample_put_def]]
  have inv: "store_inv sample_crates [''s''] st f"
    and h: "holds sample_crates st f (hash_of (blake3 sample_crates) [1, 2, 3]) = Some [1, 2, 3]"
    using ok(2,4) by simp_all
  have "handle_append f [''s'', ''packs'', ''index''] (str_bytes ''0102'') = Inr sample_crash"
    using inv unfolding sample_crash_def p by (simp add: handle_append_def store_inv_def accessible_def)
  then have cr: "crashed [''s''] f sample_crash" by (intro crashed_by_append [of f "[''s'']" "''0102''"]) (simp_all add: NL_def)
  moreover have "openable [''s''] sample_crash"
    unfolding openable_def using sample_crash_state by auto
  moreover have "fs_fits sample_crash" by (rule fs_fits_small) code_simp
  ultimately obtain st' f' where "store_open sample_crates sample_crash [''s''] = (Inr st', f')"
    "holds sample_crates st' f' = holds sample_crates st f"
    using store_survives_crash [OF inv] by blast
  then show ?thesis using h by metis
qed

end
