(* ===== verification/Store_Clients.thy ===== *)
theory Store_Clients
  imports Store
begin

text \<open>
  Packing into and exporting out of the store (the second half of \<open>crates/np2ptp-store/src/lib.rs\<close>): the
  in-memory and the streaming ingest paths, exports to a stream, to memory and to a directory. The
  locale \<open>chunk_store\<close> states what these clients rely on; \<open>Store\<close> provides it. Progress callbacks are
  returned as the list of their calls; the sink of \<open>export_to\<close> is the byte string written to it.
\<close>

section \<open>In-memory ingest and export\<close>

text \<open>A loop of \<open>self.put(block)?\<close> over blocks in order.\<close>

fun put_each :: "('s \<Rightarrow> bytes \<Rightarrow> ('e + 'a) \<times> 's) \<Rightarrow> 's \<Rightarrow> bytes list \<Rightarrow> ('e + unit) \<times> 's" where
  "put_each put_op s [] = (Inr (), s)"
| "put_each put_op s (b # bs) =
     (case put_op s b of (Inl e, s') \<Rightarrow> (Inl e, s') | (Inr _, s') \<Rightarrow> put_each put_op s' bs)"

definition put_in :: "crates \<Rightarrow> store \<times> fs \<Rightarrow> bytes \<Rightarrow> (store_error + hash \<times> bool) \<times> store \<times> fs" where
  "put_in X s b = put X (fst s) (snd s) b"

definition ingest :: "crates \<Rightarrow> store \<Rightarrow> fs \<Rightarrow> bytes \<Rightarrow> string option \<Rightarrow> (store_error + manifest) \<times> store \<times> fs" where
  "ingest X st f data name =
     (let m = from_bytes X data name;
          blocks = map (\<lambda>c. slice data (unat (cref_offset c)) (unat (cref_offset c) + unat (cref_length c))) (m_chunks m)
      in case put_each (put_in X) (st, f) blocks of
        (Inl e, s) \<Rightarrow> (Inl e, s) | (Inr _, s) \<Rightarrow> (Inr m, s))"

text \<open>The closure of the exports: a store error is remembered and reported as an absent chunk.\<close>

definition store_fetch :: "crates \<Rightarrow> fs \<Rightarrow> (store \<times> store_error option) fetcher" where
  "store_fetch X f h s =
     (case get X (fst s) f h of
        (Inr opt, st') \<Rightarrow> (opt, (st', snd s))
      | (Inl e, st') \<Rightarrow> (None, (st', Some e)))"

definition export_result :: "(manifest_error + 'a) \<times> store \<times> store_error option \<Rightarrow> (store_error + 'a) \<times> store" where
  "export_result r =
     (case r of (res, st', err) \<Rightarrow>
        (case err of
           Some e \<Rightarrow> (Inl e, st')
         | None \<Rightarrow> (case res of Inl e \<Rightarrow> (Inl (Manifest e), st') | Inr a \<Rightarrow> (Inr a, st'))))"

definition export :: "crates \<Rightarrow> store \<Rightarrow> fs \<Rightarrow> manifest \<Rightarrow> (store_error + bytes) \<times> store" where
  "export X st f m = export_result (reconstruct X m (store_fetch X f) (st, None))"

definition export_tree :: "crates \<Rightarrow> store \<Rightarrow> fs \<Rightarrow> manifest \<Rightarrow> (store_error + (string \<times> bytes) list) \<times> store" where
  "export_tree X st f m = export_result (reconstruct_files X m (store_fetch X f) (st, None))"

text \<open>The blocks of one file, cut by the lengths of its chunks from the running position on.\<close>

fun cut_blocks :: "bytes \<Rightarrow> nat \<Rightarrow> chunk_ref list \<Rightarrow> bytes list" where
  "cut_blocks data local [] = []"
| "cut_blocks data local (c # cs) =
     slice data local (local + unat (cref_length c)) # cut_blocks data (local + unat (cref_length c)) cs"

definition ingest_tree :: "crates \<Rightarrow> store \<Rightarrow> fs \<Rightarrow> (string \<times> bytes) list \<Rightarrow> string option
    \<Rightarrow> (store_error + manifest) \<times> store \<times> fs" where
  "ingest_tree X st f files name =
     (let m = from_files X files name;
          blocks = concat (map (\<lambda>(entry, (_, data)).
            cut_blocks data 0 (slice (m_chunks m) (unat (fe_chunk_start entry)) (unat (fe_chunk_start entry + fe_chunk_count entry))))
            (zip (m_files m) files))
      in case put_each (put_in X) (st, f) blocks of
        (Inl e, s) \<Rightarrow> (Inl e, s) | (Inr _, s) \<Rightarrow> (Inr m, s))"

section \<open>Streaming ingest\<close>

type_synonym progress = "(u64 \<times> u64 \<times> bool) list"

text \<open>\<open>fs::canonicalize\<close>: the location of an existing path.\<close>

definition canonicalize :: "fs \<Rightarrow> path \<Rightarrow> io_error + path" where
  "canonicalize f p = (if fs_denied f p then Inl PermissionDenied else if fs_exists f p then Inr p else Inl NotFound)"

definition ingest_chunk :: "crates \<Rightarrow> store \<Rightarrow> fs \<Rightarrow> path option \<Rightarrow> u64 \<Rightarrow> bytes \<Rightarrow> (store_error + hash \<times> bool) \<times> store \<times> fs" where
  "ingest_chunk X st f source offset data =
     (case source of
        Some src \<Rightarrow>
          let h = hash_of (blake3 X) data in
          (case has X st f h of (known, st1) \<Rightarrow>
             (case add_reference X st1 f h src offset (of_nat (length data)) of
                (Inl e, st2, f2) \<Rightarrow> (Inl (Io e), st2, f2)
              | (Inr _, st2, f2) \<Rightarrow> (Inr (h, \<not> known), st2, f2)))
      | None \<Rightarrow> put X st f data)"

fun stream_loop :: "crates \<Rightarrow> (string + bytes) list \<Rightarrow> path option \<Rightarrow> u64 \<Rightarrow> chunk_ref list \<Rightarrow> u64 \<Rightarrow> progress \<Rightarrow> store \<Rightarrow> fs
    \<Rightarrow> (store_error + chunk_ref list \<times> u64) \<times> progress \<times> store \<times> fs" where
  "stream_loop X [] source tot refs offset prog st f = (Inr (refs, offset), prog, st, f)"
| "stream_loop X (Inl e # items) source tot refs offset prog st f = (Inl (Io (OtherIo e)), prog, st, f)"
| "stream_loop X (Inr data # items) source tot refs offset prog st f =
     (case ingest_chunk X st f source offset data of
        (Inl e, st', f') \<Rightarrow> (Inl e, prog, st', f')
      | (Inr (h, is_new), st', f') \<Rightarrow>
          let len = of_nat (length data) :: u32; offset' = offset + ucast len in
          stream_loop X items source tot (refs @ [\<lparr>cref_hash = h, cref_offset = offset, cref_length = len\<rparr>]) offset'
            (prog @ [(offset', tot, is_new)]) st' f')"

definition ingest_file_streaming_impl :: "crates \<Rightarrow> store \<Rightarrow> fs \<Rightarrow> path \<Rightarrow> bool
    \<Rightarrow> (store_error + chunk_ref list \<times> u64) \<times> progress \<times> store \<times> fs" where
  "ingest_file_streaming_impl X st f p no_copy =
     (case (if no_copy then (case canonicalize f p of Inl e \<Rightarrow> Inl e | Inr s \<Rightarrow> Inr (Some s)) else Inr None) of
        Inl e \<Rightarrow> (Inl (Io e), [], st, f)
      | Inr source \<Rightarrow> (case fs_len f p of
          Inl e \<Rightarrow> (Inl (Io e), [], st, f)
        | Inr tot \<Rightarrow> (case fs_read f p of
            Inl e \<Rightarrow> (Inl (Io e), [], st, f)
          | Inr content \<Rightarrow>
              stream_loop X (streamcdc X content MIN_CHUNK AVG_CHUNK MAX_CHUNK) source (of_nat tot) [] 0 [] st f)))"

definition ingest_file_streaming :: "crates \<Rightarrow> store \<Rightarrow> fs \<Rightarrow> path \<Rightarrow> (store_error + chunk_ref list \<times> u64) \<times> progress \<times> store \<times> fs" where
  "ingest_file_streaming X st f p = ingest_file_streaming_impl X st f p False"

definition ingest_file_streaming_no_copy :: "crates \<Rightarrow> store \<Rightarrow> fs \<Rightarrow> path \<Rightarrow> (store_error + chunk_ref list \<times> u64) \<times> progress \<times> store \<times> fs" where
  "ingest_file_streaming_no_copy X st f p = ingest_file_streaming_impl X st f p True"

definition tree_total :: "fs \<Rightarrow> (string \<times> path) list \<Rightarrow> u64" where
  "tree_total f files = sum_list (map (\<lambda>(_, p). case fs_len f p of Inl _ \<Rightarrow> 0 | Inr n \<Rightarrow> of_nat n) files)"

fun tree_files_loop :: "crates \<Rightarrow> (string \<times> path) list \<Rightarrow> bool \<Rightarrow> u64 \<Rightarrow> chunk_ref list \<Rightarrow> file_entry list \<Rightarrow> u64 \<Rightarrow> progress
    \<Rightarrow> store \<Rightarrow> fs \<Rightarrow> (store_error + chunk_ref list \<times> file_entry list \<times> u64) \<times> progress \<times> store \<times> fs" where
  "tree_files_loop X [] no_copy tot chunks entries glob prog st f = (Inr (chunks, entries, glob), prog, st, f)"
| "tree_files_loop X ((rel, disk) # files) no_copy tot chunks entries glob prog st f =
     (case ingest_file_streaming_impl X st f disk no_copy of
        (r, fprog, st', f') \<Rightarrow>
          let prog' = prog @ map (\<lambda>(done, _, is_new). (glob + done, tot, is_new)) fprog in
          (case r of
             Inl e \<Rightarrow> (Inl e, prog', st', f')
           | Inr (refs, fsize) \<Rightarrow>
               let chunk_start = length chunks;
                   chunks' = chunks @ map (\<lambda>r. r\<lparr>cref_offset := glob + cref_offset r\<rparr>) refs;
                   entry = \<lparr>fe_path = rel, fe_size = fsize, fe_chunk_start = of_nat chunk_start, fe_chunk_count = of_nat (length refs)\<rparr>
               in tree_files_loop X files no_copy tot chunks' (entries @ [entry]) (glob + fsize) prog' st' f'))"

definition ingest_tree_files_impl :: "crates \<Rightarrow> store \<Rightarrow> fs \<Rightarrow> (string \<times> path) list \<Rightarrow> string option \<Rightarrow> bool
    \<Rightarrow> (store_error + manifest) \<times> progress \<times> store \<times> fs" where
  "ingest_tree_files_impl X st f files name no_copy =
     (case tree_files_loop X files no_copy (tree_total f files) [] [] 0 [] st f of
        (Inl e, prog, st', f') \<Rightarrow> (Inl e, prog, st', f')
      | (Inr (chunks, entries, glob), prog, st', f') \<Rightarrow>
          (Inr \<lparr>m_root = merkle_root (blake3 X) (map cref_hash chunks), m_total_size = glob, m_chunks = chunks,
                m_files = entries, m_name = name\<rparr>, prog, st', f'))"

definition ingest_tree_files_with_progress :: "crates \<Rightarrow> store \<Rightarrow> fs \<Rightarrow> (string \<times> path) list \<Rightarrow> string option
    \<Rightarrow> (store_error + manifest) \<times> progress \<times> store \<times> fs" where
  "ingest_tree_files_with_progress X st f files name = ingest_tree_files_impl X st f files name False"

definition ingest_tree_files_no_copy_with_progress :: "crates \<Rightarrow> store \<Rightarrow> fs \<Rightarrow> (string \<times> path) list \<Rightarrow> string option
    \<Rightarrow> (store_error + manifest) \<times> progress \<times> store \<times> fs" where
  "ingest_tree_files_no_copy_with_progress X st f files name = ingest_tree_files_impl X st f files name True"

definition ingest_tree_files :: "crates \<Rightarrow> store \<Rightarrow> fs \<Rightarrow> (string \<times> path) list \<Rightarrow> string option
    \<Rightarrow> (store_error + manifest) \<times> store \<times> fs" where
  "ingest_tree_files X st f files name = (case ingest_tree_files_impl X st f files name False of (r, _, s) \<Rightarrow> (r, s))"

definition ingest_tree_files_no_copy :: "crates \<Rightarrow> store \<Rightarrow> fs \<Rightarrow> (string \<times> path) list \<Rightarrow> string option
    \<Rightarrow> (store_error + manifest) \<times> store \<times> fs" where
  "ingest_tree_files_no_copy X st f files name = (case ingest_tree_files_impl X st f files name True of (r, _, s) \<Rightarrow> (r, s))"

section \<open>Streaming export\<close>

text \<open>\<open>self.get(&h)?.ok_or(Missing)?\<close> and the content check, for the chunk at an index.\<close>

definition export_chunk :: "crates \<Rightarrow> store \<Rightarrow> fs \<Rightarrow> manifest \<Rightarrow> nat \<Rightarrow> chunk_ref \<Rightarrow> (store_error + bytes) \<times> store" where
  "export_chunk X st f m i cref =
     (case get X st f (cref_hash cref) of
        (Inl e, st') \<Rightarrow> (Inl e, st')
      | (Inr None, st') \<Rightarrow> (Inl (Missing (cref_hash cref)), st')
      | (Inr (Some b), st') \<Rightarrow> if \<not> chunk_hash_ok X m i b then (Inl (Corrupt (cref_hash cref)), st') else (Inr b, st'))"

fun export_loop :: "crates \<Rightarrow> fs \<Rightarrow> manifest \<Rightarrow> nat \<Rightarrow> nat \<Rightarrow> chunk_ref list \<Rightarrow> bytes \<Rightarrow> (nat \<times> nat) list \<Rightarrow> store
    \<Rightarrow> (store_error + unit) \<times> bytes \<times> (nat \<times> nat) list \<times> store" where
  "export_loop X f m tot i [] w prog st = (Inr (), w, prog, st)"
| "export_loop X f m tot i (cref # crefs) w prog st =
     (case export_chunk X st f m i cref of
        (Inl e, st') \<Rightarrow> (Inl e, w, prog, st')
      | (Inr b, st') \<Rightarrow> export_loop X f m tot (Suc i) crefs (w @ b) (prog @ [(i + 1, tot)]) st')"

definition export_to_with_progress :: "crates \<Rightarrow> store \<Rightarrow> fs \<Rightarrow> manifest \<Rightarrow> (store_error + unit) \<times> bytes \<times> (nat \<times> nat) list \<times> store" where
  "export_to_with_progress X st f m =
     (if \<not> root_is_consistent X m then (Inl (Corrupt (m_root m)), [], [], st)
      else export_loop X f m (length (m_chunks m)) 0 (m_chunks m) [] [] st)"

definition export_to :: "crates \<Rightarrow> store \<Rightarrow> fs \<Rightarrow> manifest \<Rightarrow> (store_error + unit) \<times> bytes \<times> store" where
  "export_to X st f m = (case export_to_with_progress X st f m of (r, w, _, st') \<Rightarrow> (r, w, st'))"

fun dir_chunks :: "crates \<Rightarrow> manifest \<Rightarrow> path \<Rightarrow> nat \<Rightarrow> nat \<Rightarrow> nat \<Rightarrow> (nat \<times> nat) list \<Rightarrow> store \<Rightarrow> fs
    \<Rightarrow> (store_error + unit) \<times> nat \<times> (nat \<times> nat) list \<times> store \<times> fs" where
  "dir_chunks X m dest ci 0 done prog st f = (Inr (), done, prog, st, f)"
| "dir_chunks X m dest ci (Suc n) done prog st f =
     (case nth_opt (m_chunks m) ci of
        None \<Rightarrow> (Inl (Corrupt (m_root m)), done, prog, st, f)
      | Some cref \<Rightarrow> (case export_chunk X st f m ci cref of
          (Inl e, st') \<Rightarrow> (Inl e, done, prog, st', f)
        | (Inr b, st') \<Rightarrow> (case handle_append f dest b of
            Inl e \<Rightarrow> (Inl (Io e), done, prog, st', f)
          | Inr f' \<Rightarrow> dir_chunks X m dest (Suc ci) n (done + 1) (prog @ [(done + 1, length (m_chunks m))]) st' f')))"

text \<open>\<open>File::create(&dest)\<close>: a path that ends in a separator cannot be created as a file.\<close>

definition create_file :: "fs \<Rightarrow> path \<Rightarrow> string \<Rightarrow> io_error + fs" where
  "create_file f dest rel = (if names_directory rel then Inl IsADirectory else fs_write f dest [])"

fun dir_files :: "crates \<Rightarrow> manifest \<Rightarrow> path \<Rightarrow> file_entry list \<Rightarrow> nat \<Rightarrow> (nat \<times> nat) list \<Rightarrow> store \<Rightarrow> fs
    \<Rightarrow> (store_error + unit) \<times> (nat \<times> nat) list \<times> store \<times> fs" where
  "dir_files X m out_dir [] done prog st f = (Inr (), prog, st, f)"
| "dir_files X m out_dir (entry # rest) done prog st f =
     (if validate_relative_path (fe_path entry) \<noteq> Inr () then (Inl (UnsafePath (fe_path entry)), prog, st, f)
      else let dest = join_relative out_dir (fe_path entry) in
        case fs_create_dir_all f (butlast dest) of
          Inl e \<Rightarrow> (Inl (Io e), prog, st, f)
        | Inr f1 \<Rightarrow> (case create_file f1 dest (fe_path entry) of
            Inl e \<Rightarrow> (Inl (Io e), prog, st, f1)
          | Inr f2 \<Rightarrow> (case dir_chunks X m dest (unat (fe_chunk_start entry)) (entry_range entry) done prog st f2 of
              (Inl e, _, prog', st', f3) \<Rightarrow> (Inl e, prog', st', f3)
            | (Inr _, done', prog', st', f3) \<Rightarrow> dir_files X m out_dir rest done' prog' st' f3)))"

definition export_tree_to_dir_with_progress :: "crates \<Rightarrow> store \<Rightarrow> fs \<Rightarrow> manifest \<Rightarrow> path
    \<Rightarrow> (store_error + unit) \<times> (nat \<times> nat) list \<times> store \<times> fs" where
  "export_tree_to_dir_with_progress X st f m out_dir =
     (if \<not> root_is_consistent X m then (Inl (Corrupt (m_root m)), [], st, f)
      else dir_files X m out_dir (m_files m) 0 [] st f)"

definition export_tree_to_dir :: "crates \<Rightarrow> store \<Rightarrow> fs \<Rightarrow> manifest \<Rightarrow> path \<Rightarrow> (store_error + unit) \<times> store \<times> fs" where
  "export_tree_to_dir X st f m out_dir =
     (case export_tree_to_dir_with_progress X st f m out_dir of (r, _, s) \<Rightarrow> (r, s))"

section \<open>The contract of a chunk store\<close>

text \<open>
  What the packing clients rely on. \<open>fits\<close> is the physical bound on the medium, \<open>small\<close> the size of a
  block; \<open>lookup\<close> is what reads answer.
\<close>

locale chunk_store =
  fixes inv :: "'s \<Rightarrow> bool"
    and fits :: "'s \<Rightarrow> bool"
    and lookup :: "'s \<Rightarrow> hash \<Rightarrow> bytes option"
    and put_op :: "'s \<Rightarrow> bytes \<Rightarrow> ('e + hash \<times> bool) \<times> 's"
    and digest :: "bytes \<Rightarrow> hash"
    and small :: "bytes \<Rightarrow> bool"
  assumes fits_back: "put_op s b = (r, s') \<Longrightarrow> fits s' \<Longrightarrow> fits s"
    and fail_law: "inv s \<Longrightarrow> fits s \<Longrightarrow> put_op s b = (Inl e, s') \<Longrightarrow> inv s' \<and> lookup s' = lookup s"
    and put_law: "inv s \<Longrightarrow> small b \<Longrightarrow> fits s \<Longrightarrow> fits s' \<Longrightarrow> put_op s b = (Inr (h, new), s') \<Longrightarrow>
      h = digest b \<and> inv s' \<and> (new \<longleftrightarrow> lookup s h = None) \<and> lookup s' = (if new then (lookup s)(h \<mapsto> b) else lookup s)"
begin

lemma put_each_fits: "put_each put_op s bs = (r, s') \<Longrightarrow> fits s' \<Longrightarrow> fits s"
proof (induction bs arbitrary: s)
  case (Cons b bs)
  obtain r1 s1 where p: "put_op s b = (r1, s1)" by force
  then have "fits s1" using Cons by (cases r1) auto
  then show ?case using fits_back [OF p] by simp
qed simp

text \<open>
  A run of puts, ended by an error or not, leaves the store in good state with everything it held and nothing
  but blocks of the run added; without an error every block is held.
\<close>

lemma put_each_any:
  "inv s \<Longrightarrow> list_all small bs \<Longrightarrow> put_each put_op s bs = (r, s') \<Longrightarrow> fits s' \<Longrightarrow>
   inv s' \<and> lookup s \<subseteq>\<^sub>m lookup s' \<and> (r = Inr () \<longrightarrow> (\<forall>b \<in> set bs. lookup s' (digest b) \<noteq> None))
   \<and> (\<forall>h b. lookup s' h = Some b \<longrightarrow> lookup s h = Some b \<or> b \<in> set bs \<and> h = digest b)"
proof (induction bs arbitrary: s)
  case (Cons b bs)
  obtain r1 s1 where p: "put_op s b = (r1, s1)" by force
  show ?case
  proof (cases r1)
    case (Inl e)
    then have "s' = s1" "r \<noteq> Inr ()" using Cons.prems(3) p by auto
    then show ?thesis using fail_law [of s b e s1] fits_back [OF p] Cons.prems(1,4) p Inl by simp
  next
    case (Inr hn)
    obtain h new where hn: "hn = (h, new)" by (cases hn)
    have rest: "put_each put_op s1 bs = (r, s')" using Cons.prems(3) p Inr by simp
    have f1: "fits s1" using put_each_fits [OF rest Cons.prems(4)] .
    have l: "h = digest b \<and> inv s1 \<and> (new \<longleftrightarrow> lookup s h = None) \<and> lookup s1 = (if new then (lookup s)(h \<mapsto> b) else lookup s)"
      using Cons.prems(1,2) fits_back [OF p f1] f1 p Inr hn by (intro put_law) simp_all
    then have IH: "inv s' \<and> lookup s1 \<subseteq>\<^sub>m lookup s' \<and> (r = Inr () \<longrightarrow> (\<forall>b \<in> set bs. lookup s' (digest b) \<noteq> None))
        \<and> (\<forall>h b. lookup s' h = Some b \<longrightarrow> lookup s1 h = Some b \<or> b \<in> set bs \<and> h = digest b)"
      using Cons.IH [OF _ _ rest Cons.prems(4)] Cons.prems(2) by simp
    have "lookup s \<subseteq>\<^sub>m lookup s1" using l by (auto simp: map_le_def)
    then have le: "lookup s \<subseteq>\<^sub>m lookup s'" using IH map_le_trans by blast
    have "lookup s1 (digest b) \<noteq> None" using l by (cases new) auto
    then have "lookup s' (digest b) \<noteq> None" using IH by (auto simp: map_le_def dom_def)
    moreover have "lookup s k = Some c \<or> c \<in> set (b # bs) \<and> k = digest c" if "lookup s' k = Some c" for k c
      using IH l that by (fastforce split: if_splits)
    ultimately show ?thesis using IH le by auto
  qed
qed simp

lemmas put_each_law = put_each_any [where r = "Inr ()", simplified]

lemma put_each_exact:
  assumes "inv s" "list_all small bs" "put_each put_op s bs = (Inr (), s')" "fits s'"
    and "inj_on digest (set bs)" and "\<And>b c. b \<in> set bs \<Longrightarrow> lookup s (digest b) = Some c \<Longrightarrow> c = b"
  shows "b \<in> set bs \<Longrightarrow> lookup s' (digest b) = Some b"
proof -
  assume b: "b \<in> set bs"
  note l = put_each_law [OF assms(1-4)]
  then obtain c where c: "lookup s' (digest b) = Some c" using b by fastforce
  then have "lookup s (digest b) = Some c \<or> c \<in> set bs \<and> digest b = digest c" using l by blast
  then have "c = b" using assms(5,6) b by (auto dest: inj_onD)
  with c show ?thesis by simp
qed

end

subsection \<open>The store provides it\<close>

lemma grows_fits: "grows f f' \<Longrightarrow> fs_fits f' \<Longrightarrow> fs_fits f"
proof -
  assume g: "grows f f'" and fits: "fs_fits f'"
  have "length c < 2 ^ 64" if c: "hm_get (fs_files f) p = Some c" for p c
  proof -
    obtain d where "hm_get (fs_files f') p = Some (c @ d)" using g c by (auto simp: grows_def)
    from fs_fits_get [OF fits this] show ?thesis by simp
  qed
  then show ?thesis by (auto simp: fs_fits_def file_content_def split: option.split)
qed

lemma pack_rotate_grows: "pack_rotate ps f packs = (r, ps', f') \<Longrightarrow> grows f f'"
  by (auto simp: pack_rotate_def Let_def split: if_splits sum.splits dest: fs_create_append_grows)

lemma pack_write_grows:
  assumes "pack_write ps f packs b = (r, ps', f')"
  shows "grows f f'"
proof -
  obtain r1 ps1 f1 where rot: "pack_rotate ps f packs = (r1, ps1, f1)" by (metis prod_cases3)
  note g1 = pack_rotate_grows [OF rot]
  show ?thesis
  proof (cases "\<exists>f2. r1 = Inr () \<and> acquire_write_guard f1 (packs @ [WRITE_GUARD_NAME]) = Inr f2")
    case False
    then have "f' = f1" using assms rot by (auto simp: pack_write_def split: sum.splits)
    with g1 show ?thesis by simp
  next
    case True
    then obtain f2 where f2: "r1 = Inr ()" "acquire_write_guard f1 (packs @ [WRITE_GUARD_NAME]) = Inr f2" by blast
    then have g2: "grows f f2" using g1 fs_create_append_grows grows_trans by (auto simp: acquire_write_guard_def)
    have "f' = f2 \<or> handle_append f2 (current_file ps1) b = Inr f'"
      using assms rot f2 by (auto simp: pack_write_def Let_def split: sum.splits)
    then show ?thesis using g2 handle_append_file grows_trans by blast
  qed
qed

lemma put_new_grows:
  assumes "put_new X st f h b = (r, st', f')"
  shows "grows f f'"
proof -
  obtain r1 ps f1 where pw: "pack_write (st_pack_state st) f (st_packs_dir st) b = (r1, ps, f1)" by (metis prod_cases3)
  have "f' = f1 \<or> (\<exists>l. fs_append f1 (st_pack_index_path st) l = Inr f')"
    using assms pw by (auto simp: put_new_def append_pack_index_line_def Let_def split: sum.splits prod.splits)
  then show ?thesis using pack_write_grows [OF pw] fs_append_grows grows_trans by blast
qed

lemma put_grows: "put X st f b = (r, st', f') \<Longrightarrow> grows f f'"
  by (auto simp: put_def Let_def split: prod.splits bool.splits if_splits dest: put_new_grows)

interpretation cs: chunk_store
  "\<lambda>s. hex_ok X \<and> digest_ok X \<and> store_inv X dir (fst s) (snd s)" "\<lambda>s. fs_fits (snd s)"
  "\<lambda>s. holds X (fst s) (snd s)" "put_in X" "hash_of (blake3 X)" "\<lambda>b. length b < 2 ^ 32"
  for X :: crates and dir :: path
proof unfold_locales
  fix s s' :: "store \<times> fs" and b and r :: "store_error + hash \<times> bool"
  assume "put_in X s b = (r, s')" "fs_fits (snd s')"
  then show "fs_fits (snd s)"
    using grows_fits [OF put_grows [of X "fst s" "snd s" b r "fst s'" "snd s'"]] by (simp add: put_in_def)
next
  fix s s' :: "store \<times> fs" and b and e :: store_error
  assume "hex_ok X \<and> digest_ok X \<and> store_inv X dir (fst s) (snd s)" "fs_fits (snd s)" "put_in X s b = (Inl e, s')"
  then show "(hex_ok X \<and> digest_ok X \<and> store_inv X dir (fst s') (snd s')) \<and> holds X (fst s') (snd s') = holds X (fst s) (snd s)"
    using put_fail [of X dir "fst s" "snd s" b e "fst s'" "snd s'"] by (auto simp: put_in_def)
next
  fix s s' :: "store \<times> fs" and b h new
  assume "hex_ok X \<and> digest_ok X \<and> store_inv X dir (fst s) (snd s)" "length b < 2 ^ 32" "fs_fits (snd s)" "fs_fits (snd s')"
    "put_in X s b = (Inr (h, new), s')"
  then show "h = hash_of (blake3 X) b \<and> (hex_ok X \<and> digest_ok X \<and> store_inv X dir (fst s') (snd s'))
      \<and> (new \<longleftrightarrow> holds X (fst s) (snd s) h = None)
      \<and> holds X (fst s') (snd s') = (if new then (holds X (fst s) (snd s))(h \<mapsto> b) else holds X (fst s) (snd s))"
    using put_ok [of X dir "fst s" "snd s" b "snd s'" h new "fst s'"] by (auto simp: put_in_def)
qed

section \<open>Round trips\<close>

lemma cut_blocks_pieces:
  "map (\<lambda>c. unat (cref_length c)) cs = map length ps \<Longrightarrow> data = pre @ concat ps \<Longrightarrow> cut_blocks data (length pre) cs = ps"
proof (induction cs arbitrary: ps pre)
  case (Cons c cs)
  then obtain p ps' where ps: "ps = p # ps'" by (cases ps) auto
  with Cons.prems have c: "unat (cref_length c) = length p" and cs: "map (\<lambda>c. unat (cref_length c)) cs = map length ps'"
    by simp_all
  have "cut_blocks data (length (pre @ p)) cs = ps'"
    using Cons.prems(2) ps by (intro Cons.IH [OF cs]) simp
  then show ?case using Cons.prems(2) ps c by (simp add: slice_def)
qed simp

lemma tree_blocks:
  "default_cdc X \<Longrightarrow> n + files_size fs < 2 ^ 64 \<Longrightarrow> chunks = pre @ refs_of X off fs \<Longrightarrow> n = length pre \<Longrightarrow>
   concat (map (\<lambda>(entry, (_, data)).
       cut_blocks data 0 (slice chunks (unat (fe_chunk_start entry)) (unat (fe_chunk_start entry + fe_chunk_count entry))))
     (zip (entries_of X n fs) fs)) = concat (map (\<lambda>f. pieces X (snd f)) fs)"
proof (induction X off fs arbitrary: n pre rule: refs_of.induct)
  case (2 X off p d fs)
  let ?k = "length (chunk X d)" and ?r = "map (span_ref off) (chunk X d)"
  note ok = pieces_ok [OF "2.prems"(1)]
  have u: "unat (of_nat n :: usize) = n" "unat (of_nat n + of_nat ?k :: usize) = n + ?k"
    using ok(4) [of d] "2.prems"(2) by (simp_all add: unat_of_nat take_bit_nat_eq_self unat_word_ariths)
  have sl: "slice chunks n (n + ?k) = ?r" using "2.prems"(3,4) by (simp add: slice_def)
  have "cut_blocks d (length ([] :: bytes)) ?r = pieces X d"
    using ok(1,3) [of d] by (intro cut_blocks_pieces) (simp_all add: comp_def)
  moreover have "concat (map (\<lambda>(entry, (_, data)).
       cut_blocks data 0 (slice chunks (unat (fe_chunk_start entry)) (unat (fe_chunk_start entry + fe_chunk_count entry))))
     (zip (entries_of X (n + ?k) fs) fs)) = concat (map (\<lambda>f. pieces X (snd f)) fs)"
    using "2.prems" ok(4) [of d] by (intro "2.IH" [of _ "pre @ ?r"]) simp_all
  ultimately show ?case by (simp add: u sl)
qed simp

lemma pieces_small: "default_cdc X \<Longrightarrow> b \<in> set (pieces X d) \<Longrightarrow> length b < 2 ^ 32"
proof -
  assume ok: "default_cdc X" and b: "b \<in> set (pieces X d)"
  then have "length b \<in> set (map (\<lambda>s. unat (span_length s)) (chunk X d))" unfolding pieces_ok(3) [OF ok] by simp
  then show ?thesis using u32_bound by auto
qed

lemma pure_fetch_state: "snd (file_chunks_loop X m (pure_fetch src) ci n acc s) = s"
  by (induction n arbitrary: ci acc) (auto split: option.split)

lemma fetch_fixed_chunks:
  "(\<And>h. fetch h s = (src h, s)) \<Longrightarrow> file_chunks_loop X m fetch ci n acc s = file_chunks_loop X m (pure_fetch src) ci n acc s"
  by (induction n arbitrary: ci acc) (auto split: option.split)

lemma fetch_fixed_files:
  "(\<And>h. fetch h s = (src h, s)) \<Longrightarrow> reconstruct_files_loop X m fetch es s = reconstruct_files_loop X m (pure_fetch src) es s"
proof (induction es)
  case (Cons e es)
  note c = fetch_fixed_chunks [of fetch s src X m "unat (fe_chunk_start e)" "entry_range e" "[]", OF Cons.prems]
  obtain r where r: "file_chunks_loop X m fetch (unat (fe_chunk_start e)) (entry_range e) [] s = (r, s)"
    using c pure_fetch_state by (metis prod.collapse)
  with c Cons show ?case by (auto split: sum.splits prod.splits)
qed simp

lemma store_fetch_inv: "store_inv X dir st f \<Longrightarrow> store_fetch X f h (st, err) = (holds X st f h, (st, err))"
  by (simp add: store_fetch_def get_synced)

lemma ingest_tree_export_tree:
  assumes inv: "store_inv X dir st f" and X: "hex_ok X" "digest_ok X" "default_cdc X" and size: "files_size fs < 2 ^ 64"
    and ing: "ingest_tree X st f fs name = (Inr m, st', f')" and fits: "fs_fits f'"
    and inj: "inj_on (blake3 X) (set (concat (map (\<lambda>f. pieces X (snd f)) fs)))"
    and clean: "\<And>b c. b \<in> set (concat (map (\<lambda>f. pieces X (snd f)) fs)) \<Longrightarrow> holds X st f (hash_of (blake3 X) b) = Some c \<Longrightarrow> c = b"
  shows "m = from_files X fs name" "store_inv X dir st' f'" "export_tree X st' f' m = (Inr fs, st')"
    "holds X st f \<subseteq>\<^sub>m holds X st' f'"
proof -
  let ?bs = "concat (map (\<lambda>f. pieces X (snd f)) fs)"
  have blocks: "concat (map (\<lambda>(entry, (_, data)).
       cut_blocks data 0 (slice (m_chunks (from_files X fs name)) (unat (fe_chunk_start entry)) (unat (fe_chunk_start entry + fe_chunk_count entry))))
     (zip (m_files (from_files X fs name)) fs)) = ?bs"
    unfolding from_files_fields using X(3) size by (intro tree_blocks [where pre = "[]" and off = 0]) simp_all
  then have p: "put_each (put_in X) (st, f) ?bs = (Inr (), (st', f'))" and m: "m = from_files X fs name"
    using ing unfolding ingest_tree_def Let_def blocks by (auto split: prod.splits sum.splits)
  show "m = from_files X fs name" by (rule m)
  have small: "list_all (\<lambda>b. length b < 2 ^ 32) ?bs" using pieces_small [OF X(3)] by (auto simp: list_all_iff)
  have pre: "hex_ok X \<and> digest_ok X \<and> store_inv X dir (fst (st, f)) (snd (st, f))" using X inv by simp
  have injh: "inj_on (hash_of (blake3 X)) (set ?bs)" using inj by (auto simp: inj_on_def hash_of_def)
  note law = cs.put_each_law [of X dir "(st, f)" ?bs "(st', f')", OF pre small p]
  show inv': "store_inv X dir st' f'" and "holds X st f \<subseteq>\<^sub>m holds X st' f'" using law fits by simp_all
  have "holds X st' f' (hash_of (blake3 X) b) = Some b" if "b \<in> set ?bs" for b
    using cs.put_each_exact [of X dir "(st, f)" ?bs "(st', f')", OF pre small p _ injh _ that] fits clean by simp
  then have "serves X fs (holds X st' f')" by (fastforce simp: serves_def list_all_iff)
  from files_loop_serves [OF X(3) _ this, of 0 m "[]" 0 "(st', None :: store_error option)"] size
  have "reconstruct_files_loop X m (pure_fetch (holds X st' f')) (m_files m) (st', None :: store_error option) = (Inr fs, (st', None))"
    by (simp add: m from_files_fields)
  moreover have "reconstruct_files_loop X m (store_fetch X f') (m_files m) (st', None)
      = reconstruct_files_loop X m (pure_fetch (holds X st' f')) (m_files m) (st', None)"
    using store_fetch_inv [OF inv'] by (rule fetch_fixed_files)
  ultimately show "export_tree X st' f' m = (Inr fs, st')"
    using from_files_valid [OF X(3) size, of name]
    by (simp add: export_tree_def reconstruct_files_def m export_result_def)
qed

section \<open>Streaming and in-memory packing agree\<close>

text \<open>The store writes only inside its own directory.\<close>

definition framed :: "path \<Rightarrow> fs \<Rightarrow> fs \<Rightarrow> bool" where
  "framed dir f f' \<longleftrightarrow> fs_dirs f' = fs_dirs f \<and> fs_denied f' = fs_denied f
     \<and> (\<forall>p. (\<forall>q. p \<noteq> dir @ q) \<longrightarrow> hm_get (fs_files f') p = hm_get (fs_files f) p)"

lemma framed_refl [simp]: "framed dir f f"
  by (simp add: framed_def)

lemma framed_trans: "framed dir f g \<Longrightarrow> framed dir g h \<Longrightarrow> framed dir f h"
  by (auto simp: framed_def)

lemma framed_read: "framed dir f f' \<Longrightarrow> (\<And>q. p \<noteq> dir @ q) \<Longrightarrow> fs_read f' p = fs_read f p"
  by (simp add: framed_def fs_read_def)

lemma framedI: "same_except A f f' \<Longrightarrow> grows f f' \<Longrightarrow> (\<And>p. p \<in> A \<Longrightarrow> \<exists>q. p = dir @ q) \<Longrightarrow> framed dir f f'"
  unfolding framed_def same_except_def grows_def by blast

lemma refresh_layout: "layout_of dir (snd (refresh_pack_index X st f)) = layout_of dir st"
    "layout_of dir (snd (refresh_refs X st f)) = layout_of dir st"
  by (auto simp: refresh_pack_index_def refresh_refs_def layout_of_def split: sum.split option.split)

lemma has_layout: "layout_of dir (snd (has X st f h)) = layout_of dir st"
  by (simp add: has_def Let_def refresh_layout)

lemma put_new_framed:
  assumes "layout_of dir st" and "put_new X st f h b = (Inr r, st', f')"
  shows "layout_of dir st' \<and> framed dir f f' \<and> fst r = h"
proof -
  obtain pid off ps f1 where pw: "pack_write (st_pack_state st) f (st_packs_dir st) b = (Inr (pid, off), ps, f1)"
    and app: "fs_append f1 (st_pack_index_path st) (str_bytes (pack_index_line X h pid off (of_nat (length b)) @ [NL])) = Inr f'"
    and st': "st' = st\<lparr>st_pack_state := ps, st_pack_index := hm_insert h (pid, off, of_nat (length b)) (st_pack_index st),
       st_pack_index_pos := st_pack_index_pos st + of_nat (length (pack_index_line X h pid off (of_nat (length b)) @ [NL]))\<rparr>"
    and r: "fst r = h"
    using assms(2) by (cases r) (auto elim: put_new_parts)
  have cf: "pack_state_ok (st_packs_dir st) (st_pack_state st)"
    using assms(1) by (simp add: layout_of_def)
  note w = pack_write_ok [OF pw cf]
  have "framed dir f f1"
    using assms(1) by (intro framedI [OF w(4,3)]) (auto simp: layout_of_def)
  moreover have "framed dir f1 f'"
    using fs_append_file [OF app] fs_append_grows [OF app] assms(1)
    by (intro framedI [of "{st_pack_index_path st}"]) (auto simp: layout_of_def)
  moreover have "layout_of dir st'" using assms(1) w(1) by (simp add: layout_of_def pack_state_ok_def st')
  ultimately show ?thesis using r framed_trans by blast
qed

lemma put_framed:
  assumes "layout_of dir st" and "put X st f b = (Inr r, st', f')"
  shows "layout_of dir st' \<and> framed dir f f' \<and> fst r = hash_of (blake3 X) b"
proof -
  let ?h = "hash_of (blake3 X) b"
  obtain known st1 where h: "has X st f ?h = (known, st1)" by fastforce
  let ?st3 = "snd (refresh_refs X (snd (refresh_pack_index X st1 f)) f)"
  have lay: "layout_of dir st1" "layout_of dir ?st3" using assms(1) has_layout [of dir X st f ?h] h by (simp_all add: refresh_layout)
  show ?thesis
  proof (cases "known \<or> present X ?st3 f ?h")
    case True
    then have "r = (?h, False) \<and> (st' = st1 \<or> st' = ?st3) \<and> f' = f"
      using assms(2) h by (cases known) (auto simp: put_def Let_def)
    then show ?thesis using lay by auto
  next
    case False
    then have "put_new X ?st3 f ?h b = (Inr r, st', f')" using assms(2) h by (simp add: put_def Let_def)
    from put_new_framed [OF lay(2) this] show ?thesis .
  qed
qed

text \<open>In a directory whose own files can be written, \<open>put\<close> succeeds.\<close>

lemma framed_dirs: "framed dir f f' \<Longrightarrow> store_dirs dir f \<Longrightarrow> store_dirs dir f'"
  by (simp add: framed_def store_dirs_def)

lemma pack_file_creates: "store_dirs dir f \<Longrightarrow> \<exists>g. fs_create_append f (dir @ [''packs'', n]) = Inr g \<and> store_dirs dir g"
  by (auto simp: store_dirs_def fs_create_append_def fs_open_write_def butlast_append)

lemma pack_write_succeeds:
  assumes d: "store_dirs dir f" and ps: "pack_state_ok (dir @ [''packs'']) ps"
  shows "\<exists>r ps' f'. pack_write ps f (dir @ [''packs'']) b = (Inr r, ps', f') \<and> store_dirs dir f'"
proof -
  obtain ps1 f1 where rot: "pack_rotate ps f (dir @ [''packs'']) = (Inr (), ps1, f1)" "store_dirs dir f1"
  proof (cases "PACK_ROTATE_SIZE \<le> current_size ps")
    case True
    obtain g where "fs_create_append f (dir @ [''packs'', pack_name (current_id ps + 1)]) = Inr g" "store_dirs dir g"
      using pack_file_creates [OF d] by blast
    then show ?thesis using that True by (simp add: pack_rotate_def Let_def)
  next
    case False
    then show ?thesis using that d by (simp add: pack_rotate_def)
  qed
  obtain f2 where f2: "fs_create_append f1 (dir @ [''packs'', WRITE_GUARD_NAME]) = Inr f2" "store_dirs dir f2"
    using pack_file_creates [OF rot(2)] by blast
  have "current_file ps1 = dir @ [''packs'', pack_name (current_id ps1)]" using pack_rotate_ok(1) [OF rot(1) ps] by simp
  then obtain f3 where "handle_append f2 (current_file ps1) b = Inr f3" "store_dirs dir f3"
    using f2(2) by (auto simp: handle_append_def store_dirs_def)
  then show ?thesis using rot f2 by (auto simp: pack_write_def acquire_write_guard_def Let_def)
qed

lemma put_succeeds:
  assumes lay: "layout_of dir st" and d: "store_dirs dir f"
  shows "\<exists>r st' f'. put X st f b = (Inr r, st', f') \<and> layout_of dir st' \<and> store_dirs dir f'"
proof -
  have new: "\<exists>r st' f'. put_new X st3 f h b = (Inr r, st', f')" if "layout_of dir st3" for st3 h
  proof -
    have lay3: "st_packs_dir st3 = dir @ [''packs'']" "st_pack_index_path st3 = dir @ [''packs'', ''index'']"
      "pack_state_ok (dir @ [''packs'']) (st_pack_state st3)" using that by (simp_all add: layout_of_def)
    obtain pid off ps f1 where "pack_write (st_pack_state st3) f (dir @ [''packs'']) b = (Inr (pid, off), ps, f1)" "store_dirs dir f1"
      using pack_write_succeeds [OF d lay3(3)] by (metis surj_pair)
    moreover from this(2) obtain g where
        "fs_append f1 (dir @ [''packs'', ''index'']) (str_bytes (pack_index_line X h pid off (of_nat (length b)) @ [NL])) = Inr g"
      using pack_file_creates [of dir f1 "''index''"] by (auto simp: fs_append_def)
    ultimately have "\<not> isl (fst (put_new X st3 f h b))" by (simp add: put_new_def append_pack_index_line_def Let_def lay3)
    then show ?thesis by (metis prod.collapse sum.collapse(2))
  qed
  have "\<exists>r st' f'. put X st f b = (Inr r, st', f')"
  proof -
    let ?h = "hash_of (blake3 X) b"
    obtain known st1 where h: "has X st f ?h = (known, st1)" by force
    then have "layout_of dir (snd (refresh_refs X (snd (refresh_pack_index X st1 f)) f))"
      using has_layout [of dir X st f ?h] lay by (simp add: refresh_layout)
    from new [OF this, of ?h] h show ?thesis by (cases known) (auto simp: put_def Let_def)
  qed
  then show ?thesis using put_framed [OF lay] framed_dirs [OF _ d] by blast
qed

lemma ingest_chunk_framed:
  assumes "layout_of dir st" and "ingest_chunk X st f source off b = (Inr r, st', f')"
  shows "layout_of dir st' \<and> framed dir f f' \<and> fst r = hash_of (blake3 X) b"
proof (cases source)
  case None
  then show ?thesis using assms put_framed by (simp add: ingest_chunk_def)
next
  case (Some src)
  let ?h = "hash_of (blake3 X) b"
  obtain known st1 where h: "has X st f ?h = (known, st1)" by fastforce
  have lay: "layout_of dir st1" using assms(1) has_layout [of dir X st f ?h] h by simp
  have ar: "add_reference X st1 f ?h src off (of_nat (length b)) = (Inr (), st', f')" and r: "r = (?h, \<not> known)"
    using assms(2) Some h by (auto simp: ingest_chunk_def Let_def split: prod.splits sum.splits)
  then have app: "fs_append f (st_refs_path st1) (str_bytes (ref_line X ?h src off (of_nat (length b)) @ [NL])) = Inr f'"
    and st': "st' = st1\<lparr>st_refs := hm_insert ?h (src, off, of_nat (length b)) (st_refs st1)\<rparr>"
    by (auto simp: add_reference_def split: sum.splits)
  have "framed dir f f'"
    using fs_append_file [OF app] fs_append_grows [OF app] lay
    by (intro framedI [of "{st_refs_path st1}"]) (auto simp: layout_of_def)
  moreover have "layout_of dir st'" using lay by (simp add: layout_of_def st')
  ultimately show ?thesis using r by simp
qed

text \<open>The references of a sequence of blocks laid end to end.\<close>

fun refs_from :: "crates \<Rightarrow> nat \<Rightarrow> bytes list \<Rightarrow> chunk_ref list" where
  "refs_from X off [] = []"
| "refs_from X off (b # bs) =
     \<lparr>cref_hash = hash_of (blake3 X) b, cref_offset = of_nat off, cref_length = of_nat (length b)\<rparr>
     # refs_from X (off + length b) bs"

lemma stream_loop_refs:
  "layout_of dir st \<Longrightarrow> list_all (\<lambda>b. length b < 2 ^ 32) bs \<Longrightarrow>
   stream_loop X (map Inr bs) source tot refs (of_nat off) prog st f = (Inr (refs', off'), prog', st', f') \<Longrightarrow>
   refs' = refs @ refs_from X off bs \<and> off' = of_nat (off + length (concat bs)) \<and> layout_of dir st' \<and> framed dir f f'"
proof (induction bs arbitrary: refs off prog st f)
  case (Cons b bs)
  obtain r st1 f1 where c: "ingest_chunk X st f source (of_nat off) b = (r, st1, f1)" by (metis prod_cases3)
  from Cons.prems(3) c obtain h new where r: "r = Inr (h, new)" by (cases r) auto
  note fr = ingest_chunk_framed [OF Cons.prems(1) c [unfolded r]]
  have u: "(of_nat off + ucast (of_nat (length b) :: u32) :: u64) = of_nat (off + length b)"
    using Cons.prems(2) by (simp add: ucast_of_nat_u32)
  have loop: "stream_loop X (map Inr bs) source tot
      (refs @ [\<lparr>cref_hash = h, cref_offset = of_nat off, cref_length = of_nat (length b)\<rparr>]) (of_nat (off + length b))
      (prog @ [(of_nat (off + length b), tot, new)]) st1 f1 = (Inr (refs', off'), prog', st', f')"
    using Cons.prems(3) c r by (simp add: Let_def u)
  from Cons.IH [OF _ _ loop] Cons.prems(2) fr show ?case
    by (auto intro: framed_trans simp: add.assoc)
qed simp

lemma refs_from_tiles:
  "tiles a cuts n \<Longrightarrow> n \<le> length data \<Longrightarrow>
   refs_from X a (map (\<lambda>(off, len). slice data off (off + len)) cuts) =
   map (\<lambda>(off, len). \<lparr>cref_hash = hash_of (blake3 X) (slice data off (off + len)), cref_offset = of_nat off,
     cref_length = of_nat len\<rparr>) cuts"
proof (induction a cuts n rule: tiles.induct)
  case (2 a off len rest n)
  then have "a + len \<le> n" using tiles_pieces [of "a + len" rest n data] by simp
  with 2 show ?case by simp
qed simp

lemma refs_from_chunk:
  assumes "default_cdc X"
  shows "map (\<lambda>r. r\<lparr>cref_offset := g + cref_offset r\<rparr>) (refs_from X 0 (pieces X d)) = map (span_ref g) (chunk X d)"
proof (cases "d = []")
  case False
  then have "tiles 0 (fastcdc X d MIN_CHUNK AVG_CHUNK MAX_CHUNK) (length d)" using assms by (simp add: cdc_ok_def)
  from refs_from_tiles [OF this, of d X] False show ?thesis
    by (simp add: pieces_def chunk_def chunk_with_def span_ref_def case_prod_unfold)
qed (simp add: pieces_def chunk_def chunk_with_def)

lemma length_refs_from: "length (refs_from X off bs) = length bs"
  by (induction bs arbitrary: off) simp_all

abbreviation default_stream :: "crates \<Rightarrow> bool" where
  "default_stream X \<equiv> stream_ok X MIN_CHUNK AVG_CHUNK MAX_CHUNK"

lemma ingest_file_streaming_refs:
  assumes X: "default_cdc X" "default_stream X" and lay: "layout_of dir st" and rd: "fs_read f p = Inr d"
    and ing: "ingest_file_streaming_impl X st f p nc = (Inr (refs, sz), prog, st', f')"
  shows "refs = refs_from X 0 (pieces X d) \<and> sz = of_nat (length d) \<and> layout_of dir st' \<and> framed dir f f'"
proof -
  obtain source where loop: "stream_loop X (streamcdc X d MIN_CHUNK AVG_CHUNK MAX_CHUNK) source (of_nat (length d)) [] 0 [] st f
      = (Inr (refs, sz), prog, st', f')"
    using ing rd by (auto simp: ingest_file_streaming_impl_def fs_len_def split: sum.splits if_splits)
  have items: "streamcdc X d MIN_CHUNK AVG_CHUNK MAX_CHUNK = map Inr (pieces X d)"
    using X(2) by (auto simp: stream_ok_def pieces_def)
  have "list_all (\<lambda>b. length b < 2 ^ 32) (pieces X d)" using pieces_small [OF X(1)] by (simp add: list_all_iff)
  from stream_loop_refs [OF lay this, of X source "of_nat (length d)" "[]" 0 "[]" f refs sz] loop items pieces_ok(1) [OF X(1), of d]
  show ?thesis by simp
qed

lemma tree_files_loop_closed:
  "default_cdc X \<Longrightarrow> default_stream X \<Longrightarrow> layout_of dir st \<Longrightarrow>
   list_all2 (\<lambda>(rel, p) (rel', d). rel' = rel \<and> fs_read f p = Inr d \<and> (\<forall>q. p \<noteq> dir @ q)) files fs \<Longrightarrow>
   tree_files_loop X files nc tot chunks entries g prog st f = (Inr (chunks', entries', g'), prog', st', f') \<Longrightarrow>
   chunks' = chunks @ refs_of X g fs \<and> entries' = entries @ entries_of X (length chunks) fs \<and> g' = g + of_nat (files_size fs)"
proof (induction files arbitrary: fs chunks entries g prog st f)
  case (Cons fl files)
  obtain rel p where fl: "fl = (rel, p)" by (cases fl)
  with Cons.prems(4) obtain d fs' where fs: "fs = (rel, d) # fs'" and rd: "fs_read f p = Inr d"
    and rest: "list_all2 (\<lambda>(rel, p) (rel', d). rel' = rel \<and> fs_read f p = Inr d \<and> (\<forall>q. p \<noteq> dir @ q)) files fs'"
    by (auto simp: list_all2_Cons1)
  obtain r fprog st1 f1 where ing: "ingest_file_streaming_impl X st f p nc = (r, fprog, st1, f1)" by (metis prod_cases4)
  from Cons.prems(5) fl ing obtain refs sz where r: "r = Inr (refs, sz)" by (cases r) (auto simp: Let_def)
  have one: "refs = refs_from X 0 (pieces X d)" "sz = of_nat (length d)" "layout_of dir st1" "framed dir f f1"
    using ingest_file_streaming_refs [OF Cons.prems(1-3) rd ing [unfolded r]] by simp_all
  have rest1: "list_all2 (\<lambda>(rel, p) (rel', d). rel' = rel \<and> fs_read f1 p = Inr d \<and> (\<forall>q. p \<noteq> dir @ q)) files fs'"
    using rest by (rule list_all2_mono) (auto simp: framed_read [OF one(4)])
  have loop: "tree_files_loop X files nc tot (chunks @ map (span_ref g) (chunk X d))
      (entries @ [\<lparr>fe_path = rel, fe_size = of_nat (length d), fe_chunk_start = of_nat (length chunks), fe_chunk_count = of_nat (length (chunk X d))\<rparr>])
      (g + of_nat (length d)) (prog @ map (\<lambda>(done, _, is_new). (g + done, tot, is_new)) fprog) st1 f1
      = (Inr (chunks', entries', g'), prog', st', f')"
    using Cons.prems(5) fl ing r one(1,2) refs_from_chunk [OF Cons.prems(1), of g d]
    by (simp add: Let_def length_refs_from chunk_count_pieces)
  from Cons.IH [OF Cons.prems(1,2) one(3) rest1 loop] show ?case using fs by (simp add: add.assoc)
qed simp

lemma ingest_tree_files_from_files:
  assumes "default_cdc X" "default_stream X" and "layout_of dir st"
    and "list_all2 (\<lambda>(rel, p) (rel', d). rel' = rel \<and> fs_read f p = Inr d \<and> (\<forall>q. p \<noteq> dir @ q)) files fs"
    and "ingest_tree_files_impl X st f files name no_copy = (Inr m, prog, st', f')"
  shows "m = from_files X fs name"
proof -
  obtain chunks entries g where loop:
      "tree_files_loop X files no_copy (tree_total f files) [] [] 0 [] st f = (Inr (chunks, entries, g), prog, st', f')"
    and m: "m = \<lparr>m_root = merkle_root (blake3 X) (map cref_hash chunks), m_total_size = g, m_chunks = chunks,
                m_files = entries, m_name = name\<rparr>"
    using assms(5) by (auto simp: ingest_tree_files_impl_def split: prod.splits sum.splits)
  from tree_files_loop_closed [OF assms(1-4) loop] m show ?thesis
    by (simp add: from_files_def from_files_loop_closed)
qed

section \<open>Exports stay below their directory\<close>

lemma handle_append_below: "handle_append f p b = Inr f' \<Longrightarrow> p = out @ ns \<Longrightarrow> ns \<noteq> [] \<Longrightarrow>
    same_except {q. \<exists>ns. ns \<noteq> [] \<and> q = out @ ns} f f'"
  using handle_append_file [of f p b f'] by (auto simp: same_except_def)

lemma dir_chunks_below:
  "dest = out @ ns \<Longrightarrow> ns \<noteq> [] \<Longrightarrow> dir_chunks X m dest ci n don prog st f = (r, don', prog', st', f') \<Longrightarrow>
   same_except {q. \<exists>ns. ns \<noteq> [] \<and> q = out @ ns} f f'"
proof (induction n arbitrary: ci don prog st f)
  case (Suc n)
  obtain e st1 where e: "nth_opt (m_chunks m) ci \<noteq> None \<Longrightarrow> export_chunk X st f m ci (the (nth_opt (m_chunks m) ci)) = (e, st1)"
    by (metis prod.collapse)
  show ?case
  proof (cases "\<exists>c b f1. nth_opt (m_chunks m) ci = Some c \<and> e = Inr b \<and> handle_append f dest b = Inr f1")
    case False
    then have "f' = f" using Suc.prems(3) e by (auto split: option.splits sum.splits)
    then show ?thesis by simp
  next
    case True
    then obtain c b f1 where c: "nth_opt (m_chunks m) ci = Some c" "e = Inr b" "handle_append f dest b = Inr f1" by blast
    have "same_except {q. \<exists>ns. ns \<noteq> [] \<and> q = out @ ns} f f1" using handle_append_below c(3) Suc.prems(1,2) by blast
    moreover have "same_except {q. \<exists>ns. ns \<noteq> [] \<and> q = out @ ns} f1 f'"
      using Suc.prems c e by (intro Suc.IH) auto
    ultimately show ?thesis using same_except_trans by fastforce
  qed
qed simp

lemma dir_files_below:
  "dir_files X m out es don prog st f = (r, prog', st', f') \<Longrightarrow> same_except {q. \<exists>ns. ns \<noteq> [] \<and> q = out @ ns} f f'"
proof (induction es arbitrary: don prog st f)
  case (Cons e es)
  let ?A = "{q. \<exists>ns. ns \<noteq> [] \<and> q = out @ ns}" and ?dest = "join_relative out (fe_path e)"
  show ?case
  proof (cases "validate_relative_path (fe_path e) = Inr ()")
    case False
    then show ?thesis using Cons.prems by simp
  next
    case True
    then have ns: "?dest = out @ real_pieces (fe_path e)" "real_pieces (fe_path e) \<noteq> []"
      using join_relative_validated validated_pieces(1) by auto
    obtain r1 where r1: "fs_create_dir_all f (butlast ?dest) = r1" by blast
    show ?thesis
    proof (cases "\<exists>f1 f2. r1 = Inr f1 \<and> create_file f1 ?dest (fe_path e) = Inr f2")
      case False
      then have "f' = f \<or> r1 = Inr f'" using Cons.prems True r1 by (auto simp: Let_def split: sum.splits)
      then show ?thesis using fs_create_dir_all_files r1 by (fastforce simp: same_except_def)
    next
      case T: True
      then obtain f1 f2 where f1: "fs_create_dir_all f (butlast ?dest) = Inr f1" and f2: "create_file f1 ?dest (fe_path e) = Inr f2"
        using r1 by blast
      have s1: "same_except ?A f f1" using fs_create_dir_all_files [OF f1] by (simp add: same_except_def)
      have "fs_write f1 ?dest [] = Inr f2" using f2 by (auto simp: create_file_def split: if_splits)
      then have s2: "same_except ?A f1 f2" using fs_write_file ns by (fastforce simp: same_except_def)
      obtain r3 don3 prog3 st3 f3 where dc: "dir_chunks X m ?dest (unat (fe_chunk_start e)) (entry_range e) don prog st f2
          = (r3, don3, prog3, st3, f3)" by (metis prod_cases5)
      have s3: "same_except ?A f2 f3" using dir_chunks_below [OF ns(1,2) dc] .
      have "f' = f3 \<or> dir_files X m out es don3 prog3 st3 f3 = (r, prog', st', f')"
        using Cons.prems True f1 f2 dc by (cases r3) (auto simp: Let_def)
      then have s4: "same_except ?A f3 f'" using Cons.IH by auto
      show ?thesis using s1 s2 s3 s4 by (simp add: same_except_def)
    qed
  qed
qed simp

lemma export_loop_hashes:
  "export_loop X f m t i cs w0 p0 s = (Inr (), w', p', s') \<Longrightarrow> cs = slice (m_chunks m) i (i + length cs) \<Longrightarrow>
   i + length cs \<le> length (m_chunks m) \<Longrightarrow> \<exists>bs. map (hash_of (blake3 X)) bs = map cref_hash cs \<and> w' = w0 @ concat bs"
proof (induction cs arbitrary: i w0 p0 s)
  case (Cons c cs)
  have sl: "slice (m_chunks m) i (i + length (c # cs)) = m_chunks m ! i # slice (m_chunks m) (Suc i) (Suc i + length cs)"
    using Cons.prems(3) by (simp add: slice_def Cons_nth_drop_Suc [symmetric])
  obtain b s1 where e: "export_chunk X s f m i c = (Inr b, s1)"
    and rest: "export_loop X f m t (Suc i) cs (w0 @ b) (p0 @ [(i + 1, t)]) s1 = (Inr (), w', p', s')"
    using Cons.prems(1) by (auto split: prod.splits sum.splits)
  have "chunk_hash_ok X m i b" using e by (auto simp: export_chunk_def split: prod.splits sum.splits option.splits if_splits)
  moreover have ci: "c = m_chunks m ! i" "cs = slice (m_chunks m) (Suc i) (Suc i + length cs)" "i < length (m_chunks m)"
    using Cons.prems(2,3) unfolding sl by simp_all
  ultimately have h: "hash_of (blake3 X) b = cref_hash c" by (simp add: chunk_hash_ok_def nth_opt_def)
  obtain bs where "map (hash_of (blake3 X)) bs = map cref_hash cs" "w' = (w0 @ b) @ concat bs"
    using Cons.IH [OF rest ci(2)] Cons.prems(3) by auto
  then show ?case using h by (intro exI [of _ "b # bs"]) simp
qed simp

section \<open>Properties\<close>

text \<open>
  Store round trip: packing a file tree into a good store and exporting the manifest returns exactly
  the files, in order, with their paths. The pack leaves the store good, keeps everything it held, and its
  manifest is the one \<open>from_files\<close> builds. Assumed: the crates behave as documented, and the digest does
  not collide among the pieces packed and the blocks already held under their hashes.
\<close>

theorem store_tree_roundtrip:
  assumes "store_inv X dir st f" and "hex_ok X" "digest_ok X" "default_cdc X" and "files_size fs < 2 ^ 64"
    and "ingest_tree X st f fs name = (Inr m, st', f')" and "fs_fits f'"
    and "inj_on (blake3 X) (set (concat (map (\<lambda>f. pieces X (snd f)) fs)))"
    and "\<And>b c. b \<in> set (concat (map (\<lambda>f. pieces X (snd f)) fs)) \<Longrightarrow> holds X st f (hash_of (blake3 X) b) = Some c \<Longrightarrow> c = b"
  shows "m = from_files X fs name \<and> store_inv X dir st' f' \<and> holds X st f \<subseteq>\<^sub>m holds X st' f'
    \<and> export_tree X st' f' m = (Inr fs, st')"
  using ingest_tree_export_tree [OF assms] by blast

definition sample_ingest :: "(store_error + manifest) \<times> store \<times> fs" where
  "sample_ingest = ingest_tree sample_crates sample_store sample_fs sample_files None"

lemma default_cdc_sample: "default_cdc sample_crates"
  by (rule cdc_ok_sample) (simp add: MAX_CHUNK_def)

theorem store_tree_roundtrip_witness:
  "fst (export_tree sample_crates (fst (snd sample_ingest)) (snd (snd sample_ingest)) (projr (fst sample_ingest))) = Inr sample_files"
proof -
  have "\<not> isl (fst sample_ingest)" by code_simp
  then obtain m st' f' where i: "sample_ingest = (Inr m, st', f')" by (metis prod.collapse sum.collapse(2))
  have fits: "fs_fits (snd (snd sample_ingest))" by (rule fs_fits_small) code_simp
  have inj: "inj_on (blake3 sample_crates) (set (concat (map (\<lambda>f. pieces sample_crates (snd f)) sample_files)))" by code_simp
  have "files_size sample_files < 2 ^ 64" by (simp add: sample_files_def)
  from store_tree_roundtrip [OF sample_store_inv(1) hex_ok_sample digest_ok_sample default_cdc_sample this
      i [unfolded sample_ingest_def] _ inj] fits
  show ?thesis unfolding i by (auto simp: sample_store_inv(2))
qed

text \<open>
  C22. Streaming and in-memory packing produce the same content id: for files outside the store's
  directory, \<open>ingest_tree_files\<close> (copying or \<open>--no-copy\<close>) returns the manifest \<open>from_files\<close> builds from the
  files' bytes, root, chunk list and file table included.
\<close>

theorem streaming_pack_same_manifest:
  assumes "default_cdc X" "default_stream X" and "layout_of dir st"
    and "list_all2 (\<lambda>(rel, p) (rel', d). rel' = rel \<and> fs_read f p = Inr d \<and> (\<forall>q. p \<noteq> dir @ q)) files fs"
    and "ingest_tree_files_impl X st f files name no_copy = (Inr m, prog, st', f')"
  shows "m = from_files X fs name"
  using assms by (rule ingest_tree_files_from_files)

definition sample_source_fs :: fs where
  "sample_source_fs = sample_fs\<lparr>fs_files := hm_insert [''movie''] [1, 2, 3, 4, 5] (fs_files sample_fs)\<rparr>"

definition sample_no_copy :: "(store_error + manifest) \<times> progress \<times> store \<times> fs" where
  "sample_no_copy = ingest_tree_files_impl sample_crates sample_store sample_source_fs [(''m.bin'', [''movie''])] None True"

theorem streaming_pack_same_manifest_witness:
  "fst sample_no_copy = Inr (from_files sample_crates [(''m.bin'', [1, 2, 3, 4, 5])] None)"
proof -
  have "\<not> isl (fst sample_no_copy)" by code_simp
  then obtain m prog st' f' where i: "sample_no_copy = (Inr m, prog, st', f')" by (metis prod.collapse sum.collapse(2))
  have lay: "layout_of [''s''] sample_store" using sample_store_inv(1) by (simp add: store_inv_def)
  have "fs_read sample_source_fs [''movie''] = Inr [1, 2, 3, 4, 5]" by code_simp
  then have "list_all2 (\<lambda>(rel, p) (rel', d). rel' = rel \<and> fs_read sample_source_fs p = Inr d \<and> (\<forall>q. p \<noteq> [''s''] @ q))
      [(''m.bin'', [''movie''])] [(''m.bin'', [1, 2, 3, 4, 5])]" by simp
  from streaming_pack_same_manifest [OF default_cdc_sample stream_ok_sample lay this i [unfolded sample_no_copy_def]]
  show ?thesis unfolding i by simp
qed


text \<open>
  A streaming export that reports success wrote exactly verified content: the manifest's root
  commits to its chunk list, and the bytes written are, chunk by chunk, bytes of the listed hashes.
\<close>

theorem export_to_verified:
  assumes "export_to X st f m = (Inr (), w, st')"
  shows "root_is_consistent X m \<and> (\<exists>bs. map (hash_of (blake3 X)) bs = chunk_hashes m \<and> w = concat bs)"
proof -
  obtain prog where c: "root_is_consistent X m"
    and loop: "export_loop X f m (length (m_chunks m)) 0 (m_chunks m) [] [] st = (Inr (), w, prog, st')"
    using assms by (auto simp: export_to_def export_to_with_progress_def split: if_splits prod.splits)
  from export_loop_hashes [OF loop] c show ?thesis by (simp add: chunk_hashes_def)
qed

theorem export_to_verified_witness:
  "root_is_consistent sample_crates (projr (fst sample_ingest))
   \<and> fst (snd (export_to sample_crates (fst (snd sample_ingest)) (snd (snd sample_ingest)) (projr (fst sample_ingest)))) = [1, 2, 3, 4, 5]"
proof -
  have r: "fst (export_to sample_crates (fst (snd sample_ingest)) (snd (snd sample_ingest)) (projr (fst sample_ingest))) = Inr ()"
    "fst (snd (export_to sample_crates (fst (snd sample_ingest)) (snd (snd sample_ingest)) (projr (fst sample_ingest)))) = [1, 2, 3, 4, 5]"
    by code_simp+
  then obtain st' where "export_to sample_crates (fst (snd sample_ingest)) (snd (snd sample_ingest)) (projr (fst sample_ingest))
      = (Inr (), [1, 2, 3, 4, 5], st')" by (metis prod.collapse)
  from export_to_verified [OF this] r(2) show ?thesis by blast
qed

end
