(* ===== verification/Store_Siblings.thy ===== *)
theory Store_Siblings
  imports Store_Clients
begin

text \<open>
  Several \<open>Store\<close> handles on one directory, the documented multi-handle pattern of
  \<open>crates/np2ptp-store/src/lib.rs\<close>. A \<open>put\<close> is split at its points of interference: the unlocked dedup
  check, the re-check under the handle's own lock, the guarded pack write, the index append and the
  in-memory bookkeeping; between any two of them every other handle may step, and any thread may
  refresh a handle (\<open>get\<close>, \<open>has\<close>, \<open>object_count\<close>). The lemmas show that no interleaving makes an index
  entry lead to wrong bytes, and that the read cursor can step over a sibling's entry.
\<close>

section \<open>The step relation\<close>

datatype put_pc =
    Idle
  | Probed bytes
  | Checked bytes
  | Packed bytes u32 u64
  | Indexed bytes u32 u64 u64

record shared =
  sh_fs :: fs
  sh_handles :: "nat \<Rightarrow> store \<times> put_pc"

definition set_handle :: "shared \<Rightarrow> nat \<Rightarrow> store \<Rightarrow> put_pc \<Rightarrow> fs \<Rightarrow> shared" where
  "set_handle s i st pc f = \<lparr>sh_fs = f, sh_handles = (sh_handles s)(i := (st, pc))\<rparr>"

definition put_recheck :: "crates \<Rightarrow> store \<Rightarrow> fs \<Rightarrow> store" where
  "put_recheck X st f = snd (refresh_refs X (snd (refresh_pack_index X st f)) f)"

definition put_commit :: "crates \<Rightarrow> store \<Rightarrow> bytes \<Rightarrow> u32 \<Rightarrow> u64 \<Rightarrow> u64 \<Rightarrow> store" where
  "put_commit X st b pid off written =
     st\<lparr>st_pack_index := hm_insert (hash_of (blake3 X) b) (pid, off, of_nat (length b)) (st_pack_index st),
        st_pack_index_pos := st_pack_index_pos st + written\<rparr>"

inductive sib_step :: "crates \<Rightarrow> shared \<Rightarrow> shared \<Rightarrow> bool" for X :: crates where
  probe: "\<lbrakk>sh_handles s i = (st, Idle); length b < 2 ^ 32; has X st (sh_fs s) (hash_of (blake3 X) b) = (known, st')\<rbrakk>
    \<Longrightarrow> sib_step X s (set_handle s i st' (if known then Idle else Probed b) (sh_fs s))"
| recheck: "\<lbrakk>sh_handles s i = (st, Probed b); st' = put_recheck X st (sh_fs s)\<rbrakk>
    \<Longrightarrow> sib_step X s (set_handle s i st' (if present X st' (sh_fs s) (hash_of (blake3 X) b) then Idle else Checked b) (sh_fs s))"
| pack_error: "\<lbrakk>sh_handles s i = (st, Checked b); pack_write (st_pack_state st) (sh_fs s) (st_packs_dir st) b = (Inl e, ps, f')\<rbrakk>
    \<Longrightarrow> sib_step X s (set_handle s i (st\<lparr>st_pack_state := ps\<rparr>) Idle f')"
| pack: "\<lbrakk>sh_handles s i = (st, Checked b); pack_write (st_pack_state st) (sh_fs s) (st_packs_dir st) b = (Inr (pid, off), ps, f');
      fs_fits f'\<rbrakk>
    \<Longrightarrow> sib_step X s (set_handle s i (st\<lparr>st_pack_state := ps\<rparr>) (Packed b pid off) f')"
| index_error: "\<lbrakk>sh_handles s i = (st, Packed b pid off);
      append_pack_index_line X (sh_fs s) (st_pack_index_path st) (hash_of (blake3 X) b) pid off (of_nat (length b)) = Inl e\<rbrakk>
    \<Longrightarrow> sib_step X s (set_handle s i st Idle (sh_fs s))"
| index: "\<lbrakk>sh_handles s i = (st, Packed b pid off);
      append_pack_index_line X (sh_fs s) (st_pack_index_path st) (hash_of (blake3 X) b) pid off (of_nat (length b)) = Inr (written, f')\<rbrakk>
    \<Longrightarrow> sib_step X s (set_handle s i st (Indexed b pid off written) f')"
| commit: "\<lbrakk>sh_handles s i = (st, Indexed b pid off written)\<rbrakk>
    \<Longrightarrow> sib_step X s (set_handle s i (put_commit X st b pid off written) Idle (sh_fs s))"
| refresh: "\<lbrakk>sh_handles s i = (st, pc)\<rbrakk>
    \<Longrightarrow> sib_step X s (set_handle s i (snd (refresh_pack_index X st (sh_fs s))) pc (sh_fs s))"

text \<open>Run without interference, the steps are exactly \<open>put\<close>.\<close>

definition put_steps :: "crates \<Rightarrow> store \<Rightarrow> fs \<Rightarrow> bytes \<Rightarrow> (store_error + hash \<times> bool) \<times> store \<times> fs" where
  "put_steps X st f b =
     (let h = hash_of (blake3 X) b in
      case has X st f h of (known, st1) \<Rightarrow>
        if known then (Inr (h, False), st1, f)
        else let st2 = put_recheck X st1 f in
          if present X st2 f h then (Inr (h, False), st2, f)
          else case pack_write (st_pack_state st2) f (st_packs_dir st2) b of
            (Inl e, ps, f1) \<Rightarrow> (Inl (Io e), st2\<lparr>st_pack_state := ps\<rparr>, f1)
          | (Inr (pid, off), ps, f1) \<Rightarrow>
              (case append_pack_index_line X f1 (st_pack_index_path st2) h pid off (of_nat (length b)) of
                 Inl e \<Rightarrow> (Inl (Io e), st2\<lparr>st_pack_state := ps\<rparr>, f1)
               | Inr (written, f2) \<Rightarrow> (Inr (h, True), put_commit X (st2\<lparr>st_pack_state := ps\<rparr>) b pid off written, f2)))"

lemma put_steps_put: "put_steps X st f b = put X st f b"
  unfolding put_steps_def put_def put_new_def put_recheck_def put_commit_def Let_def
  by (auto split: prod.split bool.split sum.split)

section \<open>Index lines read from anywhere\<close>

definition line_of :: "crates \<Rightarrow> path \<Rightarrow> fs \<Rightarrow> string \<Rightarrow> bool" where
  "line_of X dir f l \<longleftrightarrow> (\<exists>h pid off len. l = pack_index_line X h pid off len \<and> wf_hash h
     \<and> reads_hash X f (dir @ [''packs'', pack_name pid]) off len h)"

text \<open>A proper suffix of an index line is no index line: its first field is not a full hash.\<close>

lemma splitn_fields: "length (splitn n c s) \<le> Suc (count_list s c)"
proof (induction n c s rule: splitn.induct)
  case (3 n c s)
  show ?case
  proof (cases "dropWhile (\<lambda>x. x \<noteq> c) s")
    case (Cons x r)
    then have "x = c" by (metis (mono_tags, lifting) dropWhile_eq_Cons_conv)
    moreover have "count_list s c = count_list (takeWhile (\<lambda>x. x \<noteq> c) s) c + count_list (dropWhile (\<lambda>x. x \<noteq> c) s) c"
      by (metis count_list_append takeWhile_dropWhile_id)
    ultimately have "Suc (count_list r c) \<le> count_list s c" using Cons by simp
    then show ?thesis using 3 [OF refl refl] Cons by (simp add: Let_def)
  qed simp
qed simp_all

lemma splitn_head: "splitn 4 c s = p # q # ps \<Longrightarrow> p = takeWhile (\<lambda>x. x \<noteq> c) s"
proof -
  have four: "(4::nat) = Suc (Suc 2)" by simp
  show "splitn 4 c s = p # q # ps \<Longrightarrow> ?thesis"
    unfolding four splitn.simps(3) Let_def by (auto split: if_splits)
qed

lemma parse_fields:
  assumes "parse_pack_index_line X l = Some r"
  shows "\<exists>h. from_hex X (takeWhile (\<lambda>x. x \<noteq> TAB) l) = Inr h" "3 \<le> count_list l TAB"
proof -
  obtain a b c d h where sp: "splitn 4 TAB l = [a, b, c, d]" and h: "from_hex X a = Inr h"
    using assms by (auto simp: parse_pack_index_line_def split: list.splits sum.splits option.splits)
  show "\<exists>h. from_hex X (takeWhile (\<lambda>x. x \<noteq> TAB) l) = Inr h" using h splitn_head [OF sp] by auto
  show "3 \<le> count_list l TAB" using splitn_fields [of 4 TAB l] sp by simp
qed

lemma count_tab_digits: "count_list (show_nat n) TAB = 0"
  using show_nat_no [of TAB n] by (simp add: count_list_0_iff)

lemma parse_suffix:
  assumes X: "hex_ok X" and wf: "wf_hash h" and k: "0 < k"
  shows "parse_pack_index_line X (drop k (pack_index_line X h pid off len)) = None"
proof (rule ccontr)
  let ?rest = "show_nat (unat pid) @ [TAB] @ show_nat (unat off) @ [TAB] @ show_nat (unat len)"
  let ?t = "drop k (pack_index_line X h pid off len)"
  assume "\<not> ?thesis"
  then obtain r where p: "parse_pack_index_line X ?t = Some r" by blast
  note f = parse_fields [OF p]
  have line: "pack_index_line X h pid off len = to_hex X h @ TAB # ?rest" by (simp add: pack_index_line_def)
  have hx: "length (to_hex X h) = 64" "TAB \<notin> set (to_hex X h)" using length_to_hex [OF X wf] to_hex_no [OF X, of TAB h] by simp_all
  show False
  proof (cases "k \<le> 64")
    case True
    then have "?t = drop k (to_hex X h) @ TAB # ?rest" using hx(1) by (simp add: line)
    moreover have "TAB \<notin> set (drop k (to_hex X h))" using hx(2) in_set_dropD by metis
    ultimately have "takeWhile (\<lambda>x. x \<noteq> TAB) ?t = drop k (to_hex X h)" by (simp add: takeWhile_append)
    then show False using f(1) from_hex_length [OF X] hx(1) k True by fastforce
  next
    case False
    then have "?t = drop (k - 65) ?rest" using hx(1) by (simp add: line) (simp add: drop_Cons')
    then have "count_list ?t TAB \<le> count_list ?rest TAB"
      by (metis append_take_drop_id count_list_append le_add2)
    also have "\<dots> = 2" by (simp add: count_tab_digits)
    finally show False using f(2) by simp
  qed
qed

lemma drop_lines:
  "drop n (lines_text ls) = [] \<or>
   (\<exists>l k ls'. drop n (lines_text ls) = lines_text (drop k l # ls') \<and> l \<in> set ls \<and> set ls' \<subseteq> set ls)"
proof (induction ls arbitrary: n)
  case (Cons l ls)
  show ?case
  proof (cases "n \<le> length l")
    case True
    then have "drop n (lines_text (l # ls)) = lines_text (drop n l # ls)" by simp
    then show ?thesis by (metis list.set_intros(1) set_subset_Cons)
  next
    case False
    then have "drop n (lines_text (l # ls)) = drop (n - Suc (length l)) (lines_text ls)" by (simp add: drop_Cons')
    then show ?thesis using Cons.IH [of "n - Suc (length l)"] by (metis insertI2 insert_mono list.simps(15) subset_insertI2)
  qed
qed simp

lemma tidy_drop: "tidy l \<Longrightarrow> tidy (drop k l)"
  by (auto simp: tidy_def ascii_def list_all_iff dest: in_set_dropD)

lemma insert_lines_source:
  "hm_get (insert_lines P m ls) h = Some v \<Longrightarrow> hm_get m h = Some v \<or> (\<exists>l \<in> set ls. P l = Some (h, v))"
proof (induction ls rule: rev_induct)
  case (snoc l ls)
  then show ?case
    by (cases "P l") (auto simp: insert_lines_append, auto simp: insert_lines_def split: if_splits)
qed (simp add: insert_lines_def)

text \<open>Whatever the cursor, a refresh adds only entries of lines that were written.\<close>

lemma tail_lines_anywhere:
  assumes "sidecar f p ls"
  shows "tail_lines f p pos = Inr None \<or>
    (\<exists>l k ls'. tail_lines f p pos = Inr (Some (lines_text (drop k l # ls'))) \<and> list_all tidy (drop k l # ls')
       \<and> l \<in> set ls \<and> set ls' \<subseteq> set ls)"
proof (cases "hm_get (fs_files f) p")
  case None
  with assms show ?thesis by (auto simp: sidecar_def tail_lines_def fs_read_def)
next
  case (Some c)
  with assms have c: "fs_read f p = Inr c" "c = str_bytes (lines_text ls)" and tidy: "list_all tidy ls"
    by (auto simp: sidecar_def fs_read_def)
  have bytes: "drop (unat pos) c = str_bytes (drop (unat pos) (lines_text ls))"
    by (simp add: c(2) str_bytes_def drop_map)
  show ?thesis
  proof (cases "drop (unat pos) (lines_text ls) = []")
    case True
    then have "length c \<le> unat pos" using c(2) by simp
    then show ?thesis using c(1) by (simp add: tail_lines_def)
  next
    case False
    then obtain l k ls' where d: "drop (unat pos) (lines_text ls) = lines_text (drop k l # ls')" "l \<in> set ls" "set ls' \<subseteq> set ls"
      using drop_lines [of "unat pos" ls] by blast
    have t: "list_all tidy (drop k l # ls')" using tidy d(2,3) tidy_drop by (auto simp: list_all_iff)
    have "\<not> length c \<le> unat pos" using False c(2) by simp
    then have "tail_lines f p pos = Inr (Some (lines_text (drop k l # ls')))"
      using c(1) bytes d(1) from_utf8_str_bytes [OF ascii_lines_text [OF t]] rfind_nl_lines_text [of "drop k l # ls'"]
      by (simp add: tail_lines_def)
    then show ?thesis using t d(2,3) by blast
  qed
qed

lemma refresh_sound:
  assumes X: "hex_ok X" and sc: "sidecar f (st_pack_index_path st) ls" and good: "\<And>l. l \<in> set ls \<Longrightarrow> line_of X dir f l"
    and dir: "st_packs_dir st = dir @ [''packs'']" and sound: "packs_sound X st f"
  shows "packs_sound X (snd (refresh_pack_index X st f)) f"
proof (rule disjE [OF tail_lines_anywhere [OF sc, of "st_pack_index_pos st"]])
  assume "tail_lines f (st_pack_index_path st) (st_pack_index_pos st) = Inr None"
  then show ?thesis using sound by (simp add: refresh_pack_index_def)
next
  assume "\<exists>l k ls'. tail_lines f (st_pack_index_path st) (st_pack_index_pos st) = Inr (Some (lines_text (drop k l # ls')))
    \<and> list_all tidy (drop k l # ls') \<and> l \<in> set ls \<and> set ls' \<subseteq> set ls"
  then obtain l k ls' where t: "tail_lines f (st_pack_index_path st) (st_pack_index_pos st) = Inr (Some (lines_text (drop k l # ls')))"
    and tidy: "list_all tidy (drop k l # ls')" and l: "l \<in> set ls" "set ls' \<subseteq> set ls" by blast
  have entry: "reads_hash X f (dir @ [''packs'', pack_name pid]) off len h"
    if m: "m \<in> set (drop k l # ls')" and p: "parse_pack_index_line X m = Some (h, (pid, off, len))" for m h pid off len
  proof -
    have "m \<in> set ls"
    proof (cases "m = drop k l")
      case True
      obtain h' pid' off' len' where "l = pack_index_line X h' pid' off' len'" "wf_hash h'"
        using good [OF l(1)] by (auto simp: line_of_def)
      then have "k = 0" using p parse_suffix [OF X, of h' k] True by (cases k) auto
      then show ?thesis using True l(1) by simp
    qed (use m l(2) in auto)
    from good [OF this] obtain h' pid' off' len' where m': "m = pack_index_line X h' pid' off' len'" "wf_hash h'"
      "reads_hash X f (dir @ [''packs'', pack_name pid']) off' len' h'" by (auto simp: line_of_def)
    then show ?thesis using p parse_pack_index_line_inverse [OF X m'(2)] by simp
  qed
  show ?thesis
    unfolding packs_sound_def
  proof (intro allI impI)
    fix h pid off len
    let ?st = "snd (refresh_pack_index X st f)"
    assume "hm_get (st_pack_index ?st) h = Some (pid, off, len)"
    then have "hm_get (insert_lines (parse_pack_index_line X) (st_pack_index st) (drop k l # ls')) h = Some (pid, off, len)"
      using str_lines_lines_text [OF tidy] by (simp add: refresh_pack_index_def t)
    then have "hm_get (st_pack_index st) h = Some (pid, off, len) \<or>
        (\<exists>m \<in> set (drop k l # ls'). parse_pack_index_line X m = Some (h, (pid, off, len)))"
      by (rule insert_lines_source)
    then have "reads_hash X f (dir @ [''packs'', pack_name pid]) off len h"
    proof
      assume "hm_get (st_pack_index st) h = Some (pid, off, len)"
      then show ?thesis using sound dir by (simp add: packs_sound_def)
    next
      assume "\<exists>m \<in> set (drop k l # ls'). parse_pack_index_line X m = Some (h, (pid, off, len))"
      then show ?thesis using entry by blast
    qed
    moreover have "st_packs_dir ?st = dir @ [''packs'']" using dir by (simp add: refresh_pack_index_def t)
    ultimately show "reads_hash X f (st_packs_dir ?st @ [pack_name pid]) off len h" by simp
  qed
qed

section \<open>The invariant of all interleavings\<close>

definition handle_ok :: "crates \<Rightarrow> path \<Rightarrow> fs \<Rightarrow> store \<Rightarrow> bool" where
  "handle_ok X dir f st \<longleftrightarrow> st_packs_dir st = dir @ [''packs''] \<and> st_pack_index_path st = dir @ [''packs'', ''index'']
     \<and> pack_state_ok (dir @ [''packs'']) (st_pack_state st) \<and> packs_sound X st f"

text \<open>What a put in flight has established about the bytes it wrote.\<close>

fun pc_ok :: "crates \<Rightarrow> path \<Rightarrow> fs \<Rightarrow> put_pc \<Rightarrow> bool" where
  "pc_ok X dir f Idle = True"
| "pc_ok X dir f (Probed b) = (length b < 2 ^ 32)"
| "pc_ok X dir f (Checked b) = (length b < 2 ^ 32)"
| "pc_ok X dir f (Packed b pid off) =
     reads_hash X f (dir @ [''packs'', pack_name pid]) off (of_nat (length b)) (hash_of (blake3 X) b)"
| "pc_ok X dir f (Indexed b pid off written) =
     reads_hash X f (dir @ [''packs'', pack_name pid]) off (of_nat (length b)) (hash_of (blake3 X) b)"

definition sib_inv :: "crates \<Rightarrow> path \<Rightarrow> shared \<Rightarrow> bool" where
  "sib_inv X dir s \<longleftrightarrow> accessible dir (sh_fs s)
     \<and> (\<exists>ls. sidecar (sh_fs s) (dir @ [''packs'', ''index'']) ls \<and> (\<forall>l \<in> set ls. line_of X dir (sh_fs s) l))
     \<and> (\<forall>i. handle_ok X dir (sh_fs s) (fst (sh_handles s i)) \<and> pc_ok X dir (sh_fs s) (snd (sh_handles s i)))"

lemma line_of_grows: "grows f f' \<Longrightarrow> line_of X dir f l \<Longrightarrow> line_of X dir f' l"
  using reads_hash_grows [OF grows_reads] by (fastforce simp: line_of_def)

lemma handle_ok_grows: "grows f f' \<Longrightarrow> handle_ok X dir f st \<Longrightarrow> handle_ok X dir f' st"
  using reads_hash_grows [OF grows_reads] by (auto simp: handle_ok_def packs_sound_def)

lemma pc_ok_grows: "grows f f' \<Longrightarrow> pc_ok X dir f pc \<Longrightarrow> pc_ok X dir f' pc"
  using reads_hash_grows [OF grows_reads] by (cases pc) auto

text \<open>A step of one handle: the file system grows and only that handle is to be checked again.\<close>

lemma sib_inv_update:
  assumes inv: "sib_inv X dir s" and g: "grows (sh_fs s) f'"
    and sc: "sidecar f' (dir @ [''packs'', ''index'']) ls" and good: "\<And>l. l \<in> set ls \<Longrightarrow> line_of X dir f' l"
    and st: "handle_ok X dir f' st'" and pc: "pc_ok X dir f' pc'"
  shows "sib_inv X dir (set_handle s i st' pc' f')"
proof -
  have "accessible dir f'" using inv g by (simp add: sib_inv_def accessible_def grows_def)
  moreover have "handle_ok X dir f' (fst (sh_handles s j)) \<and> pc_ok X dir f' (snd (sh_handles s j))" for j
    using inv handle_ok_grows [OF g] pc_ok_grows [OF g] by (simp add: sib_inv_def)
  ultimately show ?thesis using sc good st pc by (auto simp: sib_inv_def set_handle_def)
qed

lemma sib_inv_local:
  assumes "sib_inv X dir s" and "handle_ok X dir (sh_fs s) st'" and "pc_ok X dir (sh_fs s) pc'"
  shows "sib_inv X dir (set_handle s i st' pc' (sh_fs s))"
  using assms sib_inv_update [OF assms(1) grows_refl] by (auto simp: sib_inv_def)

lemma refresh_handle_ok:
  assumes "hex_ok X" and "sib_inv X dir s" and "handle_ok X dir (sh_fs s) st"
  shows "handle_ok X dir (sh_fs s) (snd (refresh_pack_index X st (sh_fs s)))"
proof -
  obtain ls where ls: "sidecar (sh_fs s) (dir @ [''packs'', ''index'']) ls" "\<And>l. l \<in> set ls \<Longrightarrow> line_of X dir (sh_fs s) l"
    using assms(2) by (auto simp: sib_inv_def)
  have "packs_sound X (snd (refresh_pack_index X st (sh_fs s))) (sh_fs s)"
    using assms(3) ls by (intro refresh_sound [OF assms(1), where ls = ls and dir = dir]) (simp_all add: handle_ok_def)
  then show ?thesis
    using assms(3) by (auto simp: handle_ok_def refresh_pack_index_def split: sum.split option.split)
qed

lemma has_handle_ok:
  "hex_ok X \<Longrightarrow> sib_inv X dir s \<Longrightarrow> handle_ok X dir (sh_fs s) st \<Longrightarrow> handle_ok X dir (sh_fs s) (snd (has X st (sh_fs s) h))"
  by (simp add: has_def Let_def refresh_handle_ok)

lemma recheck_handle_ok:
  assumes "hex_ok X" and "sib_inv X dir s" and "handle_ok X dir (sh_fs s) st"
  shows "handle_ok X dir (sh_fs s) (put_recheck X st (sh_fs s))"
  using refresh_handle_ok [OF assms]
  by (auto simp: put_recheck_def handle_ok_def refresh_refs_def packs_sound_def split: sum.split option.split)

lemma pack_write_state_ok:
  "pack_write ps f packs b = (r, ps', f') \<Longrightarrow> pack_state_ok packs ps \<Longrightarrow> pack_state_ok packs ps'"
  by (auto simp: pack_write_def pack_rotate_def pack_state_ok_def Let_def split: prod.splits sum.splits if_splits)

lemma sib_pack_step:
  assumes inv: "sib_inv X dir s" and h: "sh_handles s i = (st, Checked b)"
    and pw: "pack_write (st_pack_state st) (sh_fs s) (st_packs_dir st) b = (Inr (pid, off), ps, f')" and fits: "fs_fits f'"
  shows "sib_inv X dir (set_handle s i (st\<lparr>st_pack_state := ps\<rparr>) (Packed b pid off) f')"
proof -
  have ok: "handle_ok X dir (sh_fs s) st" and len: "length b < 2 ^ 32"
    using inv h by (auto simp: sib_inv_def dest!: spec [of _ i])
  then have dir: "st_packs_dir st = dir @ [''packs'']" and ps: "pack_state_ok (st_packs_dir st) (st_pack_state st)"
    by (simp_all add: handle_ok_def)
  note w = pack_write_ok [OF pw ps]
  obtain ls where ls: "sidecar (sh_fs s) (dir @ [''packs'', ''index'']) ls" "\<And>l. l \<in> set ls \<Longrightarrow> line_of X dir (sh_fs s) l"
    using inv by (auto simp: sib_inv_def)
  obtain c where c: "hm_get (fs_files f') (st_packs_dir st @ [pack_name pid]) = Some (c @ b)" "off = of_nat (length c)"
    using w(5) by blast
  have off: "unat off = length c" "unat (of_nat (length b) :: u32) = length b"
    using fs_fits_get [OF fits c(1)] c(2) len by (simp_all add: unat_of_nat take_bit_nat_eq_self)
  have "fs_read f' (dir @ [''packs'', pack_name pid]) = Inr (c @ b)"
    using inv w(3) c(1) dir by (simp add: fs_read_def sib_inv_def accessible_def grows_def)
  then have "pc_ok X dir f' (Packed b pid off)" using off by (simp add: reads_hash_def slice_def)
  moreover have "sidecar f' (dir @ [''packs'', ''index'']) ls"
    using pack_name_other(1) [of pid] dir
    by (intro sidecar_other [OF ls(1) w(3,4)]) (auto simp: WRITE_GUARD_NAME_def)
  moreover have "handle_ok X dir f' (st\<lparr>st_pack_state := ps\<rparr>)"
    using handle_ok_grows [OF w(3) ok] pack_write_state_ok [OF pw ps] dir by (simp add: handle_ok_def packs_sound_def)
  ultimately show ?thesis
    using line_of_grows [OF w(3) ls(2)] by (intro sib_inv_update [OF inv w(3)])
qed

lemma pack_write_error_frame:
  assumes "pack_write ps f (dir @ [''packs'']) b = (Inl e, ps', f')"
  shows "grows f f'" "hm_get (fs_files f') (dir @ [''packs'', ''index'']) = hm_get (fs_files f) (dir @ [''packs'', ''index''])"
proof -
  let ?ip = "dir @ [''packs'', ''index'']"
  obtain r1 ps1 f1 where rot: "pack_rotate ps f (dir @ [''packs'']) = (r1, ps1, f1)" by (metis prod_cases3)
  have f1: "f1 = f \<or> (\<exists>pid. fs_create_append f (dir @ [''packs''] @ [pack_name pid]) = Inr f1)"
    using rot by (auto simp: pack_rotate_def Let_def split: if_splits sum.splits)
  have f': "f' = f1 \<or> fs_create_append f1 (dir @ [''packs''] @ [WRITE_GUARD_NAME]) = Inr f'"
    using assms rot by (auto simp: pack_write_def acquire_write_guard_def Let_def split: sum.splits)
  have "grows f f1" using f1 fs_create_append_grows by auto
  moreover have "grows f1 f'" using f' fs_create_append_grows by auto
  ultimately show "grows f f'" by (rule grows_trans)
  have other: "hm_get (fs_files g') ?ip = hm_get (fs_files g) ?ip"
    if "fs_create_append g (dir @ [''packs''] @ [n]) = Inr g'" "n \<noteq> ''index''" for g g' n
    using fs_create_append_file [OF that(1)] that(2) by (simp add: same_except_def)
  have "hm_get (fs_files f1) ?ip = hm_get (fs_files f) ?ip"
    using f1 other pack_name_other(1) by blast
  moreover have "WRITE_GUARD_NAME \<noteq> ''index''" by (simp add: WRITE_GUARD_NAME_def)
  then have "hm_get (fs_files f') ?ip = hm_get (fs_files f1) ?ip" using f' other by blast
  ultimately show "hm_get (fs_files f') ?ip = hm_get (fs_files f) ?ip" by simp
qed

lemma sib_pack_error_step:
  assumes inv: "sib_inv X dir s" and h: "sh_handles s i = (st, Checked b)"
    and pw: "pack_write (st_pack_state st) (sh_fs s) (st_packs_dir st) b = (Inl e, ps, f')"
  shows "sib_inv X dir (set_handle s i (st\<lparr>st_pack_state := ps\<rparr>) Idle f')"
proof -
  have ok: "handle_ok X dir (sh_fs s) st" using inv h by (auto simp: sib_inv_def dest!: spec [of _ i])
  then have dir: "st_packs_dir st = dir @ [''packs'']" and ps: "pack_state_ok (st_packs_dir st) (st_pack_state st)"
    by (simp_all add: handle_ok_def)
  obtain ls where ls: "sidecar (sh_fs s) (dir @ [''packs'', ''index'']) ls" "\<And>l. l \<in> set ls \<Longrightarrow> line_of X dir (sh_fs s) l"
    using inv by (auto simp: sib_inv_def)
  have fr: "grows (sh_fs s) f'" "hm_get (fs_files f') (dir @ [''packs'', ''index'']) = hm_get (fs_files (sh_fs s)) (dir @ [''packs'', ''index''])"
    using pack_write_error_frame [OF pw [unfolded dir]] by simp_all
  have "sidecar f' (dir @ [''packs'', ''index'']) ls" using ls(1) fr by (simp add: sidecar_def grows_def)
  moreover have "handle_ok X dir f' (st\<lparr>st_pack_state := ps\<rparr>)"
    using handle_ok_grows [OF fr(1) ok] pack_write_state_ok [OF pw ps] dir by (simp add: handle_ok_def packs_sound_def)
  ultimately show ?thesis using line_of_grows [OF fr(1) ls(2)] by (intro sib_inv_update [OF inv fr(1)]) simp_all
qed

lemma sib_index_step:
  assumes X: "hex_ok X" "digest_ok X" and inv: "sib_inv X dir s" and h: "sh_handles s i = (st, Packed b pid off)"
    and app: "append_pack_index_line X (sh_fs s) (st_pack_index_path st) (hash_of (blake3 X) b) pid off (of_nat (length b)) = Inr (written, f')"
  shows "sib_inv X dir (set_handle s i st (Indexed b pid off written) f')"
proof -
  let ?l = "pack_index_line X (hash_of (blake3 X) b) pid off (of_nat (length b))"
  have ok: "handle_ok X dir (sh_fs s) st" and pc: "pc_ok X dir (sh_fs s) (Packed b pid off)"
    using inv h by (auto simp: sib_inv_def dest!: spec [of _ i])
  then have ip: "st_pack_index_path st = dir @ [''packs'', ''index'']" by (simp add: handle_ok_def)
  have fa: "fs_append (sh_fs s) (dir @ [''packs'', ''index'']) (str_bytes (?l @ [NL])) = Inr f'"
    using app ip by (auto simp: append_pack_index_line_def Let_def split: sum.splits)
  note g = fs_append_grows [OF fa]
  obtain ls where ls: "sidecar (sh_fs s) (dir @ [''packs'', ''index'']) ls" "\<And>l. l \<in> set ls \<Longrightarrow> line_of X dir (sh_fs s) l"
    using inv by (auto simp: sib_inv_def)
  have sc: "sidecar f' (dir @ [''packs'', ''index'']) (ls @ [?l])"
    using sidecar_append [OF ls(1) tidy_pack_index_line [OF X(1)] fa] .
  have "line_of X dir (sh_fs s) ?l" using pc wf_hash_of [OF X(2), of b] by (auto simp: line_of_def)
  then have "line_of X dir f' l" if "l \<in> set (ls @ [?l])" for l using that line_of_grows [OF g] ls(2) by auto
  moreover have "pc_ok X dir f' (Indexed b pid off written)" using pc_ok_grows [OF g pc] by simp
  ultimately show ?thesis
    using sib_inv_update [OF inv g sc _ handle_ok_grows [OF g ok]] by blast
qed

lemma sib_commit_step:
  assumes inv: "sib_inv X dir s" and h: "sh_handles s i = (st, Indexed b pid off written)"
  shows "sib_inv X dir (set_handle s i (put_commit X st b pid off written) Idle (sh_fs s))"
proof -
  have "handle_ok X dir (sh_fs s) st" "pc_ok X dir (sh_fs s) (Indexed b pid off written)"
    using inv h by (auto simp: sib_inv_def dest!: spec [of _ i])
  then have "handle_ok X dir (sh_fs s) (put_commit X st b pid off written)"
    by (auto simp: handle_ok_def put_commit_def packs_sound_def)
  then show ?thesis by (intro sib_inv_local [OF inv]) simp_all
qed

lemma sib_step_inv:
  assumes X: "hex_ok X" "digest_ok X"
  shows "sib_step X s s' \<Longrightarrow> sib_inv X dir s \<Longrightarrow> sib_inv X dir s'"
proof (induction rule: sib_step.induct)
  case (probe s i st b known st')
  then have "handle_ok X dir (sh_fs s) st" by (auto simp: sib_inv_def dest!: spec [of _ i])
  then have "handle_ok X dir (sh_fs s) st'"
    using has_handle_ok [OF X(1) probe.prems, of st "hash_of (blake3 X) b"] probe.hyps(3) by simp
  then show ?case using probe.hyps(2) by (intro sib_inv_local [OF probe.prems]) simp_all
next
  case (recheck s i st b st')
  then have "handle_ok X dir (sh_fs s) st" and len: "length b < 2 ^ 32" by (auto simp: sib_inv_def dest!: spec [of _ i])
  then have "handle_ok X dir (sh_fs s) st'" using recheck_handle_ok [OF X(1) recheck.prems] recheck.hyps(2) by simp
  then show ?case using len by (intro sib_inv_local [OF recheck.prems]) simp_all
next
  case (pack_error s i st b e ps f')
  then show ?case using sib_pack_error_step by blast
next
  case (pack s i st b pid off ps f')
  then show ?case using sib_pack_step by blast
next
  case (index_error s i st b pid off e)
  then have "handle_ok X dir (sh_fs s) st" by (auto simp: sib_inv_def dest!: spec [of _ i])
  then show ?case by (intro sib_inv_local [OF index_error.prems]) simp_all
next
  case (index s i st b pid off written f')
  then show ?case using sib_index_step [OF X] by blast
next
  case (commit s i st b pid off written)
  then show ?case using sib_commit_step by blast
next
  case (refresh s i st pc)
  then have "handle_ok X dir (sh_fs s) st" "pc_ok X dir (sh_fs s) pc" by (auto simp: sib_inv_def dest!: spec [of _ i])
  then show ?case using refresh_handle_ok [OF X(1) refresh.prems] by (intro sib_inv_local [OF refresh.prems]) simp_all
qed

lemma sib_steps_inv:
  assumes "hex_ok X" "digest_ok X" and "(sib_step X)\<^sup>*\<^sup>* s s'" and "sib_inv X dir s"
  shows "sib_inv X dir s'"
  using assms(3,4) by (induction rule: rtranclp_induct) (auto intro: sib_step_inv [OF assms(1,2)])

section \<open>Runs\<close>

text \<open>A put that nobody interrupts is a run of the step relation.\<close>

lemma set_handle_twice [simp]: "set_handle (set_handle s i st pc f) i st' pc' f' = set_handle s i st' pc' f'"
  by (simp add: set_handle_def)

lemma set_handle_fields [simp]: "sh_handles (set_handle s i st pc f) i = (st, pc)" "sh_fs (set_handle s i st pc f) = f"
    "j \<noteq> i \<Longrightarrow> sh_handles (set_handle s i st pc f) j = sh_handles s j"
  by (simp_all add: set_handle_def)

lemma check_run:
  assumes "sh_handles s i = (st, Idle)" and "length b < 2 ^ 32"
    and "has X st (sh_fs s) (hash_of (blake3 X) b) = (False, st1)" and "st2 = put_recheck X st1 (sh_fs s)"
    and "\<not> present X st2 (sh_fs s) (hash_of (blake3 X) b)"
    and pw: "pack_write (st_pack_state st2) (sh_fs s) (st_packs_dir st2) b = (Inr (pid, off), ps, f')" and "fs_fits f'"
  shows "(sib_step X)\<^sup>*\<^sup>* s (set_handle s i (st2\<lparr>st_pack_state := ps\<rparr>) (Packed b pid off) f')"
proof -
  let ?s1 = "set_handle s i st1 (Probed b) (sh_fs s)" and ?s2 = "set_handle s i st2 (Checked b) (sh_fs s)"
  have "sib_step X s ?s1" using sib_step.probe [OF assms(1-3)] by simp
  moreover have "sib_step X ?s1 ?s2" using sib_step.recheck [of ?s1 i st1 b st2 X] assms(4,5) by simp
  moreover have "sib_step X ?s2 (set_handle s i (st2\<lparr>st_pack_state := ps\<rparr>) (Packed b pid off) f')"
    using sib_step.pack [of ?s2 i st2 b pid off ps f' X] pw assms(7) by simp
  ultimately show ?thesis by (meson converse_rtranclp_into_rtranclp r_into_rtranclp)
qed

lemma finish_run:
  assumes "sh_handles s i = (st, Packed b pid off)"
    and "append_pack_index_line X (sh_fs s) (st_pack_index_path st) (hash_of (blake3 X) b) pid off (of_nat (length b)) = Inr (written, f')"
  shows "(sib_step X)\<^sup>*\<^sup>* s (set_handle s i (put_commit X st b pid off written) Idle f')"
proof -
  let ?s1 = "set_handle s i st (Indexed b pid off written) f'"
  have "sib_step X s ?s1" using sib_step.index [OF assms] .
  moreover have "sib_step X ?s1 (set_handle s i (put_commit X st b pid off written) Idle f')"
    using sib_step.commit [of ?s1 i st b pid off written X] by simp
  ultimately show ?thesis by (meson converse_rtranclp_into_rtranclp r_into_rtranclp)
qed

lemma put_run:
  assumes "sh_handles s i = (st, Idle)" and "length b < 2 ^ 32" and "put X st (sh_fs s) b = (Inr (h, True), st', f')" and "fs_fits f'"
  shows "(sib_step X)\<^sup>*\<^sup>* s (set_handle s i st' Idle f')"
proof -
  let ?h = "hash_of (blake3 X) b" and ?f = "sh_fs s"
  obtain known st1 where hs: "has X st ?f ?h = (known, st1)" by fastforce
  define st2 where "st2 = put_recheck X st1 ?f"
  have run: "put_steps X st ?f b = (Inr (h, True), st', f')" using assms(3) by (simp add: put_steps_put)
  then have chk: "\<not> known" "\<not> present X st2 ?f ?h" using hs by (auto simp: put_steps_def Let_def st2_def split: if_splits)
  obtain r1 ps f1 where pw: "pack_write (st_pack_state st2) ?f (st_packs_dir st2) b = (r1, ps, f1)" by (metis prod_cases3)
  obtain pid off where r1: "r1 = Inr (pid, off)"
    using run hs chk pw by (cases r1) (auto simp: put_steps_def Let_def st2_def)
  obtain written where ap: "append_pack_index_line X f1 (st_pack_index_path st2) ?h pid off (of_nat (length b)) = Inr (written, f')"
    and st': "st' = put_commit X (st2\<lparr>st_pack_state := ps\<rparr>) b pid off written"
    using run hs chk pw r1 by (auto simp: put_steps_def Let_def st2_def split: sum.splits)
  have "fs_append f1 (st_pack_index_path st2) (str_bytes (pack_index_line X ?h pid off (of_nat (length b)) @ [NL])) = Inr f'"
    using ap by (auto simp: append_pack_index_line_def Let_def split: sum.splits)
  then have "fs_fits f1" using assms(4) fs_append_grows grows_fits by blast
  from check_run [OF assms(1,2) _ st2_def chk(2) pw [unfolded r1] this] hs chk(1)
  have a: "(sib_step X)\<^sup>*\<^sup>* s (set_handle s i (st2\<lparr>st_pack_state := ps\<rparr>) (Packed b pid off) f1)" by simp
  have "(sib_step X)\<^sup>*\<^sup>* (set_handle s i (st2\<lparr>st_pack_state := ps\<rparr>) (Packed b pid off) f1)
      (set_handle (set_handle s i (st2\<lparr>st_pack_state := ps\<rparr>) (Packed b pid off) f1) i st' Idle f')"
    unfolding st' using ap by (intro finish_run) simp_all
  with a show ?thesis by simp
qed

subsection \<open>Two handles on one directory\<close>

definition race_start :: shared where
  "race_start = \<lparr>sh_fs = sample_fs, sh_handles = (\<lambda>_. (sample_store, Idle))\<rparr>"

lemma race_start_inv: "sib_inv sample_crates [''s''] race_start"
proof -
  have inv: "layout_of [''s''] sample_store" "accessible [''s''] sample_fs" "packs_sound sample_crates sample_store sample_fs"
    using sample_store_inv(1) by (simp_all add: store_inv_def)
  have "hm_get (fs_files sample_fs) [''s'', ''packs'', ''index''] = None" "[''s'', ''packs'', ''index''] \<notin> set (fs_dirs sample_fs)"
    by code_simp+
  moreover have "\<not> fs_denied sample_fs [''s'', ''packs'', ''index'']"
    using inv(2) unfolding accessible_def by (metis append_Cons append_Nil)
  ultimately have "sidecar sample_fs [''s'', ''packs'', ''index''] []" by (simp add: sidecar_def)
  then have "\<exists>ls. sidecar sample_fs ([''s''] @ [''packs'', ''index'']) ls \<and> (\<forall>l \<in> set ls. line_of sample_crates [''s''] sample_fs l)"
    by (intro exI [of _ "[]"]) simp
  moreover have "handle_ok sample_crates [''s''] sample_fs sample_store"
    using inv(1,3) by (simp add: handle_ok_def layout_of_def pack_state_ok_def)
  ultimately show ?thesis using inv(2) by (simp add: sib_inv_def race_start_def)
qed

definition race_b1 :: bytes where "race_b1 = [1, 2, 3]"

definition race_b2 :: bytes where "race_b2 = [4, 5, 6]"

definition race_checked :: store where
  "race_checked = put_recheck sample_crates (snd (has sample_crates sample_store sample_fs (hash_of (blake3 sample_crates) race_b1))) sample_fs"

definition race_pack :: "(io_error + u32 \<times> u64) \<times> pack_state \<times> fs" where
  "race_pack = pack_write (st_pack_state race_checked) sample_fs (st_packs_dir race_checked) race_b1"

definition race_packed :: store where
  "race_packed = race_checked\<lparr>st_pack_state := fst (snd race_pack)\<rparr>"

definition race_sibling :: "(store_error + hash \<times> bool) \<times> store \<times> fs" where
  "race_sibling = put sample_crates sample_store (snd (snd race_pack)) race_b2"

definition race_append :: "io_error + u64 \<times> fs" where
  "race_append = append_pack_index_line sample_crates (snd (snd race_sibling)) (st_pack_index_path race_packed)
     (hash_of (blake3 sample_crates) race_b1) 0 0 3"

definition race_end :: shared where
  "race_end = set_handle (set_handle (set_handle race_start 0 race_packed (Packed race_b1 0 0) (snd (snd race_pack)))
       1 (fst (snd race_sibling)) Idle (snd (snd race_sibling)))
     0 (put_commit sample_crates race_packed race_b1 0 0 (fst (projr race_append))) Idle (snd (projr race_append))"

lemma race_facts:
  "fst (has sample_crates sample_store sample_fs (hash_of (blake3 sample_crates) race_b1)) = False"
  "present sample_crates race_checked sample_fs (hash_of (blake3 sample_crates) race_b1) = False"
  "fst race_pack = Inr (0, 0)" "fst race_sibling = Inr (hash_of (blake3 sample_crates) race_b2, True)" "isl race_append = False"
  by code_simp+

lemma race_fits: "fs_fits (snd (snd race_pack))" "fs_fits (snd (snd race_sibling))"
  by (rule fs_fits_small, code_simp)+

lemma race_run: "(sib_step sample_crates)\<^sup>*\<^sup>* race_start race_end"
proof -
  let ?X = sample_crates and ?f1 = "snd (snd race_pack)" and ?f2 = "snd (snd race_sibling)" and ?B = "fst (snd race_sibling)"
  let ?s1 = "set_handle race_start 0 race_packed (Packed race_b1 0 0) ?f1" and ?s2 = "set_handle (set_handle race_start 0 race_packed (Packed race_b1 0 0) ?f1) 1 ?B Idle ?f2"
  have "pack_write (st_pack_state race_checked) sample_fs (st_packs_dir race_checked) race_b1 = (Inr (0, 0), fst (snd race_pack), ?f1)"
    using race_facts(3) unfolding race_pack_def by (metis prod.collapse)
  then have a: "(sib_step ?X)\<^sup>*\<^sup>* race_start ?s1"
    unfolding race_packed_def using race_facts(1,2) race_fits(1)
    by (intro check_run [where st = sample_store and ?st1.0 = "snd (has ?X sample_store sample_fs (hash_of (blake3 ?X) race_b1))"])
       (simp_all add: race_start_def race_b1_def race_checked_def prod_eq_iff)
  have "put ?X sample_store ?f1 race_b2 = (Inr (hash_of (blake3 ?X) race_b2, True), ?B, ?f2)"
    using race_facts(4) unfolding race_sibling_def by (metis prod.collapse)
  then have b: "(sib_step ?X)\<^sup>*\<^sup>* ?s1 ?s2"
    using race_fits(2) by (intro put_run [where st = sample_store]) (simp_all add: race_start_def race_b2_def set_handle_def)
  have "append_pack_index_line ?X ?f2 (st_pack_index_path race_packed) (hash_of (blake3 ?X) race_b1) 0 0 (of_nat (length race_b1))
      = Inr (fst (projr race_append), snd (projr race_append))"
    using race_facts(5) by (simp add: race_append_def race_b1_def sum.collapse(2))
  then have "(sib_step ?X)\<^sup>*\<^sup>* ?s2 race_end"
    unfolding race_end_def by (intro finish_run) simp_all
  with a b show ?thesis by (meson rtranclp_trans)
qed

lemma race_end_parts:
  "fst (sh_handles race_end 0) = put_commit sample_crates race_packed race_b1 0 0 (fst (projr race_append))"
  "fst (sh_handles race_end 1) = fst (snd race_sibling)" "sh_fs race_end = snd (projr race_append)"
  by (simp_all add: race_end_def set_handle_def)

lemma race_lost: "fst (get sample_crates (fst (sh_handles race_end 0)) (sh_fs race_end) (hash_of (blake3 sample_crates) [4, 5, 6])) = Inr None"
  unfolding race_end_parts by code_simp

lemma race_kept: "fst (get sample_crates (fst (sh_handles race_end 1)) (sh_fs race_end) (hash_of (blake3 sample_crates) [4, 5, 6])) = Inr (Some [4, 5, 6])"
  unfolding race_end_parts by code_simp

section \<open>Properties\<close>

text \<open>
  C24. Sibling handles never read wrong bytes: from any good shared state, in every interleaving of any
  number of handles' puts and refreshes (index cursors possibly anywhere, even inside a line), every
  handle's index entry leads to bytes of its hash, so a packed lookup answers either nothing or verified
  bytes, never corruption and never an I/O error.
\<close>

theorem siblings_index_sound:
  assumes "hex_ok X" "digest_ok X" and "sib_inv X dir s" and "(sib_step X)\<^sup>*\<^sup>* s s'"
  shows "sib_inv X dir s' \<and> (\<forall>i h. get_from_pack_index X (fst (sh_handles s' i)) (sh_fs s') h = Inr None
    \<or> (\<exists>b. get_from_pack_index X (fst (sh_handles s' i)) (sh_fs s') h = Inr (Some b) \<and> hash_of (blake3 X) b = h))"
proof -
  have inv: "sib_inv X dir s'" using sib_steps_inv [OF assms(1,2,4,3)] .
  then have "packs_sound X (fst (sh_handles s' i)) (sh_fs s')" for i by (simp add: sib_inv_def handle_ok_def)
  then show ?thesis using inv get_from_pack_sound by blast
qed

theorem siblings_index_sound_witness: "sib_inv sample_crates [''s''] race_end"
  using siblings_index_sound [OF hex_ok_sample digest_ok_sample race_start_inv race_run] by blast


end
