(* ===== verification/Reputation.thy ===== *)
theory Reputation
  imports Fs Crates "HOL-Library.List_Lexorder" "HOL-Library.Product_Lexorder" "HOL-Library.Multiset"
begin

text \<open>
  The reputation crate (\<open>crates/np2ptp-rep\<close>): peer identities, signed receipts and the contribution
  ledger that decides who is unchoked. Ed25519 (\<open>ed25519_dalek\<close>) and \<open>bincode\<close> are parameters; a
  ledger is generic in its key type, as in the source. The ledger's counters are 64-bit words, its
  persistence is the write-then-rename of the source with the crash points in between.
\<close>

section \<open>Identities\<close>

record ed25519 =
  ed_public :: "bytes \<Rightarrow> bytes"
  ed_sign :: "bytes \<Rightarrow> bytes \<Rightarrow> bytes"
  ed_valid_key :: "bytes \<Rightarrow> bool"
  ed_verify_strict :: "bytes \<Rightarrow> bytes \<Rightarrow> bytes \<Rightarrow> bool"

text \<open>
  \<open>ed_public seed\<close> and \<open>ed_sign seed msg\<close> are the verifying key and the signature of the key made from
  a seed; \<open>ed_valid_key\<close> is success of \<open>VerifyingKey::from_bytes\<close>.
\<close>

definition ed_ok :: "ed25519 \<Rightarrow> bool" where
  "ed_ok E \<longleftrightarrow> (\<forall>seed msg. length seed = 32 \<longrightarrow>
     length (ed_public E seed) = 32 \<and> ed_valid_key E (ed_public E seed) \<and> length (ed_sign E seed msg) = 64
     \<and> ed_verify_strict E (ed_public E seed) msg (ed_sign E seed msg))"

datatype peer_id = PeerId (peer_bytes: bytes)

definition wf_peer :: "peer_id \<Rightarrow> bool" where
  "wf_peer p \<longleftrightarrow> length (peer_bytes p) = 32"

definition peer_to_hex :: "crates \<Rightarrow> peer_id \<Rightarrow> string" where
  "peer_to_hex X p = hex_encode X (peer_bytes p)"

definition peer_from_hex :: "crates \<Rightarrow> string \<Rightarrow> from_hex_error + peer_id" where
  "peer_from_hex X s = (case hex_decode X s 32 of Inl e \<Rightarrow> Inl e | Inr b \<Rightarrow> Inr (PeerId b))"

definition peer_verify :: "ed25519 \<Rightarrow> peer_id \<Rightarrow> bytes \<Rightarrow> bytes \<Rightarrow> bool" where
  "peer_verify E p msg sig =
     (if \<not> ed_valid_key E (peer_bytes p) then False
      else if length sig \<noteq> 64 then False
      else ed_verify_strict E (peer_bytes p) msg sig)"

record identity = id_signing :: bytes

definition from_seed :: "bytes \<Rightarrow> identity" where
  "from_seed seed = \<lparr>id_signing = seed\<rparr>"

definition id_seed :: "identity \<Rightarrow> bytes" where
  "id_seed i = id_signing i"

definition id_peer_id :: "ed25519 \<Rightarrow> identity \<Rightarrow> peer_id" where
  "id_peer_id E i = PeerId (ed_public E (id_signing i))"

definition id_sign :: "ed25519 \<Rightarrow> identity \<Rightarrow> bytes \<Rightarrow> bytes" where
  "id_sign E i msg = ed_sign E (id_signing i) msg"

text \<open>The derived \<open>Ord\<close> of a peer id is the lexicographic order of its bytes.\<close>

instantiation peer_id :: linorder
begin

definition less_eq_peer_id :: "peer_id \<Rightarrow> peer_id \<Rightarrow> bool" where
  "less_eq_peer_id p q \<longleftrightarrow> peer_bytes p \<le> peer_bytes q"

definition less_peer_id :: "peer_id \<Rightarrow> peer_id \<Rightarrow> bool" where
  "less_peer_id p q \<longleftrightarrow> peer_bytes p < peer_bytes q"

instance
  by standard (auto simp: less_eq_peer_id_def less_peer_id_def peer_id.expand)

end

section \<open>Receipts\<close>

definition RECEIPT_TAG :: bytes where
  "RECEIPT_TAG = str_bytes ''np2ptp-receipt-v1''"

text \<open>\<open>u64::to_le_bytes\<close>.\<close>

definition to_le_bytes :: "u64 \<Rightarrow> bytes" where
  "to_le_bytes w = map (\<lambda>i. ucast (drop_bit (8 * i) w)) [0..<8]"

record receipt =
  rc_server :: peer_id
  rc_client :: peer_id
  rc_bytes :: u64
  rc_epoch :: u64
  rc_sig :: bytes

definition canonical :: "peer_id \<Rightarrow> peer_id \<Rightarrow> u64 \<Rightarrow> u64 \<Rightarrow> bytes" where
  "canonical server client n epoch =
     RECEIPT_TAG @ peer_bytes server @ peer_bytes client @ to_le_bytes n @ to_le_bytes epoch"

definition receipt_issue :: "ed25519 \<Rightarrow> identity \<Rightarrow> peer_id \<Rightarrow> u64 \<Rightarrow> u64 \<Rightarrow> receipt" where
  "receipt_issue E client server n epoch =
     (let client_id = id_peer_id E client; msg = canonical server client_id n epoch in
      \<lparr>rc_server = server, rc_client = client_id, rc_bytes = n, rc_epoch = epoch, rc_sig = id_sign E client msg\<rparr>)"

definition receipt_verify :: "ed25519 \<Rightarrow> receipt \<Rightarrow> bool" where
  "receipt_verify E r =
     peer_verify E (rc_client r) (canonical (rc_server r) (rc_client r) (rc_bytes r) (rc_epoch r)) (rc_sig r)"

section \<open>The ledger\<close>

datatype ledger_error = LedgerIo io_error | LedgerCodec string

record counters =
  ct_served_to_us :: u64
  ct_we_served :: u64
  ct_credited :: u64

definition no_counters :: counters where
  "no_counters = \<lparr>ct_served_to_us = 0, ct_we_served = 0, ct_credited = 0\<rparr>"

record 'k ledger =
  lg_peers :: "('k, counters) hmap"
  lg_path :: "path option"

definition ledger_new :: "'k ledger" where
  "ledger_new = \<lparr>lg_peers = [], lg_path = None\<rparr>"

definition ledger_counters :: "'k ledger \<Rightarrow> 'k \<Rightarrow> counters" where
  "ledger_counters L k = (case hm_get (lg_peers L) k of Some c \<Rightarrow> c | None \<Rightarrow> no_counters)"

text \<open>\<open>self.peers.entry(k).or_default()\<close> followed by an update in place.\<close>

definition entry_update :: "'k \<Rightarrow> (counters \<Rightarrow> counters) \<Rightarrow> 'k ledger \<Rightarrow> 'k ledger" where
  "entry_update k g L = L\<lparr>lg_peers := hm_insert k (g (ledger_counters L k)) (lg_peers L)\<rparr>"

definition record_received :: "'k \<Rightarrow> u64 \<Rightarrow> 'k ledger \<Rightarrow> 'k ledger" where
  "record_received k n = entry_update k (\<lambda>c. c\<lparr>ct_served_to_us := sat_add (ct_served_to_us c) n\<rparr>)"

definition record_served :: "'k \<Rightarrow> u64 \<Rightarrow> 'k ledger \<Rightarrow> 'k ledger" where
  "record_served k n = entry_update k (\<lambda>c. c\<lparr>ct_we_served := sat_add (ct_we_served c) n\<rparr>)"

definition credit_receipt :: "'k \<Rightarrow> u64 \<Rightarrow> 'k ledger \<Rightarrow> 'k ledger" where
  "credit_receipt k n = entry_update k (\<lambda>c. c\<lparr>ct_credited := sat_add (ct_credited c) n\<rparr>)"

definition add_counters :: "counters \<Rightarrow> counters \<Rightarrow> counters" where
  "add_counters t c =
     \<lparr>ct_served_to_us = sat_add (ct_served_to_us t) (ct_served_to_us c),
      ct_we_served = sat_add (ct_we_served t) (ct_we_served c),
      ct_credited = sat_add (ct_credited t) (ct_credited c)\<rparr>"

definition ledger_totals :: "'k ledger \<Rightarrow> counters" where
  "ledger_totals L = foldl add_counters no_counters (map snd (lg_peers L))"

text \<open>The difference is taken in \<open>i128\<close>, which it cannot leave, and clamped to \<open>i64\<close>.\<close>

definition clamp_i64 :: "int \<Rightarrow> int" where
  "clamp_i64 n = (if n < - 9223372036854775808 then - 9223372036854775808
                  else if 9223372036854775807 < n then 9223372036854775807 else n)"

definition reputation :: "'k ledger \<Rightarrow> 'k \<Rightarrow> int" where
  "reputation L k =
     (let c = ledger_counters L k in clamp_i64 (uint (ct_served_to_us c) + uint (ct_credited c) - uint (ct_we_served c)))"

text \<open>\<open>sort_by\<close> with reputation descending, then the key: a stable sort on the pair.\<close>

definition rank_for_unchoke :: "'k::linorder ledger \<Rightarrow> 'k list \<Rightarrow> nat \<Rightarrow> 'k list" where
  "rank_for_unchoke L candidates slots = take slots (sort_key (\<lambda>k. (- reputation L k, k)) candidates)"

text \<open>The unchecked \<open>+=\<close> wraps in a release build.\<close>

definition apply_receipt :: "ed25519 \<Rightarrow> receipt \<Rightarrow> peer_id ledger \<Rightarrow> bool \<times> peer_id ledger" where
  "apply_receipt E r L =
     (if \<not> receipt_verify E r then (False, L)
      else (True, entry_update (rc_server r) (\<lambda>c. c\<lparr>ct_credited := ct_credited c + rc_bytes r\<rparr>) L))"

subsection \<open>Persistence\<close>

text \<open>The process id and the wall clock, which name temporary and quarantined files.\<close>

record proc =
  proc_id :: nat
  proc_millis :: nat

fun rfind_char :: "char \<Rightarrow> string \<Rightarrow> nat option" where
  "rfind_char c [] = None"
| "rfind_char c (x # xs) = (case rfind_char c xs of Some i \<Rightarrow> Some (Suc i) | None \<Rightarrow> if x = c then Some 0 else None)"

text \<open>\<open>Path::with_extension\<close> and \<open>Path::with_file_name\<close> of a path that has a file name.\<close>

definition file_stem :: "string \<Rightarrow> string" where
  "file_stem n = (case rfind_char CHR ''.'' n of None \<Rightarrow> n | Some i \<Rightarrow> if i = 0 then n else take i n)"

definition with_extension :: "path \<Rightarrow> string \<Rightarrow> path" where
  "with_extension p ext = (if p = [] then p else butlast p @ [file_stem (last p) @ ''.'' @ ext])"

definition with_file_name :: "path \<Rightarrow> string \<Rightarrow> path" where
  "with_file_name p n = (if p = [] then [n] else butlast p @ [n])"

definition tmp_path :: "proc \<Rightarrow> path \<Rightarrow> path" where
  "tmp_path pr p = with_extension p (''tmp-'' @ show_nat (proc_id pr))"

definition name_or_state :: "path \<Rightarrow> string" where
  "name_or_state p = (if p \<noteq> [] \<and> valid_utf8 (str_bytes (last p)) then last p else ''state'')"

definition quarantine_corrupt :: "proc \<Rightarrow> path \<Rightarrow> fs \<Rightarrow> fs" where
  "quarantine_corrupt pr p f =
     (let aside = with_file_name p (name_or_state p @ ''.corrupt-'' @ show_nat (proc_millis pr) @ ''-'' @ show_nat (proc_id pr)) in
      case fs_rename f p aside of Inl _ \<Rightarrow> f | Inr f' \<Rightarrow> f')"

text \<open>\<open>File::create(tmp)\<close>, \<open>write_all\<close>, \<open>sync_data\<close>, then the rename that publishes the file.\<close>

definition write_replace :: "proc \<Rightarrow> fs \<Rightarrow> path \<Rightarrow> bytes \<Rightarrow> (io_error + unit) \<times> fs" where
  "write_replace pr f p b =
     (case fs_write f (tmp_path pr p) b of
        Inl e \<Rightarrow> (Inl e, f)
      | Inr f1 \<Rightarrow> (case fs_rename f1 (tmp_path pr p) p of Inl e \<Rightarrow> (Inl e, f1) | Inr f2 \<Rightarrow> (Inr (), f2)))"

type_synonym 'k ledger_codec = "('k, counters) hmap codec"

definition ledger_open :: "'k ledger_codec \<Rightarrow> proc \<Rightarrow> fs \<Rightarrow> path \<Rightarrow> (ledger_error + 'k ledger) \<times> fs" where
  "ledger_open Z pr f p =
     (case fs_read f p of
        Inr b \<Rightarrow> (case deserialize Z b of
            Inr peers \<Rightarrow> (Inr \<lparr>lg_peers = peers, lg_path = Some p\<rparr>, f)
          | Inl _ \<Rightarrow> (Inr \<lparr>lg_peers = [], lg_path = Some p\<rparr>, quarantine_corrupt pr p f))
      | Inl NotFound \<Rightarrow> (Inr \<lparr>lg_peers = [], lg_path = Some p\<rparr>, f)
      | Inl e \<Rightarrow> (Inl (LedgerIo e), f))"

definition ledger_save :: "'k ledger_codec \<Rightarrow> proc \<Rightarrow> fs \<Rightarrow> 'k ledger \<Rightarrow> (ledger_error + unit) \<times> fs" where
  "ledger_save Z pr f L =
     (case lg_path L of
        None \<Rightarrow> (Inr (), f)
      | Some p \<Rightarrow> (case serialize Z (lg_peers L) of
          Inl e \<Rightarrow> (Inl (LedgerCodec e), f)
        | Inr b \<Rightarrow> (case write_replace pr f p b of (Inl e, f') \<Rightarrow> (Inl (LedgerIo e), f') | (Inr _, f') \<Rightarrow> (Inr (), f'))))"

section \<open>Identities and receipts: lemmas\<close>

lemma to_le_bytes_inj: "to_le_bytes a = to_le_bytes b \<Longrightarrow> a = b"
proof -
  assume eq: "to_le_bytes a = to_le_bytes b"
  have byte: "(ucast (drop_bit (8 * i) a) :: u8) = ucast (drop_bit (8 * i) b)" if "i < 8" for i
    using arg_cong [OF eq, of "\<lambda>l. l ! i"] that by (simp add: to_le_bytes_def del: upt_rec_numeral)
  show "a = b"
  proof (rule bit_word_eqI)
    fix n assume "n < LENGTH(64)"
    then have "n div 8 < 8" "n mod 8 < 8" "8 * (n div 8) + n mod 8 = n" by auto
    then show "bit a n = bit b n"
      using arg_cong [OF byte [of "n div 8"], of "\<lambda>w. bit w (n mod 8)"]
      by (simp add: bit_ucast_iff bit_drop_bit_eq comp_def)
  qed
qed

lemma length_to_le_bytes [simp]: "length (to_le_bytes w) = 8"
  by (simp add: to_le_bytes_def)

lemma canonical_inj:
  assumes "canonical s c n e = canonical s' c' n' e'" and "wf_peer s" "wf_peer s'" "wf_peer c" "wf_peer c'"
  shows "s = s' \<and> c = c' \<and> n = n' \<and> e = e'"
  using assms to_le_bytes_inj by (auto simp: canonical_def wf_peer_def intro: peer_id.expand)

lemma peer_hex_inverse: "hex_ok X \<Longrightarrow> wf_peer p \<Longrightarrow> peer_from_hex X (peer_to_hex X p) = Inr p"
  unfolding peer_from_hex_def peer_to_hex_def hex_ok_def wf_peer_def by (metis (no_types, lifting) peer_id.collapse sum.simps(6))

lemma issued_verifies:
  assumes "ed_ok E" and "length (id_signing c) = 32"
  shows "receipt_verify E (receipt_issue E c s n e)"
  using assms by (simp add: receipt_verify_def receipt_issue_def Let_def peer_verify_def id_peer_id_def id_sign_def ed_ok_def)

text \<open>
  Unforgeability: a signature that verifies under a key was made by the holder of the key, for that
  message. The messages signed so far are a parameter.
\<close>

definition unforgeable :: "ed25519 \<Rightarrow> (bytes \<times> bytes) set \<Rightarrow> bool" where
  "unforgeable E made \<longleftrightarrow> (\<forall>pk msg sig. ed_verify_strict E pk msg sig \<longrightarrow> (pk, msg) \<in> made)"

text \<open>What issuing a set of receipts signs.\<close>

definition issue_signs :: "ed25519 \<Rightarrow> (identity \<times> peer_id \<times> u64 \<times> u64) set \<Rightarrow> (bytes \<times> bytes) set" where
  "issue_signs E issued =
     (\<lambda>(c, s, n, e). (peer_bytes (id_peer_id E c), canonical s (id_peer_id E c) n e)) ` issued"

lemma verified_was_issued:
  assumes unf: "unforgeable E (issue_signs E issued)" and v: "receipt_verify E r"
    and wf: "wf_peer (rc_server r)" "wf_peer (rc_client r)"
    and issued: "\<forall>(c, s, n, e) \<in> issued. wf_peer s \<and> wf_peer (id_peer_id E c)"
  shows "\<exists>c. rc_client r = id_peer_id E c \<and> (c, rc_server r, rc_bytes r, rc_epoch r) \<in> issued"
proof -
  let ?m = "canonical (rc_server r) (rc_client r) (rc_bytes r) (rc_epoch r)"
  have "ed_verify_strict E (peer_bytes (rc_client r)) ?m (rc_sig r)"
    using v by (simp add: receipt_verify_def peer_verify_def split: if_splits)
  then have "(peer_bytes (rc_client r), ?m) \<in> issue_signs E issued" using unf by (auto simp: unforgeable_def)
  then obtain c s n e where i: "(c, s, n, e) \<in> issued" and "?m = canonical s (id_peer_id E c) n e"
    by (auto simp: issue_signs_def)
  moreover from i issued have "wf_peer s" "wf_peer (id_peer_id E c)" by auto
  ultimately show ?thesis using canonical_inj wf by metis
qed

section \<open>The ledger: lemmas\<close>

lemma counters_entry_update:
  "ledger_counters (entry_update k g L) k' = (if k' = k then g (ledger_counters L k) else ledger_counters L k')"
  by (simp add: entry_update_def ledger_counters_def)

lemma entry_update_wf [simp]: "hm_wf (lg_peers L) \<Longrightarrow> hm_wf (lg_peers (entry_update k g L))"
  by (simp add: entry_update_def)

subsection \<open>A log of contributions\<close>

datatype 'k contribution = Received 'k u64 | Served 'k u64 | Credited 'k u64

fun contribute :: "'k contribution \<Rightarrow> 'k ledger \<Rightarrow> 'k ledger" where
  "contribute (Received k n) L = record_received k n L"
| "contribute (Served k n) L = record_served k n L"
| "contribute (Credited k n) L = credit_receipt k n L"

fun received_from :: "'k \<Rightarrow> 'k contribution \<Rightarrow> nat" where
  "received_from k (Received k' n) = (if k' = k then unat n else 0)"
| "received_from k _ = 0"

fun served_to :: "'k \<Rightarrow> 'k contribution \<Rightarrow> nat" where
  "served_to k (Served k' n) = (if k' = k then unat n else 0)"
| "served_to k _ = 0"

fun credited_to :: "'k \<Rightarrow> 'k contribution \<Rightarrow> nat" where
  "credited_to k (Credited k' n) = (if k' = k then unat n else 0)"
| "credited_to k _ = 0"

abbreviation u64_max :: nat where "u64_max \<equiv> 2 ^ 64 - 1"

definition capped :: "nat \<Rightarrow> nat" where "capped n = min n u64_max"

lemma capped_unat [simp]: "capped (unat (w :: u64)) = unat w"
  using u64_bounds(2) [of w] by (simp add: capped_def min_absorb1)

lemma unat_sat_add_capped: "unat (sat_add a b) = capped (unat a + unat b)" for a b :: u64
  by (simp add: unat_sat_add capped_def)

lemma capped_add: "capped (capped a + b) = capped (a + b)"
  by (auto simp: capped_def)

lemmas ledger_ops = record_received_def record_served_def credit_receipt_def counters_entry_update

lemma contribute_counters:
  "unat (ct_served_to_us (ledger_counters (contribute ev L) k)) = capped (unat (ct_served_to_us (ledger_counters L k)) + received_from k ev)"
  "unat (ct_we_served (ledger_counters (contribute ev L) k)) = capped (unat (ct_we_served (ledger_counters L k)) + served_to k ev)"
  "unat (ct_credited (ledger_counters (contribute ev L) k)) = capped (unat (ct_credited (ledger_counters L k)) + credited_to k ev)"
  by (cases ev; auto simp: ledger_ops unat_sat_add_capped)+

lemma capped_fold:
  assumes "\<And>ev L. unat (c (contribute ev L)) = capped (unat (c L :: u64) + g ev)"
  shows "unat (c (fold contribute evs L)) = capped (unat (c L) + sum_list (map g evs))"
proof (induction evs arbitrary: L)
  case (Cons ev evs)
  then show ?case by (simp add: assms capped_add add.assoc)
qed simp

lemma fold_counters:
  "unat (ct_served_to_us (ledger_counters (fold contribute evs L) k)) = capped (unat (ct_served_to_us (ledger_counters L k)) + sum_list (map (received_from k) evs))"
  "unat (ct_we_served (ledger_counters (fold contribute evs L) k)) = capped (unat (ct_we_served (ledger_counters L k)) + sum_list (map (served_to k) evs))"
  "unat (ct_credited (ledger_counters (fold contribute evs L) k)) = capped (unat (ct_credited (ledger_counters L k)) + sum_list (map (credited_to k) evs))"
  by (rule capped_fold, rule contribute_counters)+

lemma counters_new [simp]: "ledger_counters ledger_new k = no_counters"
  by (simp add: ledger_counters_def ledger_new_def)

lemma clamp_i64_range: "- (2 ^ 63) \<le> clamp_i64 n \<and> clamp_i64 n \<le> 2 ^ 63 - 1"
  by (simp add: clamp_i64_def)

lemma clamp_i64_mono: "a \<le> b \<Longrightarrow> clamp_i64 a \<le> clamp_i64 b"
  by (simp add: clamp_i64_def)

lemma contribute_wf: "hm_wf (lg_peers L) \<Longrightarrow> hm_wf (lg_peers (contribute ev L))"
  by (cases ev) (simp_all add: ledger_ops)

lemma totals_capped:
  "unat (ct_served_to_us (foldl add_counters t cs)) = capped (unat (ct_served_to_us t) + (\<Sum>c\<leftarrow>cs. unat (ct_served_to_us c)))"
  "unat (ct_we_served (foldl add_counters t cs)) = capped (unat (ct_we_served t) + (\<Sum>c\<leftarrow>cs. unat (ct_we_served c)))"
  "unat (ct_credited (foldl add_counters t cs)) = capped (unat (ct_credited t) + (\<Sum>c\<leftarrow>cs. unat (ct_credited c)))"
  by (induction cs arbitrary: t) (simp_all add: add_counters_def unat_sat_add_capped capped_add add.assoc)

subsection \<open>Ranking\<close>

lemma sort_key_inj_mset:
  assumes "inj f" and "mset xs = mset ys"
  shows "sort_key f xs = sort_key f ys"
proof -
  have "map f (sort_key f zs) = sort (map f zs)" for zs
    by (rule properties_for_sort [symmetric]) simp_all
  moreover have "sort (map f xs) = sort (map f ys)"
    using assms(2) by (intro properties_for_sort) simp_all
  ultimately have "map f (sort_key f xs) = map f (sort_key f ys)" by simp
  then show ?thesis by (simp only: inj_map_eq_map [OF assms(1)])
qed

lemma rank_key_inj: "inj (\<lambda>k. (- reputation L k, k))"
  by (simp add: inj_on_def)

lemma rank_prefix:
  fixes L :: "'k::linorder ledger"
  shows "\<exists>rest. mset (rank_for_unchoke L cs n @ rest) = mset cs \<and> length (rank_for_unchoke L cs n) = min n (length cs)
    \<and> sorted (map (\<lambda>k. (- reputation L k, k)) (rank_for_unchoke L cs n @ rest))"
proof (intro exI conjI)
  let ?key = "\<lambda>k. (- reputation L k, k)"
  let ?s = "sort_key ?key cs"
  have app: "rank_for_unchoke L cs n @ drop n ?s = ?s" by (simp add: rank_for_unchoke_def)
  show "mset (rank_for_unchoke L cs n @ drop n ?s) = mset cs" unfolding app by simp
  show "length (rank_for_unchoke L cs n) = min n (length cs)" by (simp add: rank_for_unchoke_def)
  show "sorted (map ?key (rank_for_unchoke L cs n @ drop n ?s))" unfolding app by simp
qed

subsection \<open>Persistence\<close>

text \<open>Where a crash during the save can leave the disk: nothing done, a torn temporary file, or the end.\<close>

definition replace_crash :: "proc \<Rightarrow> fs \<Rightarrow> path \<Rightarrow> bytes \<Rightarrow> fs \<Rightarrow> bool" where
  "replace_crash pr f p b f' \<longleftrightarrow>
     f' = f \<or> (\<exists>k. fs_write f (tmp_path pr p) (take k b) = Inr f') \<or> f' = snd (write_replace pr f p b)"

lemma fs_read_cong:
  "hm_get (fs_files f') p = hm_get (fs_files f) p \<Longrightarrow> fs_dirs f' = fs_dirs f \<Longrightarrow> fs_denied f' = fs_denied f \<Longrightarrow> fs_read f' p = fs_read f p"
  by (simp add: fs_read_def)

lemma fs_write_read_other: "fs_write f q b = Inr f' \<Longrightarrow> q \<noteq> p \<Longrightarrow> fs_read f' p = fs_read f p"
  using fs_write_file [of f q b f'] by (intro fs_read_cong) (auto simp: same_except_def)

lemma fs_write_read: "fs_write f q b = Inr f' \<Longrightarrow> fs_read f' q = Inr b"
  by (auto simp: fs_write_def fs_open_write_def fs_read_def split: if_splits)

lemma write_replace_read:
  assumes "write_replace pr f p b = (r, f')" and "tmp_path pr p \<noteq> p"
  shows "case r of Inl _ \<Rightarrow> fs_read f' p = fs_read f p | Inr _ \<Rightarrow> fs_read f' p = Inr b"
proof (cases "fs_write f (tmp_path pr p) b")
  case (Inl e)
  with assms show ?thesis by (auto simp: write_replace_def)
next
  case (Inr f1)
  then have r: "fs_read f1 (tmp_path pr p) = Inr b" "fs_read f1 p = fs_read f p"
    using fs_write_read fs_write_read_other assms(2) by auto
  have "fs_read f2 p = Inr b" if "fs_rename f1 (tmp_path pr p) p = Inr f2" for f2
    using that r(1) by (auto simp: fs_rename_def fs_open_write_def fs_read_def split: if_splits)
  with assms(1) r Inr show ?thesis by (auto simp: write_replace_def split: sum.splits)
qed

lemma replace_crash_read:
  assumes "replace_crash pr f p b f'" and "tmp_path pr p \<noteq> p"
  shows "fs_read f' p = fs_read f p \<or> fs_read f' p = Inr b"
proof -
  have "fs_read f' p = fs_read f p" if "fs_write f (tmp_path pr p) (take k b) = Inr f'" for k
    using fs_write_read_other [OF that assms(2)] .
  moreover have "fs_read f' p = fs_read f p \<or> fs_read f' p = Inr b" if "f' = snd (write_replace pr f p b)"
    using write_replace_read [of pr f p b _ f'] that assms(2)
    by (cases "write_replace pr f p b") (auto split: sum.splits)
  ultimately show ?thesis using assms(1) by (auto simp: replace_crash_def)
qed

lemma fs_rename_moved: "fs_rename f p q = Inr f' \<Longrightarrow> fs_read f p = Inr b \<Longrightarrow> hm_get (fs_files f') q = Some b"
  by (auto simp: fs_rename_def split: option.splits)

lemma quarantine_keeps:
  assumes "fs_read f p = Inr b"
  shows "\<exists>q. hm_get (fs_files (quarantine_corrupt pr p f)) q = Some b"
  unfolding quarantine_corrupt_def Let_def
  using fs_rename_moved [OF _ assms] fs_read_Inr [OF assms] by (auto split: sum.split)

definition map_codec_ok :: "('k, 'v) hmap codec \<Rightarrow> ('k, 'v) hmap \<Rightarrow> bool" where
  "map_codec_ok Z m \<longleftrightarrow>
     (\<exists>b m'. serialize Z m = Inr b \<and> deserialize Z b = Inr m' \<and> hm_wf m' \<and> hm_get m' = hm_get m)"

lemma ledger_open_cong: "fs_read f' p = fs_read f p \<Longrightarrow> fst (ledger_open Z pr f' p) = fst (ledger_open Z pr f p)"
  by (auto simp: ledger_open_def split: sum.splits io_error.splits)

lemma ledger_open_encoded:
  assumes "fs_read f p = Inr b" and "serialize Z m = Inr b" and "map_codec_ok Z m"
  shows "\<exists>L. ledger_open Z pr f p = (Inr L, f) \<and> lg_path L = Some p \<and> hm_get (lg_peers L) = hm_get m"
  using assms by (auto simp: map_codec_ok_def ledger_open_def)

section \<open>Sample values\<close>

definition sample_ed :: ed25519 where
  "sample_ed = \<lparr>ed_public = (\<lambda>seed. seed), ed_sign = (\<lambda>seed msg. mix_digest (seed @ msg) @ mix_digest msg),
     ed_valid_key = (\<lambda>_. True), ed_verify_strict = (\<lambda>pk msg sig. sig = mix_digest (pk @ msg) @ mix_digest msg)\<rparr>"

lemma ed_ok_sample: "ed_ok sample_ed"
  using digest32_mix_digest by (simp add: ed_ok_def sample_ed_def digest32_def)

definition sample_identity :: identity where "sample_identity = from_seed (replicate 32 7)"

definition sample_server :: peer_id where "sample_server = PeerId (replicate 32 9)"

text \<open>An ideal scheme in which only one receipt has been signed.\<close>

definition ideal_ed :: "(bytes \<times> bytes) set \<Rightarrow> ed25519" where
  "ideal_ed made = sample_ed\<lparr>ed_verify_strict := (\<lambda>pk msg sig. (pk, msg) \<in> made)\<rparr>"

definition sample_issued :: "(identity \<times> peer_id \<times> u64 \<times> u64) set" where
  "sample_issued = {(sample_identity, sample_server, 100, 1)}"

definition sample_ideal :: ed25519 where
  "sample_ideal = ideal_ed (issue_signs sample_ed sample_issued)"

lemma sample_ideal_unforgeable: "unforgeable sample_ideal (issue_signs sample_ideal sample_issued)"
  by (simp add: unforgeable_def sample_ideal_def ideal_ed_def issue_signs_def id_peer_id_def)

lemma sample_receipt_wf:
  "wf_peer (id_peer_id sample_ideal sample_identity)" "wf_peer sample_server"
  "receipt_verify sample_ideal (receipt_issue sample_ideal sample_identity sample_server 100 1)"
  by (simp_all add: wf_peer_def sample_ideal_def ideal_ed_def sample_ed_def id_peer_id_def sample_identity_def from_seed_def
      sample_server_def receipt_verify_def receipt_issue_def Let_def peer_verify_def id_sign_def issue_signs_def sample_issued_def
      digest32_mix_digest [unfolded digest32_def])

text \<open>A codec for maps over numbers.\<close>

fun enc_entries :: "(nat, counters) hmap \<Rightarrow> bytes" where
  "enc_entries [] = []"
| "enc_entries ((k, c) # m) = of_nat k # to_le_bytes (ct_served_to_us c) @ enc_entries m"

definition sample_map :: "(nat, counters) hmap" where
  "sample_map = [(3, no_counters\<lparr>ct_served_to_us := 500\<rparr>)]"

definition sample_ledger_codec :: "nat ledger_codec" where
  "sample_ledger_codec = \<lparr>serialize = (\<lambda>m. Inr (enc_entries m)),
     deserialize = (\<lambda>b. if b = enc_entries sample_map then Inr sample_map else Inl ''eof'')\<rparr>"

definition sample_ledger :: "nat ledger" where
  "sample_ledger = \<lparr>lg_peers = sample_map, lg_path = Some [''ledger.bin'']\<rparr>"

definition sample_proc :: proc where "sample_proc = \<lparr>proc_id = 42, proc_millis = 1700\<rparr>"

lemma sample_map_codec: "map_codec_ok sample_ledger_codec sample_map"
  by (simp add: map_codec_ok_def sample_ledger_codec_def sample_map_def hm_wf_def)

section \<open>Properties\<close>

text \<open>
  Receipts are authentic. Every issued receipt verifies; and if signatures cannot be forged and the
  keys of the issuers sign only receipts, then a receipt that verifies was issued by its client for
  exactly the server, byte count and epoch it states: the signed encoding admits no second reading.
\<close>

theorem receipts_authentic:
  assumes "unforgeable E (issue_signs E issued)" and "wf_peer (rc_server r)" "wf_peer (rc_client r)"
    and "\<forall>(c, s, n, e) \<in> issued. wf_peer s \<and> wf_peer (id_peer_id E c)"
    and "ed_ok E' \<and> length (id_signing i) = 32"
  shows "(receipt_verify E r \<longrightarrow> (\<exists>c. rc_client r = id_peer_id E c \<and> (c, rc_server r, rc_bytes r, rc_epoch r) \<in> issued))
    \<and> receipt_verify E' (receipt_issue E' i s n e)"
  using verified_was_issued [OF assms(1) _ assms(2-4)] issued_verifies assms(5) by blast

theorem receipts_authentic_witness:
  "\<exists>c. id_peer_id sample_ideal sample_identity = id_peer_id sample_ideal c \<and> (c, sample_server, 100, 1) \<in> sample_issued"
proof -
  let ?r = "receipt_issue sample_ideal sample_identity sample_server 100 1"
  have "wf_peer (rc_server ?r)" "wf_peer (rc_client ?r)" using sample_receipt_wf by (simp_all add: receipt_issue_def Let_def)
  moreover have "\<forall>(c, s, n, e) \<in> sample_issued. wf_peer s \<and> wf_peer (id_peer_id sample_ideal c)"
    using sample_receipt_wf by (simp add: sample_issued_def)
  moreover have "ed_ok sample_ed \<and> length (id_signing sample_identity) = 32"
    by (simp add: ed_ok_sample sample_identity_def from_seed_def)
  ultimately show ?thesis
    using receipts_authentic [OF sample_ideal_unforgeable, of ?r sample_ed sample_identity] sample_receipt_wf(3)
    by (simp add: receipt_issue_def Let_def)
qed

text \<open>
  C26. The ledger refines an unbounded account. After any sequence of contributions, in any order, each
  counter of a peer is the true sum of its contributions capped at the largest 64-bit value, so it never
  wraps; and the reputation is the clamped difference of the capped sums.
\<close>

theorem ledger_refines_account:
  "unat (ct_served_to_us (ledger_counters (fold contribute evs ledger_new) k)) = capped (\<Sum>ev\<leftarrow>evs. received_from k ev)
   \<and> unat (ct_we_served (ledger_counters (fold contribute evs ledger_new) k)) = capped (\<Sum>ev\<leftarrow>evs. served_to k ev)
   \<and> unat (ct_credited (ledger_counters (fold contribute evs ledger_new) k)) = capped (\<Sum>ev\<leftarrow>evs. credited_to k ev)
   \<and> reputation (fold contribute evs ledger_new) k =
       clamp_i64 (int (capped (\<Sum>ev\<leftarrow>evs. received_from k ev)) + int (capped (\<Sum>ev\<leftarrow>evs. credited_to k ev))
         - int (capped (\<Sum>ev\<leftarrow>evs. served_to k ev)))"
proof -
  let ?c = "ledger_counters (fold contribute evs ledger_new) k"
  have "unat (ct_served_to_us ?c) = capped (\<Sum>ev\<leftarrow>evs. received_from k ev)"
    "unat (ct_we_served ?c) = capped (\<Sum>ev\<leftarrow>evs. served_to k ev)"
    "unat (ct_credited ?c) = capped (\<Sum>ev\<leftarrow>evs. credited_to k ev)"
    by (simp_all add: fold_counters no_counters_def)
  moreover have "reputation (fold contribute evs ledger_new) k
      = clamp_i64 (int (unat (ct_served_to_us ?c)) + int (unat (ct_credited ?c)) - int (unat (ct_we_served ?c)))"
    by (simp only: reputation_def Let_def uint_nat)
  ultimately show ?thesis by simp
qed

text \<open>
  Unchoking is fair and deterministic. The chosen peers are as many as slots and candidates allow,
  each of them has a higher reputation than every candidate left out, or the same and a smaller key, and
  the choice does not depend on the order in which the candidates are listed. Reputations stay in the
  range of \<open>i64\<close>, and serving us or being credited never lowers one.
\<close>

theorem unchoke_best:
  fixes L :: "'k::linorder ledger"
  assumes "mset cs' = mset cs"
  shows "rank_for_unchoke L cs' n = rank_for_unchoke L cs n
    \<and> (\<exists>rest. mset (rank_for_unchoke L cs n @ rest) = mset cs \<and> length (rank_for_unchoke L cs n) = min n (length cs)
         \<and> (\<forall>x \<in> set (rank_for_unchoke L cs n). \<forall>y \<in> set rest.
              reputation L y < reputation L x \<or> reputation L y = reputation L x \<and> x \<le> y))
    \<and> - (2 ^ 63) \<le> reputation L k \<and> reputation L k \<le> 2 ^ 63 - 1
    \<and> reputation L k \<le> reputation (record_received k' b L) k \<and> reputation L k \<le> reputation (credit_receipt k' b L) k"
proof (intro conjI)
  show "rank_for_unchoke L cs' n = rank_for_unchoke L cs n"
    unfolding rank_for_unchoke_def using sort_key_inj_mset [OF rank_key_inj assms] by simp
  show "\<exists>rest. mset (rank_for_unchoke L cs n @ rest) = mset cs \<and> length (rank_for_unchoke L cs n) = min n (length cs)
         \<and> (\<forall>x \<in> set (rank_for_unchoke L cs n). \<forall>y \<in> set rest.
              reputation L y < reputation L x \<or> reputation L y = reputation L x \<and> x \<le> y)"
    using rank_prefix [of L cs n] by (fastforce simp: sorted_append)
  show "- (2 ^ 63) \<le> reputation L k" "reputation L k \<le> 2 ^ 63 - 1"
    unfolding reputation_def Let_def using clamp_i64_range by blast+
  have "uint a \<le> uint (sat_add a b)" for a using sat_add_le [of a b] by (simp add: word_le_def)
  then show "reputation L k \<le> reputation (record_received k' b L) k" "reputation L k \<le> reputation (credit_receipt k' b L) k"
    by (auto simp: reputation_def Let_def ledger_ops intro!: clamp_i64_mono)
qed

theorem unchoke_best_witness: "rank_for_unchoke sample_ledger [3, 2, 1] 2 = [3, 1]"
proof -
  have "rank_for_unchoke sample_ledger [3, 2, 1] 2 = rank_for_unchoke sample_ledger [1, 2, 3] 2"
    by (rule conjunct1 [OF unchoke_best]) simp
  also have "\<dots> = [3, 1]" by code_simp
  finally show ?thesis .
qed



text \<open>
  A damaged ledger never stops a node, and is never lost. If the file can be read at all, opening
  succeeds and stays bound to the path; if it cannot be decoded the node starts with no history, and the
  bytes of the file are still on disk, under the old name or the quarantine name.
\<close>

theorem corrupt_ledger_quarantined:
  assumes "fs_read f p = Inr b"
  shows "\<exists>L f'. ledger_open Z pr f p = (Inr L, f') \<and> lg_path L = Some p
    \<and> (\<exists>q. hm_get (fs_files f') q = Some b) \<and> (deserialize Z b = Inr (lg_peers L) \<or> lg_peers L = [])"
  using quarantine_keeps [OF assms, of pr] fs_read_Inr [OF assms] assms
  by (auto simp: ledger_open_def split: sum.splits)

theorem corrupt_ledger_quarantined_witness:
  "\<exists>L f'. ledger_open sample_ledger_codec sample_proc (empty_fs\<lparr>fs_files := [([''l''], [1, 2])]\<rparr>) [''l''] = (Inr L, f')
     \<and> (\<exists>q. hm_get (fs_files f') q = Some [1, 2])"
  using corrupt_ledger_quarantined [of "empty_fs\<lparr>fs_files := [([''l''], [1, 2])]\<rparr>" "[''l'']" "[1, 2]" sample_ledger_codec sample_proc]
  by (auto simp: fs_read_def empty_fs_def hm_get_def)

text \<open>
  Absorbing a receipt with \<open>apply_receipt\<close> adds without saturating, unlike \<open>credit_receipt\<close>: a valid
  receipt can take a peer with the largest credit down to none.
\<close>

theorem apply_receipt_wraps:
  "\<exists>L r. receipt_verify sample_ed r \<and> rc_bytes r = 1 \<and> reputation L (rc_server r) = 2 ^ 63 - 1
     \<and> reputation (snd (apply_receipt sample_ed r L)) (rc_server r) = 0"
proof (intro exI conjI)
  let ?r = "receipt_issue sample_ed sample_identity sample_server 1 1"
  let ?L = "\<lparr>lg_peers = [(sample_server, no_counters\<lparr>ct_credited := - 1\<rparr>)], lg_path = None\<rparr>"
  show v: "receipt_verify sample_ed ?r"
    by (rule issued_verifies [OF ed_ok_sample]) (simp add: sample_identity_def from_seed_def)
  have r: "rc_server ?r = sample_server" "rc_bytes ?r = 1" by (simp_all add: receipt_issue_def Let_def)
  then show "rc_bytes ?r = 1" by simp
  show "reputation ?L (rc_server ?r) = 2 ^ 63 - 1"
    unfolding r reputation_def Let_def ledger_counters_def hm_get_def no_counters_def by (simp add: clamp_i64_def uint_word_ariths)
  have "snd (apply_receipt sample_ed ?r ?L) = entry_update sample_server (\<lambda>c. c\<lparr>ct_credited := ct_credited c + 1\<rparr>) ?L"
    using v unfolding apply_receipt_def r by simp
  then have "ledger_counters (snd (apply_receipt sample_ed ?r ?L)) sample_server = no_counters"
    by (simp only: counters_entry_update) (simp add: ledger_counters_def hm_get_def no_counters_def)
  then show "reputation (snd (apply_receipt sample_ed ?r ?L)) (rc_server ?r) = 0"
    unfolding r reputation_def Let_def by (simp add: no_counters_def clamp_i64_def)
qed

end
