(* ===== verification/Receipt_Bag.thy ===== *)
theory Receipt_Bag
  imports Reputation
begin

text \<open>
  The receipts a node holds about itself (\<open>crates/np2ptp-net/src/receipts.rs\<close>): a bounded list, highest
  byte counts first, kept on disk the way the ledger is.
\<close>

section \<open>The bag\<close>

definition MAX_RECEIPTS :: nat where "MAX_RECEIPTS = 50"

datatype receipt_bag_error = BagIo io_error | BagCodec string

record receipt_bag =
  rb_receipts :: "receipt list"
  rb_path :: "path option"

definition bag_new :: receipt_bag where
  "bag_new = \<lparr>rb_receipts = [], rb_path = None\<rparr>"

definition bag_quarantine_corrupt :: "proc \<Rightarrow> path \<Rightarrow> fs \<Rightarrow> fs" where
  "bag_quarantine_corrupt pr p f =
     (let aside = with_file_name p (name_or_state p @ ''.corrupt-'' @ show_nat (proc_millis pr) @ ''-'' @ show_nat (proc_id pr)) in
      case fs_rename f p aside of Inl _ \<Rightarrow> f | Inr f' \<Rightarrow> f')"

definition bag_open :: "receipt list codec \<Rightarrow> proc \<Rightarrow> fs \<Rightarrow> path \<Rightarrow> (receipt_bag_error + receipt_bag) \<times> fs" where
  "bag_open Z pr f p =
     (case fs_read f p of
        Inr b \<Rightarrow> (case deserialize Z b of
            Inr rs \<Rightarrow> (Inr \<lparr>rb_receipts = rs, rb_path = Some p\<rparr>, f)
          | Inl _ \<Rightarrow> (Inr \<lparr>rb_receipts = [], rb_path = Some p\<rparr>, bag_quarantine_corrupt pr p f))
      | Inl NotFound \<Rightarrow> (Inr \<lparr>rb_receipts = [], rb_path = Some p\<rparr>, f)
      | Inl e \<Rightarrow> (Inl (BagIo e), f))"

text \<open>\<open>sort_by_key\<close> with \<open>Reverse(bytes)\<close> is stable: equal counts keep their order, the new one last.\<close>

definition bag_key :: "receipt \<Rightarrow> int" where
  "bag_key r = - uint (rc_bytes r)"

definition bag_insert :: "receipt \<Rightarrow> receipt_bag \<Rightarrow> receipt_bag" where
  "bag_insert r B =
     (if r \<in> set (rb_receipts B) then B
      else B\<lparr>rb_receipts := take MAX_RECEIPTS (sort_key bag_key (rb_receipts B @ [r]))\<rparr>)"

definition bag_list :: "receipt_bag \<Rightarrow> receipt list" where
  "bag_list B = rb_receipts B"

definition bag_save :: "receipt list codec \<Rightarrow> proc \<Rightarrow> fs \<Rightarrow> receipt_bag \<Rightarrow> (receipt_bag_error + unit) \<times> fs" where
  "bag_save Z pr f B =
     (case rb_path B of
        None \<Rightarrow> (Inr (), f)
      | Some p \<Rightarrow> (case serialize Z (rb_receipts B) of
          Inl e \<Rightarrow> (Inl (BagCodec e), f)
        | Inr b \<Rightarrow> (case write_replace pr f p b of (Inl e, f') \<Rightarrow> (Inl (BagIo e), f') | (Inr _, f') \<Rightarrow> (Inr (), f'))))"

section \<open>The best receipts\<close>

definition bag_inv :: "receipt_bag \<Rightarrow> bool" where
  "bag_inv B \<longleftrightarrow> length (rb_receipts B) \<le> MAX_RECEIPTS \<and> distinct (rb_receipts B) \<and> sorted (map bag_key (rb_receipts B))"

text \<open>
  The contract: of a set of receipts seen, the bag holds as many as it may, and none it dropped has more
  bytes than one it kept.
\<close>

definition best_of :: "receipt set \<Rightarrow> receipt list \<Rightarrow> bool" where
  "best_of seen kept \<longleftrightarrow>
     set kept \<subseteq> seen \<and> (length kept = MAX_RECEIPTS \<or> set kept = seen)
     \<and> (\<forall>k \<in> set kept. \<forall>d \<in> seen - set kept. rc_bytes d \<le> rc_bytes k)"

lemma bag_key_le: "bag_key a \<le> bag_key b \<longleftrightarrow> rc_bytes b \<le> rc_bytes a"
  by (simp add: bag_key_def word_le_def)

lemma bag_inv_insert: "bag_inv B \<Longrightarrow> bag_inv (bag_insert r B)"
  by (auto simp: bag_inv_def bag_insert_def sorted_wrt_take simp flip: take_map)

lemma take_sort_best:
  assumes "distinct xs" and "xs' = sort_key bag_key xs" and "k \<in> set (take n xs')" and "d \<in> set xs - set (take n xs')"
  shows "rc_bytes d \<le> rc_bytes k"
proof -
  have "set xs = set (take n xs') \<union> set (drop n xs')" using assms(2) by (metis append_take_drop_id set_append set_sort)
  then have "d \<in> set (drop n xs')" using assms(4) by blast
  moreover have "sorted (map bag_key (take n xs' @ drop n xs'))" using assms(2) by simp
  ultimately show ?thesis using assms(3) by (auto simp: sorted_append bag_key_le simp del: append_take_drop_id)
qed

lemma best_of_insert:
  assumes inv: "bag_inv B" and best: "best_of seen (rb_receipts B)"
  shows "best_of (insert r seen) (rb_receipts (bag_insert r B))"
proof (cases "r \<in> set (rb_receipts B)")
  case True
  then have "insert r seen = seen" using best by (auto simp: best_of_def)
  with True best show ?thesis by (simp add: bag_insert_def)
next
  case False
  let ?xs = "rb_receipts B @ [r]" and ?s = "sort_key bag_key (rb_receipts B @ [r])"
  let ?k = "take MAX_RECEIPTS ?s"
  have kept: "rb_receipts (bag_insert r B) = ?k" using False by (simp add: bag_insert_def)
  have dist: "distinct ?xs" using False inv by (simp add: bag_inv_def)
  have sub: "set ?k \<subseteq> set ?xs" using set_take_subset [of MAX_RECEIPTS ?s] by simp
  have old: "set (rb_receipts B) \<subseteq> seen" using best by (simp add: best_of_def)
  have full: "length ?k = MAX_RECEIPTS \<or> set ?k = insert r seen"
  proof (cases "length (rb_receipts B) = MAX_RECEIPTS")
    case True
    then show ?thesis by simp
  next
    case False
    then have "length (rb_receipts B) < MAX_RECEIPTS" and "set (rb_receipts B) = seen"
      using inv best by (auto simp: bag_inv_def best_of_def)
    then have "?k = ?s" by simp
    then show ?thesis using \<open>set (rb_receipts B) = seen\<close> by simp
  qed
  have best': "rc_bytes d \<le> rc_bytes k" if k: "k \<in> set ?k" and d: "d \<in> insert r seen - set ?k" for k d
  proof (cases "d \<in> set ?xs")
    case True
    then show ?thesis using take_sort_best [OF dist refl k] d by blast
  next
    case False
    then have old_d: "rc_bytes d \<le> rc_bytes k'" if "k' \<in> set (rb_receipts B)" for k'
      using that best d by (auto simp: best_of_def)
    have len: "length (rb_receipts B) = MAX_RECEIPTS"
      using False d best by (auto simp: best_of_def)
    have rem: "\<exists>k' \<in> set (rb_receipts B). k' = k \<or> k' \<notin> set ?k"
    proof (rule ccontr)
      assume "\<not> ?thesis"
      then have "set (rb_receipts B) \<subseteq> set ?k - {k}" by auto
      then have "card (set (rb_receipts B)) \<le> card (set ?k - {k})" by (intro card_mono) auto
      also have "\<dots> < card (set ?k)" using k by (intro psubset_card_mono) auto
      also have "\<dots> \<le> length ?k" by (rule card_length)
      finally show False using dist len by (simp add: distinct_card)
    qed
    then obtain k' where "k' \<in> set (rb_receipts B)" "k' = k \<or> k' \<notin> set ?k" by blast
    then show ?thesis using old_d take_sort_best [OF dist refl k, of k'] by fastforce
  qed
  show ?thesis
    using sub old full best' unfolding kept best_of_def by auto
qed

lemma fold_bag_best:
  "bag_inv B \<Longrightarrow> best_of seen (rb_receipts B) \<Longrightarrow>
     bag_inv (fold bag_insert rs B) \<and> best_of (seen \<union> set rs) (rb_receipts (fold bag_insert rs B))"
proof (induction rs arbitrary: B seen)
  case (Cons r rs)
  from Cons.IH [OF bag_inv_insert best_of_insert, OF Cons.prems(1) Cons.prems] show ?case by simp
qed simp

lemma bag_quarantine_same: "bag_quarantine_corrupt = quarantine_corrupt"
  by (simp add: fun_eq_iff bag_quarantine_corrupt_def quarantine_corrupt_def)

section \<open>Properties\<close>

text \<open>
  C28. The bag keeps the best receipts. Whatever receipts are inserted and in whatever order, the bag never
  holds more than fifty, holds no duplicate, lists them by falling byte count, holds all of them while
  they are at most fifty, and never keeps a receipt while it has dropped one worth more.
\<close>

theorem bag_keeps_best:
  "bag_inv (fold bag_insert rs bag_new) \<and> best_of (set rs) (bag_list (fold bag_insert rs bag_new))"
  using fold_bag_best [of bag_new "{}" rs] by (simp add: bag_inv_def best_of_def bag_new_def bag_list_def)

text \<open>
  Saving and opening the bag is lossless, and a damaged file never stops a node: after a successful
  save, opening gives the bag back, and a file that cannot be decoded yields an empty bag bound to the
  path while its bytes stay on disk.
\<close>

theorem bag_persists:
  assumes "rb_path B = Some p" and "tmp_path pr p \<noteq> p" and "codec_ok Z (rb_receipts B)"
    and "bag_save Z pr f B = (Inr (), f')" and "fs_read g p = Inr c"
  shows "bag_open Z pr f' p = (Inr B, f')
    \<and> (\<exists>B' g'. bag_open Z pr g p = (Inr B', g') \<and> rb_path B' = Some p \<and> (\<exists>q. hm_get (fs_files g') q = Some c)
         \<and> (deserialize Z c = Inr (rb_receipts B') \<or> rb_receipts B' = []))"
proof
  obtain b where b: "serialize Z (rb_receipts B) = Inr b" "deserialize Z b = Inr (rb_receipts B)"
    using assms(3) by (auto simp: codec_ok_def split: sum.splits)
  then have "write_replace pr f p b = (Inr (), f')"
    using assms(1,4) by (auto simp: bag_save_def split: prod.splits sum.splits)
  then have "fs_read f' p = Inr b" using write_replace_read assms(2) by fastforce
  then show "bag_open Z pr f' p = (Inr B, f')" using b assms(1) by (simp add: bag_open_def)
  show "\<exists>B' g'. bag_open Z pr g p = (Inr B', g') \<and> rb_path B' = Some p \<and> (\<exists>q. hm_get (fs_files g') q = Some c)
         \<and> (deserialize Z c = Inr (rb_receipts B') \<or> rb_receipts B' = [])"
    using quarantine_keeps [OF assms(5), of pr] fs_read_Inr [OF assms(5)] assms(5)
    by (auto simp: bag_open_def bag_quarantine_same split: sum.splits)
qed

definition sample_bag :: receipt_bag where
  "sample_bag = bag_insert (receipt_issue sample_ed sample_identity sample_server 100 1) (bag_new\<lparr>rb_path := Some [''receipts.bin'']\<rparr>)"

definition sample_bag_codec :: "receipt list codec" where
  "sample_bag_codec = \<lparr>serialize = (\<lambda>rs. Inr [of_nat (length rs)]),
     deserialize = (\<lambda>b. if b = [1] then Inr (rb_receipts sample_bag) else if b = [0] then Inr [] else Inl ''eof'')\<rparr>"

theorem bag_persists_witness:
  "\<exists>f'. bag_save sample_bag_codec sample_proc empty_fs sample_bag = (Inr (), f')
     \<and> bag_open sample_bag_codec sample_proc f' [''receipts.bin''] = (Inr sample_bag, f')"
proof -
  let ?Z = sample_bag_codec and ?p = "[''receipts.bin'']"
  have w: "fst (write_replace sample_proc empty_fs ?p [1]) = Inr ()" by code_simp
  then obtain f' where f': "write_replace sample_proc empty_fs ?p [1] = (Inr (), f')" by (metis prod.collapse)
  have one: "length (rb_receipts sample_bag) = 1" "rb_path sample_bag = Some ?p"
    by (simp_all add: sample_bag_def bag_insert_def bag_new_def MAX_RECEIPTS_def)
  have save: "bag_save ?Z sample_proc empty_fs sample_bag = (Inr (), f')"
    using f' one by (simp add: bag_save_def sample_bag_codec_def)
  moreover have "tmp_path sample_proc ?p \<noteq> ?p" by code_simp
  moreover have "codec_ok ?Z (rb_receipts sample_bag)" using one by (simp add: codec_ok_def sample_bag_codec_def)
  moreover have "fs_read (empty_fs\<lparr>fs_files := [(?p, [9])]\<rparr>) ?p = Inr [9]" by (simp add: fs_read_def empty_fs_def hm_get_def)
  ultimately show ?thesis
    using bag_persists [OF one(2), of sample_proc ?Z empty_fs f' "empty_fs\<lparr>fs_files := [(?p, [9])]\<rparr>" "[9]"] by blast
qed

end
