(* ===== verification/Fec.thy ===== *)
theory Fec
  imports Crates
begin

text \<open>
  Forward error correction (\<open>crates/np2ptp-fec/src/lib.rs\<close>): the wrapper over the \<open>raptorq\<close> codec. The
  codec is a parameter, its decoder a state \<open>'d\<close>; what is modelled is what the crate does around it,
  above all the filter that keeps malformed packets from the codec, which would panic on them.
\<close>

section \<open>The codec\<close>

record 'd raptorq =
  rq_config :: "u64 \<Rightarrow> u16 \<Rightarrow> bytes"
  rq_encode :: "bytes \<Rightarrow> u16 \<Rightarrow> u32 \<Rightarrow> bytes \<times> bytes list"
  rq_symbol_size :: "bytes \<Rightarrow> u16"
  rq_source_blocks :: "bytes \<Rightarrow> u8"
  rq_partition :: "u32 \<Rightarrow> u8 \<Rightarrow> u32 \<times> u32 \<times> u32 \<times> u32"
  rq_new :: "bytes \<Rightarrow> 'd"
  rq_decode :: "'d \<Rightarrow> bytes \<Rightarrow> bytes option \<times> 'd"

text \<open>
  \<open>rq_encode\<close> gives the serialized configuration and packets of \<open>Encoder::with_defaults\<close>;
  \<open>rq_symbol_size\<close> and \<open>rq_source_blocks\<close> read a serialized configuration; \<open>rq_decode\<close> feeds one packet.
\<close>

definition DEFAULT_SYMBOL_SIZE :: u16 where "DEFAULT_SYMBOL_SIZE = 1200"

record encoded =
  enc_config :: bytes
  enc_source_len :: u64
  enc_symbols :: "bytes list"

definition symbol_count :: "encoded \<Rightarrow> nat" where
  "symbol_count e = length (enc_symbols e)"

definition config_for :: "'d raptorq \<Rightarrow> u64 \<Rightarrow> u16 \<Rightarrow> bytes" where
  "config_for R source_len symbol_size = rq_config R source_len symbol_size"

definition encode_with_symbol_size :: "'d raptorq \<Rightarrow> bytes \<Rightarrow> u16 \<Rightarrow> u32 \<Rightarrow> encoded" where
  "encode_with_symbol_size R data symbol_size repair_symbols =
     (if data = [] then \<lparr>enc_config = replicate 12 0, enc_source_len = 0, enc_symbols = []\<rparr>
      else case rq_encode R data symbol_size repair_symbols of (config, symbols) \<Rightarrow>
        \<lparr>enc_config = config, enc_source_len = of_nat (length data), enc_symbols = symbols\<rparr>)"

definition fec_encode :: "'d raptorq \<Rightarrow> bytes \<Rightarrow> u32 \<Rightarrow> encoded" where
  "fec_encode R data repair_symbols = encode_with_symbol_size R data DEFAULT_SYMBOL_SIZE repair_symbols"

definition max_blocks :: "'d raptorq \<Rightarrow> bytes \<Rightarrow> u64 \<Rightarrow> nat" where
  "max_blocks R config source_len =
     (let kt = of_nat (div_ceil (unat source_len) (unat (rq_symbol_size R config))) in
      case rq_partition R kt (rq_source_blocks R config) of (_, _, zl, zs) \<Rightarrow> unat (zl + zs))"

definition packet_ok :: "'d raptorq \<Rightarrow> bytes \<Rightarrow> u64 \<Rightarrow> bytes \<Rightarrow> bool" where
  "packet_ok R config source_len b =
     (\<not> (length b \<noteq> 4 + unat (rq_symbol_size R config) \<or> unat (b ! 0) \<ge> max_blocks R config source_len))"

fun decode_loop :: "'d raptorq \<Rightarrow> bytes \<Rightarrow> u64 \<Rightarrow> 'd \<Rightarrow> bytes list \<Rightarrow> bytes option" where
  "decode_loop R config source_len d [] = None"
| "decode_loop R config source_len d (b # symbols) =
     (if \<not> packet_ok R config source_len b then decode_loop R config source_len d symbols
      else case rq_decode R d b of
        (Some data, _) \<Rightarrow> Some (take (unat source_len) data)
      | (None, d') \<Rightarrow> decode_loop R config source_len d' symbols)"

definition fec_decode :: "'d raptorq \<Rightarrow> bytes \<Rightarrow> u64 \<Rightarrow> bytes list \<Rightarrow> bytes option" where
  "fec_decode R config source_len symbols =
     (if source_len = 0 then Some []
      else if rq_symbol_size R config = 0 then None
      else decode_loop R config source_len (rq_new R config) symbols)"

section \<open>What the codec promises\<close>

text \<open>Feeding packets to a decoder until it first answers.\<close>

fun rq_feed :: "'d raptorq \<Rightarrow> 'd \<Rightarrow> bytes list \<Rightarrow> bytes option" where
  "rq_feed R d [] = None"
| "rq_feed R d (b # bs) = (case rq_decode R d b of (Some data, _) \<Rightarrow> Some data | (None, d') \<Rightarrow> rq_feed R d' bs)"

text \<open>
  Documented: for non-empty data the packets carry a four-byte payload id, whose first byte is the
  source block number, and one symbol; the configuration depends on length and symbol size only; and a
  decoder given enough of the packets, in any order, answers the data, padded.
\<close>

definition rq_ok :: "'d raptorq \<Rightarrow> bytes \<Rightarrow> u16 \<Rightarrow> u32 \<Rightarrow> (bytes list \<Rightarrow> bool) \<Rightarrow> bool" where
  "rq_ok R data ss repair enough \<longleftrightarrow>
     (case rq_encode R data ss repair of (config, packets) \<Rightarrow>
        config = rq_config R (of_nat (length data)) ss \<and> rq_symbol_size R config = ss
        \<and> (\<forall>b \<in> set packets. packet_ok R config (of_nat (length data)) b)
        \<and> (\<forall>ps. set ps \<subseteq> set packets \<and> enough ps \<longrightarrow>
             (\<exists>pad. rq_feed R (rq_new R config) ps = Some (data @ pad))))"

lemma decode_loop_filter:
  "decode_loop R config n d symbols = map_option (take (unat n)) (rq_feed R d (filter (packet_ok R config n) symbols))"
  by (induction symbols arbitrary: d) (auto split: prod.splits option.splits)

lemma fec_decode_filter: "fec_decode R config n symbols = fec_decode R config n (filter (packet_ok R config n) symbols)"
  by (simp add: fec_decode_def decode_loop_filter)

section \<open>Sample codec\<close>

text \<open>One packet with the whole (short) data; the decoder answers at the first packet.\<close>

definition sample_rq :: "unit raptorq" where
  "sample_rq = \<lparr>rq_config = (\<lambda>n ss. [ucast ss]), rq_encode = (\<lambda>data ss r. ([ucast ss], [0 # 0 # 0 # 0 # take (unat ss) (data @ replicate (unat ss) 0)])),
     rq_symbol_size = (\<lambda>c. ucast (c ! 0)), rq_source_blocks = (\<lambda>_. 1), rq_partition = (\<lambda>_ _. (0, 0, 1, 0)),
     rq_new = (\<lambda>_. ()), rq_decode = (\<lambda>_ b. (Some (drop 4 b), ()))\<rparr>"

lemma sample_rq_ok: "rq_ok sample_rq [1, 2, 3] 4 r (\<lambda>ps. ps \<noteq> [])"
proof -
  have "ps \<noteq> [] \<Longrightarrow> set ps \<subseteq> {b} \<Longrightarrow> \<exists>qs. ps = b # qs" for ps and b :: bytes by (cases ps) auto
  then show ?thesis
    by (fastforce simp: rq_ok_def sample_rq_def packet_ok_def max_blocks_def Let_def)
qed

section \<open>Properties\<close>

text \<open>
  Decoding is robust and exact. Packets of the wrong length or with a block number out of range never
  reach the codec: the answer is that of the well-formed packets alone. And when those are enough packets
  of the encoder, in any order and with any garbage in between, the answer is the original data, codec
  padding removed.
\<close>

theorem fec_decode_exact:
  assumes "data \<noteq> []" and "length data < 2 ^ 64" and "ss \<noteq> 0" and "rq_ok R data ss repair enough"
    and "e = encode_with_symbol_size R data ss repair"
    and "filter (packet_ok R (enc_config e) (enc_source_len e)) symbols = good" and "set good \<subseteq> set (enc_symbols e)" and "enough good"
  shows "fec_decode R (config_for R (of_nat (length data)) ss) (of_nat (length data)) symbols = Some data
    \<and> fec_decode R config n junk = fec_decode R config n (filter (packet_ok R config n) junk)"
proof
  obtain config packets where enc: "rq_encode R data ss repair = (config, packets)" by force
  have e: "enc_config e = config" "enc_source_len e = of_nat (length data)" "enc_symbols e = packets"
    using assms(1,5) enc by (simp_all add: encode_with_symbol_size_def)
  have n: "unat (of_nat (length data) :: u64) = length data" using assms(2) by (simp add: unat_of_nat take_bit_nat_eq_self)
  then have n0: "(of_nat (length data) :: u64) \<noteq> 0" using assms(1) by (metis length_0_conv unat_0)
  have c: "config = rq_config R (of_nat (length data)) ss" "rq_symbol_size R config = ss"
    and "\<exists>pad. rq_feed R (rq_new R config) good = Some (data @ pad)"
    using assms(4,7,8) enc e by (auto simp: rq_ok_def)
  then obtain pad where "rq_feed R (rq_new R config) good = Some (data @ pad)" by blast
  then show "fec_decode R (config_for R (of_nat (length data)) ss) (of_nat (length data)) symbols = Some data"
    using n0 c(2) assms(3) n unfolding config_for_def c(1) [symmetric] assms(6) [unfolded e, symmetric]
    by (simp add: fec_decode_def decode_loop_filter)
qed (rule fec_decode_filter)

theorem fec_decode_exact_witness: "fec_decode sample_rq (config_for sample_rq 3 4) 3 [[9], [0, 0, 0, 0, 1, 2, 3, 0]] = Some [1, 2, 3]"
proof -
  let ?ss = "[[9], [0, 0, 0, 0, 1, 2, 3, 0]]" and ?e = "\<lparr>enc_config = [4], enc_source_len = 3, enc_symbols = [[0, 0, 0, 0, 1, 2, 3, 0]]\<rparr>"
  have f: "filter (packet_ok sample_rq [4] 3) ?ss = [[0, 0, 0, 0, 1, 2, 3, 0]]"
    by (simp add: packet_ok_def max_blocks_def sample_rq_def)
  have e: "?e = encode_with_symbol_size sample_rq [1, 2, 3] 4 0"
    by (simp add: encode_with_symbol_size_def sample_rq_def)
  have "fec_decode sample_rq (config_for sample_rq (of_nat (length [1 :: u8, 2, 3])) 4) (of_nat (length [1 :: u8, 2, 3])) ?ss = Some [1, 2, 3]"
    by (rule conjunct1 [OF fec_decode_exact [OF _ _ _ sample_rq_ok e, where symbols = ?ss and good = "[[0, 0, 0, 0, 1, 2, 3, 0]]"]])
      (simp_all only: f encoded.simps, simp_all)
  then show ?thesis by simp
qed

end
