(* ===== verification/Net_Types.thy ===== *)
theory Net_Types
  imports Store Receipt_Bag Fec
begin

text \<open>
  The vocabulary of the networking crate (\<open>crates/np2ptp-net/src/lib.rs\<close>): peers and multiaddresses,
  the wire protocol, the commands a handle sends to the swarm task, and the events and operations of
  the libp2p swarm. The swarm itself is third-party code: a state \<open>'w\<close> with the operations the event
  loop calls as a parameter record.
\<close>

section \<open>Peers and addresses\<close>

type_synonym peer = bytes

datatype protocol = P2p peer | P2pCircuit | OtherProtocol string

type_synonym multiaddr = "protocol list"

definition peer_id_from_multiaddr :: "multiaddr \<Rightarrow> peer option" where
  "peer_id_from_multiaddr addr =
     (let ids = concat (map (\<lambda>proto. case proto of P2p i \<Rightarrow> [i] | _ \<Rightarrow> []) addr) in
      if ids = [] then None else Some (last ids))"

section \<open>Errors and messages\<close>

datatype net_error =
    NetBuild string
  | NetDial string
  | NetListen string
  | Shutdown
  | NetStore store_error
  | NetLedger ledger_error
  | NetReceipts receipt_bag_error
  | RequestFailed
  | NoManifest
  | BadManifest
  | MissingChunk hash
  | NetBadChunk
  | NoProviders

datatype request =
    ReqManifest bytes
  | ReqChunk bytes
  | ReqSymbol bytes u32
  | ReqSymbols bytes u32 u32
  | ReqSubmitReceipt receipt
  | ReqGetReceipts

datatype response =
    RespManifest "bytes option"
  | RespChunk "bytes option"
  | RespSymbol "bytes option"
  | RespSymbols "bytes list"
  | RespReceiptAck
  | RespReceipts "receipt list"

definition FEC_REPAIR_SYMBOLS :: u32 where "FEC_REPAIR_SYMBOLS = 64"

definition FEC_BATCH :: u32 where "FEC_BATCH = 128"

definition MAX_SYMBOLS_PER_BATCH :: u32 where "MAX_SYMBOLS_PER_BATCH = 256"

text \<open>In nanoseconds.\<close>

definition MDNS_DIAL_COOLDOWN :: int where "MDNS_DIAL_COOLDOWN = 30 * 1000000000"

definition MAX_FEC_TRANSFER_SIZE :: u64 where "MAX_FEC_TRANSFER_SIZE = 32 * 1024 * 1024 * 1024"

definition MAX_DECODE_ATTEMPTS :: nat where "MAX_DECODE_ATTEMPTS = 16"

definition mapping_key :: "crates \<Rightarrow> bytes \<Rightarrow> bytes" where
  "mapping_key X infohash = as_bytes (hash_of (blake3 X) (str_bytes ''np2ptp-bridge:v1:'' @ infohash))"

section \<open>Commands and replies\<close>

text \<open>A reply channel (\<open>oneshot::Sender\<close>) is a number; what is sent on it is a reply.\<close>

type_synonym chan = nat

datatype command =
    CmdListen multiaddr chan
  | CmdDial multiaddr chan
  | CmdListeners chan
  | CmdExternalAddresses chan
  | CmdAddPeer peer multiaddr
  | CmdAddExternalAddress multiaddr
  | CmdProvide hash bytes
  | CmdUnprovide hash
  | CmdFindProviders hash chan
  | CmdRequest peer request chan
  | CmdSetChokeThreshold int
  | CmdSubmitReceipt peer u64
  | CmdReputation peer chan
  | CmdPutRecord bytes bytes chan
  | CmdGetRecord bytes chan
  | CmdConnectedPeers chan
  | CmdLedgerTotals chan

datatype reply =
    ReplyUnit "net_error + unit"
  | ReplyAddrs "multiaddr list"
  | ReplyPeers "peer list"
  | ReplyResponse "net_error + response"
  | ReplyInt int
  | ReplyBool bool
  | ReplyRecord "bytes option"
  | ReplyCounters counters

section \<open>The swarm\<close>

datatype kad_result =
    FoundProviders "peer list"
  | FinishedWithNoAdditionalProviders
  | GetProvidersErr
  | FoundRecord bytes
  | FinishedWithNoAdditionalRecord
  | GetRecordErr
  | PutRecordResult bool
  | OtherResult

text \<open>
  An identify event carries the peer's key when it is an Ed25519 key; each address mDNS discovers comes
  with the instant at which the loop handles it.
\<close>

datatype swarm_event =
    RrRequest peer request nat
  | RrResponse peer nat response
  | RrOutboundFailure nat
  | RrOther
  | KadProgressed nat kad_result bool
  | KadOther
  | IdentifyReceived peer "multiaddr list" "bytes option"
  | UpnpNewExternalAddr multiaddr
  | UpnpGatewayNotFound
  | UpnpNonRoutableGateway
  | UpnpExpiredExternalAddr multiaddr
  | MdnsDiscovered "(peer \<times> multiaddr \<times> int) list"
  | MdnsExpired
  | ConnectionClosed peer nat multiaddr
  | OtherEvent

record 'w swarm =
  sw_listen_on :: "multiaddr \<Rightarrow> 'w \<Rightarrow> (string + unit) \<times> 'w"
  sw_dial :: "multiaddr \<Rightarrow> 'w \<Rightarrow> (string + unit) \<times> 'w"
  sw_listeners :: "'w \<Rightarrow> multiaddr list"
  sw_external_addresses :: "'w \<Rightarrow> multiaddr list"
  sw_connected_peers :: "'w \<Rightarrow> peer list"
  sw_add_external_address :: "multiaddr \<Rightarrow> 'w \<Rightarrow> 'w"
  sw_remove_external_address :: "multiaddr \<Rightarrow> 'w \<Rightarrow> 'w"
  kad_add_address :: "peer \<Rightarrow> multiaddr \<Rightarrow> 'w \<Rightarrow> 'w"
  kad_remove_address :: "peer \<Rightarrow> multiaddr \<Rightarrow> 'w \<Rightarrow> 'w"
  kad_start_providing :: "bytes \<Rightarrow> 'w \<Rightarrow> (string + nat) \<times> 'w"
  kad_stop_providing :: "bytes \<Rightarrow> 'w \<Rightarrow> 'w"
  kad_get_providers :: "bytes \<Rightarrow> 'w \<Rightarrow> nat \<times> 'w"
  kad_put_record :: "bytes \<Rightarrow> bytes \<Rightarrow> 'w \<Rightarrow> (string + nat) \<times> 'w"
  kad_get_record :: "bytes \<Rightarrow> 'w \<Rightarrow> nat \<times> 'w"
  rr_send_request :: "peer \<Rightarrow> request \<Rightarrow> 'w \<Rightarrow> nat \<times> 'w"
  rr_send_response :: "nat \<Rightarrow> response \<Rightarrow> 'w \<Rightarrow> 'w"

section \<open>The environment of a node\<close>

text \<open>The crates a node calls and the codecs at the types it stores, with its process.\<close>

record 'd net_env =
  ne_crates :: crates
  ne_ed :: ed25519
  ne_manifest :: "manifest codec"
  ne_ledger :: "peer ledger_codec"
  ne_receipts :: "receipt list codec"
  ne_raptorq :: "'d raptorq"
  ne_proc :: proc

end
