(* ===== verification/Event_Loop.thy ===== *)
theory Event_Loop
  imports Net_Types
begin

text \<open>
  The swarm task of a node (\<open>EventLoop\<close> in \<open>crates/np2ptp-net/src/lib.rs\<close>): its state, one definition per
  handler, and the loop's three inputs (a swarm event, a command of a handle, the save tick) as one step
  function. Replies sent on oneshot channels are kept as a log in the state; warnings printed to
  standard error are left out. The store handle of the task reads the node's file system, and the
  ledger and the receipt bag are written to it.
\<close>

section \<open>State\<close>

datatype internal_request = IntGetReceipts | IntSubmitReceiptAck

record 'w event_loop =
  el_swarm :: 'w
  el_store :: store
  el_fs :: fs
  el_provided :: "(hash, bytes) hmap"
  el_pending_req :: "(nat, chan) hmap"
  el_pending_providers :: "(nat, peer list \<times> chan) hmap"
  el_pending_put :: "(nat, chan) hmap"
  el_pending_get :: "(nat, chan) hmap"
  el_ledger :: "peer ledger"
  el_choke_threshold :: int
  el_symbols :: "(hash, bytes list) hmap"
  el_rep_identity :: identity
  el_rep_peers :: "(peer, peer_id) hmap"
  el_receipts :: receipt_bag
  el_pending_internal :: "(nat, internal_request) hmap"
  el_receipts_pulled_from :: "peer list"
  el_next_receipt_epoch :: u64
  el_ledger_dirty :: bool
  el_mdns_dial_cooldown :: "(peer, int) hmap"
  el_replies :: "(chan \<times> reply) list"

text \<open>\<open>clock\<close> is the number of seconds since the epoch, zero when the clock is before it.\<close>

definition event_loop_new :: "'w \<Rightarrow> store \<Rightarrow> fs \<Rightarrow> peer ledger \<Rightarrow> receipt_bag \<Rightarrow> identity \<Rightarrow> u64 \<Rightarrow> 'w event_loop" where
  "event_loop_new w st f ledger receipts rep_identity clock =
     \<lparr>el_swarm = w, el_store = st, el_fs = f, el_provided = [], el_pending_req = [], el_pending_providers = [],
      el_pending_put = [], el_pending_get = [], el_ledger = ledger, el_choke_threshold = 9223372036854775807,
      el_symbols = [], el_rep_identity = rep_identity, el_rep_peers = [], el_receipts = receipts,
      el_pending_internal = [], el_receipts_pulled_from = [], el_next_receipt_epoch = clock,
      el_ledger_dirty = False, el_mdns_dial_cooldown = [], el_replies = []\<rparr>"

definition send_reply :: "chan \<Rightarrow> reply \<Rightarrow> 'w event_loop \<Rightarrow> 'w event_loop" where
  "send_reply c r s = s\<lparr>el_replies := el_replies s @ [(c, r)]\<rparr>"

section \<open>Serving\<close>

definition saturating_neg :: "int \<Rightarrow> int" where
  "saturating_neg n = (if n = - 9223372036854775808 then 9223372036854775807 else - n)"

definition choked :: "'w event_loop \<Rightarrow> peer \<Rightarrow> bool" where
  "choked s p = (reputation (el_ledger s) p < saturating_neg (el_choke_threshold s))"

definition charge :: "peer \<Rightarrow> u64 \<Rightarrow> 'w event_loop \<Rightarrow> 'w event_loop" where
  "charge p n s = s\<lparr>el_ledger := record_served p n (el_ledger s), el_ledger_dirty := True\<rparr>"

text \<open>\<open>store.get(h).ok().flatten()\<close>, over a fixed file system.\<close>

definition get_ok :: "crates \<Rightarrow> fs \<Rightarrow> store fetcher" where
  "get_ok X f h st = (case get X st f h of (Inr opt, st') \<Rightarrow> (opt, st') | (Inl _, st') \<Rightarrow> (None, st'))"

definition ensure_symbols :: "'d net_env \<Rightarrow> hash \<Rightarrow> 'w event_loop \<Rightarrow> bool \<times> 'w event_loop" where
  "ensure_symbols N root s =
     (if hm_contains (el_symbols s) root then (True, s)
      else case hm_get (el_provided s) root of
        None \<Rightarrow> (False, s)
      | Some manifest_bytes \<Rightarrow> (case from_nptp (ne_manifest N) manifest_bytes of
          Inl _ \<Rightarrow> (False, s)
        | Inr m \<Rightarrow> (case reconstruct (ne_crates N) m (get_ok (ne_crates N) (el_fs s)) (el_store s) of
            (Inl _, st') \<Rightarrow> (False, s\<lparr>el_store := st'\<rparr>)
          | (Inr full, st') \<Rightarrow>
              (True, s\<lparr>el_store := st', el_symbols := hm_insert root (enc_symbols (fec_encode (ne_raptorq N) full FEC_REPAIR_SYMBOLS)) (el_symbols s)\<rparr>))))"

definition symbol :: "'d net_env \<Rightarrow> hash \<Rightarrow> nat \<Rightarrow> 'w event_loop \<Rightarrow> bytes option \<times> 'w event_loop" where
  "symbol N root index s =
     (case ensure_symbols N root s of
        (False, s') \<Rightarrow> (None, s')
      | (True, s') \<Rightarrow> (case hm_get (el_symbols s') root of None \<Rightarrow> (None, s') | Some all \<Rightarrow> (nth_opt all index, s')))"

text \<open>
  \<open>start\<close> and \<open>count\<close> come from 32-bit fields, so the saturating sum cannot saturate; the entry is there
  whenever \<open>ensure_symbols\<close> returned true, so the \<open>expect\<close> of the source cannot fail.
\<close>

definition symbols_range :: "'d net_env \<Rightarrow> hash \<Rightarrow> nat \<Rightarrow> nat \<Rightarrow> 'w event_loop \<Rightarrow> bytes list \<times> 'w event_loop" where
  "symbols_range N root start cnt s =
     (case ensure_symbols N root s of
        (False, s') \<Rightarrow> ([], s')
      | (True, s') \<Rightarrow> (case hm_get (el_symbols s') root of None \<Rightarrow> ([], s') | Some all \<Rightarrow>
          (if length all \<le> start then [] else slice all start (min (start + cnt) (length all)), s')))"

definition serve :: "'d net_env \<Rightarrow> peer \<Rightarrow> request \<Rightarrow> 'w event_loop \<Rightarrow> response \<times> 'w event_loop" where
  "serve N p req s =
     (case req of
        ReqManifest root \<Rightarrow> (RespManifest (hm_get (el_provided s) (Hash root)), s)
      | ReqChunk h \<Rightarrow>
          if choked s p then (RespChunk None, s)
          else (case get (ne_crates N) (el_store s) (el_fs s) (Hash h) of
              (Inr (Some data), st') \<Rightarrow> (RespChunk (Some data), charge p (of_nat (length data)) (s\<lparr>el_store := st'\<rparr>))
            | (_, st') \<Rightarrow> (RespChunk None, s\<lparr>el_store := st'\<rparr>))
      | ReqSymbol root index \<Rightarrow>
          (case symbol N (Hash root) (unat index) s of
             (Some b, s') \<Rightarrow> (RespSymbol (Some b), charge p (of_nat (length b)) s')
           | (None, s') \<Rightarrow> (RespSymbol None, s'))
      | ReqSymbols root start cnt \<Rightarrow>
          (case symbols_range N (Hash root) (unat start) (unat (min cnt MAX_SYMBOLS_PER_BATCH)) s of (syms, s') \<Rightarrow>
             let served = sum_list (map (\<lambda>b. of_nat (length b)) syms) in
             (RespSymbols syms, if 0 < served then charge p served s' else s'))
      | ReqSubmitReceipt r \<Rightarrow>
          (RespReceiptAck,
           if receipt_verify (ne_ed N) r \<and> rc_server r = id_peer_id (ne_ed N) (el_rep_identity s) \<and> rc_client r \<noteq> rc_server r
           then let bag = bag_insert r (el_receipts s) in
                s\<lparr>el_receipts := bag, el_fs := snd (bag_save (ne_receipts N) (ne_proc N) (el_fs s) bag)\<rparr>
           else s)
      | ReqGetReceipts \<Rightarrow> (RespReceipts (bag_list (el_receipts s)), s))"

section \<open>Responses\<close>

fun credit_loop :: "ed25519 \<Rightarrow> peer \<Rightarrow> peer_id \<Rightarrow> receipt list \<Rightarrow> (peer_id \<times> u64) list \<Rightarrow> peer ledger \<Rightarrow> bool \<Rightarrow> peer ledger \<times> bool" where
  "credit_loop E p expected [] seen L credited = (L, credited)"
| "credit_loop E p expected (r # rs) seen L credited =
     (if receipt_verify E r \<and> rc_server r = expected \<and> (rc_client r, rc_epoch r) \<notin> set seen
      then credit_loop E p expected rs ((rc_client r, rc_epoch r) # seen) (credit_receipt p (rc_bytes r) L) True
      else credit_loop E p expected rs seen L credited)"

definition handle_receipts_response :: "'d net_env \<Rightarrow> peer \<Rightarrow> response \<Rightarrow> 'w event_loop \<Rightarrow> 'w event_loop" where
  "handle_receipts_response N p resp s =
     (case resp of
        RespReceipts rs \<Rightarrow> (case hm_get (el_rep_peers s) p of
            None \<Rightarrow> s
          | Some expected \<Rightarrow> (case credit_loop (ne_ed N) p expected rs [] (el_ledger s) False of (L, credited) \<Rightarrow>
              if credited then s\<lparr>el_ledger := L, el_fs := snd (ledger_save (ne_ledger N) (ne_proc N) (el_fs s) L)\<rparr>
              else s\<lparr>el_ledger := L\<rparr>))
      | _ \<Rightarrow> s)"

definition on_response :: "'d net_env \<Rightarrow> peer \<Rightarrow> nat \<Rightarrow> response \<Rightarrow> 'w event_loop \<Rightarrow> 'w event_loop" where
  "on_response N p request_id resp s =
     (let s1 = (case resp of
          RespChunk (Some data) \<Rightarrow> s\<lparr>el_ledger := record_received p (of_nat (length data)) (el_ledger s), el_ledger_dirty := True\<rparr>
        | _ \<Rightarrow> s);
          s2 = s1\<lparr>el_pending_internal := hm_remove request_id (el_pending_internal s1)\<rparr> in
      case hm_get (el_pending_internal s1) request_id of
        Some IntGetReceipts \<Rightarrow> handle_receipts_response N p resp s2
      | Some IntSubmitReceiptAck \<Rightarrow> s2
      | None \<Rightarrow> (case hm_get (el_pending_req s2) request_id of
          None \<Rightarrow> s2
        | Some c \<Rightarrow> send_reply c (ReplyResponse (Inr resp)) (s2\<lparr>el_pending_req := hm_remove request_id (el_pending_req s2)\<rparr>)))"

definition on_outbound_failure :: "nat \<Rightarrow> 'w event_loop \<Rightarrow> 'w event_loop" where
  "on_outbound_failure request_id s =
     (let s1 = s\<lparr>el_pending_internal := hm_remove request_id (el_pending_internal s)\<rparr> in
      case hm_get (el_pending_req s1) request_id of
        None \<Rightarrow> s1
      | Some c \<Rightarrow> send_reply c (ReplyResponse (Inl RequestFailed)) (s1\<lparr>el_pending_req := hm_remove request_id (el_pending_req s1)\<rparr>))"

definition on_rr_request :: "'d net_env \<Rightarrow> 'w swarm \<Rightarrow> peer \<Rightarrow> request \<Rightarrow> nat \<Rightarrow> 'w event_loop \<Rightarrow> 'w event_loop" where
  "on_rr_request N W p req channel s =
     (case serve N p req s of (resp, s') \<Rightarrow> s'\<lparr>el_swarm := rr_send_response W channel resp (el_swarm s')\<rparr>)"

section \<open>Kademlia\<close>

definition answer_providers :: "nat \<Rightarrow> 'w event_loop \<Rightarrow> 'w event_loop" where
  "answer_providers qid s =
     (case hm_get (el_pending_providers s) qid of
        None \<Rightarrow> s
      | Some (acc, c) \<Rightarrow> send_reply c (ReplyPeers acc) (s\<lparr>el_pending_providers := hm_remove qid (el_pending_providers s)\<rparr>))"

definition answer_get :: "nat \<Rightarrow> bytes option \<Rightarrow> 'w event_loop \<Rightarrow> 'w event_loop" where
  "answer_get qid v s =
     (case hm_get (el_pending_get s) qid of
        None \<Rightarrow> s
      | Some c \<Rightarrow> send_reply c (ReplyRecord v) (s\<lparr>el_pending_get := hm_remove qid (el_pending_get s)\<rparr>))"

definition answer_put :: "nat \<Rightarrow> bool \<Rightarrow> 'w event_loop \<Rightarrow> 'w event_loop" where
  "answer_put qid ok s =
     (case hm_get (el_pending_put s) qid of
        None \<Rightarrow> s
      | Some c \<Rightarrow> send_reply c (ReplyBool ok) (s\<lparr>el_pending_put := hm_remove qid (el_pending_put s)\<rparr>))"

fun add_new :: "peer list \<Rightarrow> peer list \<Rightarrow> peer list" where
  "add_new acc [] = acc"
| "add_new acc (p # ps) = add_new (if p \<in> set acc then acc else acc @ [p]) ps"

definition collect_providers :: "nat \<Rightarrow> peer list \<Rightarrow> 'w event_loop \<Rightarrow> 'w event_loop" where
  "collect_providers qid ps s =
     (case hm_get (el_pending_providers s) qid of
        None \<Rightarrow> s
      | Some (acc, c) \<Rightarrow> s\<lparr>el_pending_providers := hm_insert qid (add_new acc ps, c) (el_pending_providers s)\<rparr>)"

definition on_kad :: "nat \<Rightarrow> kad_result \<Rightarrow> bool \<Rightarrow> 'w event_loop \<Rightarrow> 'w event_loop" where
  "on_kad qid result is_last s =
     (case result of
        FoundProviders ps \<Rightarrow> (let s1 = collect_providers qid ps s in if is_last then answer_providers qid s1 else s1)
      | FinishedWithNoAdditionalProviders \<Rightarrow> if is_last then answer_providers qid s else s
      | GetProvidersErr \<Rightarrow> answer_providers qid s
      | FoundRecord v \<Rightarrow> answer_get qid (Some v) s
      | FinishedWithNoAdditionalRecord \<Rightarrow> if is_last then answer_get qid None s else s
      | GetRecordErr \<Rightarrow> answer_get qid None s
      | PutRecordResult ok \<Rightarrow> answer_put qid ok s
      | OtherResult \<Rightarrow> s)"

section \<open>Events\<close>

definition on_identify :: "'w swarm \<Rightarrow> peer \<Rightarrow> multiaddr list \<Rightarrow> bytes option \<Rightarrow> 'w event_loop \<Rightarrow> 'w event_loop" where
  "on_identify W p addrs key s =
     (let s1 = s\<lparr>el_swarm := foldl (\<lambda>w a. kad_add_address W p a w) (el_swarm s) addrs\<rparr> in
      case key of
        None \<Rightarrow> s1
      | Some ed_pk \<Rightarrow>
          let s2 = s1\<lparr>el_rep_peers := hm_insert p (PeerId ed_pk) (el_rep_peers s1)\<rparr> in
          if p \<notin> set (el_receipts_pulled_from s2) \<and> ledger_counters (el_ledger s2) p = no_counters
          then (case rr_send_request W p ReqGetReceipts (el_swarm s2) of (rid, w) \<Rightarrow>
            s2\<lparr>el_swarm := w, el_receipts_pulled_from := p # el_receipts_pulled_from s2,
               el_pending_internal := hm_insert rid IntGetReceipts (el_pending_internal s2)\<rparr>)
          else s2)"

text \<open>\<open>Instant::duration_since\<close> is zero for an instant in the future.\<close>

definition mdns_found :: "'w swarm \<Rightarrow> 'w event_loop \<Rightarrow> peer \<times> multiaddr \<times> int \<Rightarrow> 'w event_loop" where
  "mdns_found W s found =
     (case found of (p, addr, now) \<Rightarrow>
        let s1 = s\<lparr>el_swarm := kad_add_address W p addr (el_swarm s)\<rparr> in
        if (case hm_get (el_mdns_dial_cooldown s1) p of None \<Rightarrow> False | Some t \<Rightarrow> max 0 (now - t) < MDNS_DIAL_COOLDOWN) then s1
        else s1\<lparr>el_mdns_dial_cooldown := hm_insert p now (el_mdns_dial_cooldown s1),
                el_swarm := snd (sw_dial W addr (el_swarm s1))\<rparr>)"

definition on_connection_closed :: "'w swarm \<Rightarrow> peer \<Rightarrow> nat \<Rightarrow> multiaddr \<Rightarrow> 'w event_loop \<Rightarrow> 'w event_loop" where
  "on_connection_closed W p num_established addr s =
     (if num_established = 0
      then s\<lparr>el_swarm := kad_remove_address W p addr (el_swarm s), el_rep_peers := hm_remove p (el_rep_peers s),
             el_receipts_pulled_from := filter (\<lambda>q. q \<noteq> p) (el_receipts_pulled_from s)\<rparr>
      else s)"

definition on_event :: "'d net_env \<Rightarrow> 'w swarm \<Rightarrow> swarm_event \<Rightarrow> 'w event_loop \<Rightarrow> 'w event_loop" where
  "on_event N W e s =
     (case e of
        RrRequest p req channel \<Rightarrow> on_rr_request N W p req channel s
      | RrResponse p rid resp \<Rightarrow> on_response N p rid resp s
      | RrOutboundFailure rid \<Rightarrow> on_outbound_failure rid s
      | RrOther \<Rightarrow> s
      | KadProgressed qid result is_last \<Rightarrow> on_kad qid result is_last s
      | KadOther \<Rightarrow> s
      | IdentifyReceived p addrs key \<Rightarrow> on_identify W p addrs key s
      | UpnpNewExternalAddr addr \<Rightarrow> s\<lparr>el_swarm := sw_add_external_address W addr (el_swarm s)\<rparr>
      | UpnpGatewayNotFound \<Rightarrow> s
      | UpnpNonRoutableGateway \<Rightarrow> s
      | UpnpExpiredExternalAddr addr \<Rightarrow> s\<lparr>el_swarm := sw_remove_external_address W addr (el_swarm s)\<rparr>
      | MdnsDiscovered found \<Rightarrow> foldl (mdns_found W) s found
      | MdnsExpired \<Rightarrow> s
      | ConnectionClosed p n addr \<Rightarrow> on_connection_closed W p n addr s
      | OtherEvent \<Rightarrow> s)"

section \<open>Commands\<close>

definition map_err :: "('a \<Rightarrow> 'b) \<Rightarrow> 'a + 'c \<Rightarrow> 'b + 'c" where
  "map_err g r = (case r of Inl e \<Rightarrow> Inl (g e) | Inr x \<Rightarrow> Inr x)"

definition submit_receipt_cmd :: "'d net_env \<Rightarrow> 'w swarm \<Rightarrow> peer \<Rightarrow> u64 \<Rightarrow> 'w event_loop \<Rightarrow> 'w event_loop" where
  "submit_receipt_cmd N W p n s =
     (case hm_get (el_rep_peers s) p of
        None \<Rightarrow> s
      | Some server \<Rightarrow>
          let epoch = el_next_receipt_epoch s; r = receipt_issue (ne_ed N) (el_rep_identity s) server n epoch in
          case rr_send_request W p (ReqSubmitReceipt r) (el_swarm s) of (rid, w) \<Rightarrow>
            s\<lparr>el_swarm := w, el_next_receipt_epoch := epoch + 1,
              el_pending_internal := hm_insert rid IntSubmitReceiptAck (el_pending_internal s)\<rparr>)"

definition on_command :: "'d net_env \<Rightarrow> 'w swarm \<Rightarrow> command \<Rightarrow> 'w event_loop \<Rightarrow> 'w event_loop" where
  "on_command N W cmd s =
     (case cmd of
        CmdListen addr c \<Rightarrow> (case sw_listen_on W addr (el_swarm s) of (r, w) \<Rightarrow> send_reply c (ReplyUnit (map_err NetListen r)) (s\<lparr>el_swarm := w\<rparr>))
      | CmdDial addr c \<Rightarrow> (case sw_dial W addr (el_swarm s) of (r, w) \<Rightarrow> send_reply c (ReplyUnit (map_err NetDial r)) (s\<lparr>el_swarm := w\<rparr>))
      | CmdListeners c \<Rightarrow> send_reply c (ReplyAddrs (sw_listeners W (el_swarm s))) s
      | CmdExternalAddresses c \<Rightarrow> send_reply c (ReplyAddrs (sw_external_addresses W (el_swarm s))) s
      | CmdAddPeer p addr \<Rightarrow> s\<lparr>el_swarm := kad_add_address W p addr (el_swarm s)\<rparr>
      | CmdAddExternalAddress addr \<Rightarrow> s\<lparr>el_swarm := sw_add_external_address W addr (el_swarm s)\<rparr>
      | CmdProvide root manifest_bytes \<Rightarrow>
          s\<lparr>el_provided := hm_insert root manifest_bytes (el_provided s),
            el_swarm := snd (kad_start_providing W (as_bytes root) (el_swarm s))\<rparr>
      | CmdUnprovide root \<Rightarrow>
          s\<lparr>el_swarm := kad_stop_providing W (as_bytes root) (el_swarm s),
            el_provided := hm_remove root (el_provided s), el_symbols := hm_remove root (el_symbols s)\<rparr>
      | CmdFindProviders root c \<Rightarrow>
          (case kad_get_providers W (as_bytes root) (el_swarm s) of (qid, w) \<Rightarrow>
             s\<lparr>el_swarm := w, el_pending_providers := hm_insert qid ([], c) (el_pending_providers s)\<rparr>)
      | CmdRequest p req c \<Rightarrow>
          (case rr_send_request W p req (el_swarm s) of (rid, w) \<Rightarrow>
             s\<lparr>el_swarm := w, el_pending_req := hm_insert rid c (el_pending_req s)\<rparr>)
      | CmdSetChokeThreshold t \<Rightarrow> s\<lparr>el_choke_threshold := t\<rparr>
      | CmdSubmitReceipt p n \<Rightarrow> submit_receipt_cmd N W p n s
      | CmdReputation p c \<Rightarrow> send_reply c (ReplyInt (reputation (el_ledger s) p)) s
      | CmdPutRecord key v c \<Rightarrow>
          (case kad_put_record W key v (el_swarm s) of
             (Inr qid, w) \<Rightarrow> s\<lparr>el_swarm := w, el_pending_put := hm_insert qid c (el_pending_put s)\<rparr>
           | (Inl _, w) \<Rightarrow> send_reply c (ReplyBool False) (s\<lparr>el_swarm := w\<rparr>))
      | CmdGetRecord key c \<Rightarrow>
          (case kad_get_record W key (el_swarm s) of (qid, w) \<Rightarrow>
             s\<lparr>el_swarm := w, el_pending_get := hm_insert qid c (el_pending_get s)\<rparr>)
      | CmdConnectedPeers c \<Rightarrow> send_reply c (ReplyPeers (sw_connected_peers W (el_swarm s))) s
      | CmdLedgerTotals c \<Rightarrow> send_reply c (ReplyCounters (ledger_totals (el_ledger s))) s)"

section \<open>The loop\<close>

definition save_tick :: "'d net_env \<Rightarrow> 'w event_loop \<Rightarrow> 'w event_loop" where
  "save_tick N s =
     (if el_ledger_dirty s
      then (case ledger_save (ne_ledger N) (ne_proc N) (el_fs s) (el_ledger s) of
          (Inl _, f') \<Rightarrow> s\<lparr>el_fs := f', el_ledger_dirty := True\<rparr>
        | (Inr _, f') \<Rightarrow> s\<lparr>el_fs := f', el_ledger_dirty := False\<rparr>)
      else s)"

text \<open>One turn of \<open>select!\<close>: whichever branch is ready.\<close>

datatype input = SwarmEvent swarm_event | Command command | SaveTick

fun el_turn :: "'d net_env \<Rightarrow> 'w swarm \<Rightarrow> input \<Rightarrow> 'w event_loop \<Rightarrow> 'w event_loop" where
  "el_turn N W (SwarmEvent e) s = on_event N W e s"
| "el_turn N W (Command c) s = on_command N W c s"
| "el_turn N W SaveTick s = save_tick N s"

text \<open>The loop, over the inputs it receives until all handles are dropped.\<close>

definition el_run :: "'d net_env \<Rightarrow> 'w swarm \<Rightarrow> input list \<Rightarrow> 'w event_loop \<Rightarrow> 'w event_loop" where
  "el_run N W ins s = fold (el_turn N W) ins s"

end
