(* ===== verification/Event_Loop_Props.thy ===== *)
theory Event_Loop_Props
  imports Event_Loop
begin

text \<open>
  What the swarm task guarantees: no caller's reply is lost or sent twice, chunks leave the node only
  verified and only to peers in good standing, the receipts it holds are authentic, and a peer is
  credited only on receipts about itself.
\<close>

section \<open>Hash maps as multisets\<close>

lemma mset_hm_insert_new: "hm_get m k = None \<Longrightarrow> mset (hm_insert k v m) = add_mset (k, v) (mset m)"
proof (induction m)
  case (Cons kv m)
  then show ?case by (cases kv) (auto simp: hm_insert_def hm_get_def split: if_splits)
qed (simp add: hm_insert_def)

lemma mset_hm_remove: "hm_wf m \<Longrightarrow> hm_get m k = Some v \<Longrightarrow> mset m = add_mset (k, v) (mset (hm_remove k m))"
proof (induction m)
  case (Cons kv m)
  obtain k' v' where kv: "kv = (k', v')" by force
  show ?case
  proof (cases "k' = k")
    case True
    then have "hm_get m k = None" using Cons.prems kv by (auto simp: hm_wf_def hm_get_def map_of_eq_None_iff)
    then have "hm_remove k m = m" by (simp add: hm_remove_def hm_get_def delete_id map_of_eq_None_iff)
    with True Cons.prems kv show ?thesis by (simp add: hm_get_def hm_remove_def)
  next
    case False
    with Cons kv show ?thesis by (simp add: hm_wf_def hm_get_def hm_remove_def)
  qed
qed (simp add: hm_get_def)

lemma mset_hm_insert_old:
  "hm_wf m \<Longrightarrow> hm_get m k = Some v \<Longrightarrow> g (k, v) = g (k, v') \<Longrightarrow> image_mset g (mset (hm_insert k v' m)) = image_mset g (mset m)"
proof (induction m)
  case (Cons kv m)
  then show ?case by (cases kv) (auto simp: hm_insert_def hm_get_def hm_wf_def split: if_splits)
qed (simp add: hm_get_def)

lemma dom_hm_remove: "dom (hm_get (hm_remove k m)) = dom (hm_get m) - {k}"
  by (simp add: hm.lookup_remove)

section \<open>Callers and replies\<close>

text \<open>The reply channel a command carries, and the callers still waiting.\<close>

fun caller :: "input \<Rightarrow> chan multiset" where
  "caller (Command (CmdListen _ c)) = {#c#}"
| "caller (Command (CmdDial _ c)) = {#c#}"
| "caller (Command (CmdListeners c)) = {#c#}"
| "caller (Command (CmdExternalAddresses c)) = {#c#}"
| "caller (Command (CmdFindProviders _ c)) = {#c#}"
| "caller (Command (CmdRequest _ _ c)) = {#c#}"
| "caller (Command (CmdReputation _ c)) = {#c#}"
| "caller (Command (CmdPutRecord _ _ c)) = {#c#}"
| "caller (Command (CmdGetRecord _ c)) = {#c#}"
| "caller (Command (CmdConnectedPeers c)) = {#c#}"
| "caller (Command (CmdLedgerTotals c)) = {#c#}"
| "caller _ = {#}"

definition waiting :: "'w event_loop \<Rightarrow> chan multiset" where
  "waiting s = image_mset snd (mset (el_pending_req s)) + image_mset (snd \<circ> snd) (mset (el_pending_providers s))
     + image_mset snd (mset (el_pending_put s)) + image_mset snd (mset (el_pending_get s))"

definition answered :: "'w event_loop \<Rightarrow> chan multiset" where
  "answered s = image_mset fst (mset (el_replies s))"

text \<open>
  Documented behaviour of the swarm: it never hands out a request id or a query id twice. \<open>rq\<close> and \<open>kq\<close>
  are the ids handed out so far.
\<close>

definition keeps_ids :: "('w \<Rightarrow> nat set) \<Rightarrow> ('w \<Rightarrow> nat set) \<Rightarrow> 'w \<Rightarrow> 'w \<Rightarrow> bool" where
  "keeps_ids rq kq w w' \<longleftrightarrow> rq w \<subseteq> rq w' \<and> kq w \<subseteq> kq w'"

definition new_id :: "('w \<Rightarrow> nat set) \<Rightarrow> ('w \<Rightarrow> nat set) \<Rightarrow> ('w \<Rightarrow> nat set) \<Rightarrow> 'w \<Rightarrow> nat \<times> 'w \<Rightarrow> bool" where
  "new_id ids rq kq w r \<longleftrightarrow> fst r \<notin> ids w \<and> fst r \<in> ids (snd r) \<and> keeps_ids rq kq w (snd r)"

definition put_id :: "('w \<Rightarrow> nat set) \<Rightarrow> ('w \<Rightarrow> nat set) \<Rightarrow> 'w \<Rightarrow> (string + nat) \<times> 'w \<Rightarrow> bool" where
  "put_id rq kq w r \<longleftrightarrow> (case fst r of Inl _ \<Rightarrow> keeps_ids rq kq w (snd r) | Inr i \<Rightarrow> new_id kq rq kq w (i, snd r))"

definition ids_fresh :: "'w swarm \<Rightarrow> ('w \<Rightarrow> nat set) \<Rightarrow> ('w \<Rightarrow> nat set) \<Rightarrow> bool" where
  "ids_fresh W rq kq \<longleftrightarrow>
     (\<forall>p r w. new_id rq rq kq w (rr_send_request W p r w))
   \<and> (\<forall>k w. new_id kq rq kq w (kad_get_providers W k w))
   \<and> (\<forall>k w. new_id kq rq kq w (kad_get_record W k w))
   \<and> (\<forall>k v w. put_id rq kq w (kad_put_record W k v w))
   \<and> (\<forall>a w. keeps_ids rq kq w (snd (sw_listen_on W a w)))
   \<and> (\<forall>a w. keeps_ids rq kq w (snd (sw_dial W a w)))
   \<and> (\<forall>a w. keeps_ids rq kq w (sw_add_external_address W a w))
   \<and> (\<forall>a w. keeps_ids rq kq w (sw_remove_external_address W a w))
   \<and> (\<forall>p a w. keeps_ids rq kq w (kad_add_address W p a w))
   \<and> (\<forall>p a w. keeps_ids rq kq w (kad_remove_address W p a w))
   \<and> (\<forall>k w. keeps_ids rq kq w (snd (kad_start_providing W k w)))
   \<and> (\<forall>k w. keeps_ids rq kq w (kad_stop_providing W k w))
   \<and> (\<forall>c r w. keeps_ids rq kq w (rr_send_response W c r w))"

lemma keeps_ids_refl [simp]: "keeps_ids rq kq w w"
  by (simp add: keeps_ids_def)

lemma keeps_ids_trans [trans]: "keeps_ids rq kq w w' \<Longrightarrow> keeps_ids rq kq w' w'' \<Longrightarrow> keeps_ids rq kq w w''"
  by (auto simp: keeps_ids_def)

text \<open>The tables are maps, and every id they wait for was handed out by the swarm.\<close>

definition tables_ok :: "('w \<Rightarrow> nat set) \<Rightarrow> ('w \<Rightarrow> nat set) \<Rightarrow> 'w event_loop \<Rightarrow> bool" where
  "tables_ok rq kq s \<longleftrightarrow>
     hm_wf (el_pending_req s) \<and> hm_wf (el_pending_providers s) \<and> hm_wf (el_pending_put s) \<and> hm_wf (el_pending_get s)
   \<and> dom (hm_get (el_pending_req s)) \<subseteq> rq (el_swarm s)
   \<and> dom (hm_get (el_pending_providers s)) \<subseteq> kq (el_swarm s)
   \<and> dom (hm_get (el_pending_put s)) \<subseteq> kq (el_swarm s)
   \<and> dom (hm_get (el_pending_get s)) \<subseteq> kq (el_swarm s)"

text \<open>The part of the state that matters for callers.\<close>

definition same_calls :: "'w event_loop \<Rightarrow> 'w event_loop \<Rightarrow> bool" where
  "same_calls s s' \<longleftrightarrow> el_pending_req s' = el_pending_req s \<and> el_pending_providers s' = el_pending_providers s
     \<and> el_pending_put s' = el_pending_put s \<and> el_pending_get s' = el_pending_get s \<and> el_replies s' = el_replies s"

definition conserves :: "('w \<Rightarrow> nat set) \<Rightarrow> ('w \<Rightarrow> nat set) \<Rightarrow> chan multiset \<Rightarrow> 'w event_loop \<Rightarrow> 'w event_loop \<Rightarrow> bool" where
  "conserves rq kq cs s s' \<longleftrightarrow> tables_ok rq kq s' \<and> answered s' + waiting s' = answered s + waiting s + cs"

lemma same_calls_refl [simp]: "same_calls s s"
  by (simp add: same_calls_def)

lemma same_calls_trans: "same_calls s s' \<Longrightarrow> same_calls s' s'' \<Longrightarrow> same_calls s s''"
  by (simp add: same_calls_def)

lemma same_calls_conserves:
  assumes "tables_ok rq kq s" and "same_calls s s'" and "keeps_ids rq kq (el_swarm s) (el_swarm s')"
  shows "conserves rq kq {#} s s'"
  using assms by (auto simp: keeps_ids_def conserves_def tables_ok_def same_calls_def waiting_def answered_def)

lemma conserves_trans: "conserves rq kq a s s' \<Longrightarrow> conserves rq kq b s' s'' \<Longrightarrow> conserves rq kq (a + b) s s''"
  by (simp add: conserves_def)

section \<open>Serving does not touch the tables\<close>

lemma charge_calls [simp]: "same_calls s (charge p n s)" "el_swarm (charge p n s) = el_swarm s"
  by (simp_all add: same_calls_def charge_def)

lemma ensure_symbols_calls: "ensure_symbols N root s = (ok, s') \<Longrightarrow> same_calls s s' \<and> el_swarm s' = el_swarm s"
  by (auto simp: ensure_symbols_def same_calls_def split: if_splits option.splits sum.splits prod.splits)

lemma symbol_calls: "symbol N root i s = (r, s') \<Longrightarrow> same_calls s s' \<and> el_swarm s' = el_swarm s"
  using ensure_symbols_calls [of N root s]
  by (auto simp: symbol_def split: prod.splits bool.splits option.splits)

lemma symbols_range_calls: "symbols_range N root a n s = (r, s') \<Longrightarrow> same_calls s s' \<and> el_swarm s' = el_swarm s"
  using ensure_symbols_calls [of N root s]
  by (auto simp: symbols_range_def split: prod.splits bool.splits option.splits)

lemma same_calls_charge: "same_calls s s' \<Longrightarrow> same_calls s (charge p n s')"
  using charge_calls(1) same_calls_trans by blast

lemma serve_calls: "serve N p req s = (r, s') \<Longrightarrow> same_calls s s' \<and> el_swarm s' = el_swarm s"
proof (cases req)
  case (ReqChunk h)
  assume "serve N p req s = (r, s')"
  with ReqChunk show ?thesis
    by (auto simp: serve_def same_calls_def charge_def split: if_splits prod.splits sum.splits option.splits)
next
  case (ReqSymbol root i)
  assume "serve N p req s = (r, s')"
  with ReqSymbol show ?thesis
    using symbol_calls [of N "Hash root" "unat i" s] by (auto simp: serve_def split: prod.splits option.splits intro: same_calls_charge)
next
  case (ReqSymbols root a n)
  assume "serve N p req s = (r, s')"
  with ReqSymbols show ?thesis
    using symbols_range_calls [of N "Hash root" "unat a" "unat (min n MAX_SYMBOLS_PER_BATCH)" s]
    by (auto simp: serve_def Let_def split: prod.splits if_splits intro: same_calls_charge)
qed (auto simp: serve_def same_calls_def Let_def split: if_splits)

lemma handle_receipts_calls: "same_calls s (handle_receipts_response N p resp s)" "el_swarm (handle_receipts_response N p resp s) = el_swarm s"
  by (auto simp: handle_receipts_response_def same_calls_def split: response.splits option.splits prod.splits)

section \<open>Every handler accounts for its callers\<close>

lemmas call_defs = conserves_def tables_ok_def waiting_def answered_def send_reply_def

lemma answer_req:
  assumes "tables_ok rq kq s" and "hm_get (el_pending_req s) i = Some c"
  shows "conserves rq kq {#} s (send_reply c r (s\<lparr>el_pending_req := hm_remove i (el_pending_req s)\<rparr>))"
  using assms mset_hm_remove [of "el_pending_req s" i c] by (auto simp: call_defs dom_hm_remove)

lemma answer_providers_conserves: "tables_ok rq kq s \<Longrightarrow> conserves rq kq {#} s (answer_providers q s)"
proof (cases "hm_get (el_pending_providers s) q")
  case (Some ac)
  obtain acc c where ac: "ac = (acc, c)" by force
  assume "tables_ok rq kq s"
  with Some ac mset_hm_remove [of "el_pending_providers s" q ac] show ?thesis
    by (auto simp: answer_providers_def call_defs dom_hm_remove)
qed (simp add: answer_providers_def conserves_def)

lemma answer_get_conserves: "tables_ok rq kq s \<Longrightarrow> conserves rq kq {#} s (answer_get q v s)"
  using mset_hm_remove [of "el_pending_get s" q]
  by (auto simp: answer_get_def call_defs dom_hm_remove split: option.splits)

lemma answer_put_conserves: "tables_ok rq kq s \<Longrightarrow> conserves rq kq {#} s (answer_put q v s)"
  using mset_hm_remove [of "el_pending_put s" q]
  by (auto simp: answer_put_def call_defs dom_hm_remove split: option.splits)

lemma collect_providers_conserves: "tables_ok rq kq s \<Longrightarrow> conserves rq kq {#} s (collect_providers q ps s)"
proof (cases "hm_get (el_pending_providers s) q")
  case (Some ac)
  obtain acc c where ac: "ac = (acc, c)" by force
  assume "tables_ok rq kq s"
  with Some ac mset_hm_insert_old [of "el_pending_providers s" q ac "snd \<circ> snd" "(add_new acc ps, c)"] show ?thesis
    by (auto simp: collect_providers_def call_defs hm.dom_insert)
qed (simp add: collect_providers_def conserves_def)

lemma conserves_ok: "conserves rq kq cs s s' \<Longrightarrow> tables_ok rq kq s'"
  by (simp add: conserves_def)

lemma on_kad_conserves: "tables_ok rq kq s \<Longrightarrow> conserves rq kq {#} s (on_kad q result is_last s)"
proof -
  assume ok: "tables_ok rq kq s"
  have "conserves rq kq {#} s s" using ok by (simp add: conserves_def)
  moreover have "conserves rq kq {#} s (answer_providers q (collect_providers q ps s))" for ps
    using conserves_trans [OF collect_providers_conserves [OF ok] answer_providers_conserves] conserves_ok [OF collect_providers_conserves [OF ok]]
    by fastforce
  ultimately show ?thesis
    using ok collect_providers_conserves answer_providers_conserves answer_get_conserves answer_put_conserves
    by (auto simp: on_kad_def Let_def split: kad_result.split)
qed

lemma conserves_frame:
  assumes "tables_ok rq kq s" and "same_calls s s1" and "el_swarm s1 = el_swarm s" and "conserves rq kq cs s1 s'"
  shows "conserves rq kq cs s s'"
  using conserves_trans [OF same_calls_conserves assms(4)] assms(1-3) by simp

lemma on_response_conserves: "tables_ok rq kq s \<Longrightarrow> conserves rq kq {#} s (on_response N p i resp s)"
proof -
  assume ok: "tables_ok rq kq s"
  define s1 where "s1 = (case resp of
      RespChunk (Some data) \<Rightarrow> s\<lparr>el_ledger := record_received p (of_nat (length data)) (el_ledger s), el_ledger_dirty := True\<rparr> | _ \<Rightarrow> s)"
  define s2 where "s2 = s1\<lparr>el_pending_internal := hm_remove i (el_pending_internal s1)\<rparr>"
  have fr: "same_calls s s2" "el_swarm s2 = el_swarm s"
    by (auto simp: s2_def s1_def same_calls_def split: response.split option.split)
  then have ok2: "tables_ok rq kq s2" using ok by (simp add: tables_ok_def same_calls_def)
  have id2: "conserves rq kq {#} s2 s2" using ok2 by (simp add: conserves_def)
  have h: "conserves rq kq {#} s2 (handle_receipts_response N p resp s2)"
    using same_calls_conserves [OF ok2 handle_receipts_calls(1)] by (simp add: handle_receipts_calls)
  have "conserves rq kq {#} s2 (on_response N p i resp s)"
    using id2 h answer_req [OF ok2, of i]
    by (auto simp: on_response_def Let_def simp flip: s1_def s2_def split: option.split internal_request.split)
  then show ?thesis using conserves_frame [OF ok fr] by blast
qed

lemma on_outbound_failure_conserves: "tables_ok rq kq s \<Longrightarrow> conserves rq kq {#} s (on_outbound_failure i s)"
proof -
  assume ok: "tables_ok rq kq s"
  define s1 where "s1 = s\<lparr>el_pending_internal := hm_remove i (el_pending_internal s)\<rparr>"
  have fr: "same_calls s s1" "el_swarm s1 = el_swarm s" by (simp_all add: s1_def same_calls_def)
  then have ok1: "tables_ok rq kq s1" using ok by (simp add: tables_ok_def same_calls_def)
  then have "conserves rq kq {#} s1 s1" by (simp add: conserves_def)
  then have "conserves rq kq {#} s1 (on_outbound_failure i s)"
    using answer_req [OF ok1, of i] by (auto simp: on_outbound_failure_def Let_def simp flip: s1_def split: option.split)
  then show ?thesis using conserves_frame [OF ok fr] by blast
qed

lemma fresh_pure:
  assumes "ids_fresh W rq kq"
  shows "keeps_ids rq kq w (snd (sw_listen_on W a w))" "keeps_ids rq kq w (snd (sw_dial W a w))"
    "keeps_ids rq kq w (sw_add_external_address W a w)" "keeps_ids rq kq w (sw_remove_external_address W a w)"
    "keeps_ids rq kq w (kad_add_address W p a w)" "keeps_ids rq kq w (kad_remove_address W p a w)"
    "keeps_ids rq kq w (snd (kad_start_providing W k w))" "keeps_ids rq kq w (kad_stop_providing W k w)"
    "keeps_ids rq kq w (rr_send_response W c r w)"
  using assms by (simp_all add: ids_fresh_def)

lemma fresh_ids:
  assumes "ids_fresh W rq kq"
  shows "new_id rq rq kq w (rr_send_request W p r w)" "new_id kq rq kq w (kad_get_providers W k w)"
    "new_id kq rq kq w (kad_get_record W k w)" "put_id rq kq w (kad_put_record W k v w)"
  using assms by (simp_all add: ids_fresh_def)

lemma fold_add_address: "ids_fresh W rq kq \<Longrightarrow> keeps_ids rq kq w (foldl (\<lambda>w a. kad_add_address W p a w) w addrs)"
proof (induction addrs arbitrary: w)
  case (Cons a addrs)
  from fresh_pure(5) [OF Cons.prems] Cons.IH [OF Cons.prems] have "keeps_ids rq kq w (foldl (\<lambda>w a. kad_add_address W p a w) (kad_add_address W p a w) addrs)"
    by (rule keeps_ids_trans)
  then show ?case by simp
qed simp

lemma on_identify_conserves:
  assumes "ids_fresh W rq kq" and "tables_ok rq kq s"
  shows "conserves rq kq {#} s (on_identify W p addrs key s)"
proof (rule same_calls_conserves [OF assms(2)])
  show "same_calls s (on_identify W p addrs key s)"
    by (auto simp: on_identify_def same_calls_def Let_def split: option.split prod.split)
  let ?w = "foldl (\<lambda>w a. kad_add_address W p a w) (el_swarm s) addrs"
  have w: "keeps_ids rq kq (el_swarm s) ?w" using fold_add_address [OF assms(1)] .
  moreover have "keeps_ids rq kq ?w (snd (rr_send_request W p ReqGetReceipts ?w))"
    using fresh_ids(1) [OF assms(1)] by (simp add: new_id_def)
  ultimately have "keeps_ids rq kq (el_swarm s) (snd (rr_send_request W p ReqGetReceipts ?w))" by (rule keeps_ids_trans)
  with w show "keeps_ids rq kq (el_swarm s) (el_swarm (on_identify W p addrs key s))"
    by (auto simp: on_identify_def Let_def split: option.split prod.split)
qed

lemma mdns_conserves:
  assumes W: "ids_fresh W rq kq"
  shows "tables_ok rq kq s \<Longrightarrow> conserves rq kq {#} s (foldl (mdns_found W) s found)"
proof (induction found arbitrary: s)
  case (Cons e found)
  obtain p a now where e: "e = (p, a, now)" by (cases e)
  have "same_calls s (mdns_found W s e)" by (simp add: e mdns_found_def same_calls_def Let_def)
  moreover have "keeps_ids rq kq (el_swarm s) (el_swarm (mdns_found W s e))"
    using fresh_pure(5) [OF W, of "el_swarm s" p a] keeps_ids_trans [OF fresh_pure(5) fresh_pure(2), OF W W]
    by (simp add: e mdns_found_def Let_def)
  ultimately have "conserves rq kq {#} s (mdns_found W s e)" using same_calls_conserves Cons.prems by blast
  then show ?case using conserves_trans [OF _ Cons.IH [OF conserves_ok]] by fastforce
qed (simp add: conserves_def)

lemma on_event_conserves:
  assumes W: "ids_fresh W rq kq" and ok: "tables_ok rq kq s"
  shows "conserves rq kq {#} s (on_event N W e s)"
proof -
  have swarm_only: "conserves rq kq {#} s (s\<lparr>el_swarm := w\<rparr>)" if "keeps_ids rq kq (el_swarm s) w" for w
    using that by (intro same_calls_conserves [OF ok]) (simp_all add: same_calls_def)
  have "conserves rq kq {#} s (on_rr_request N W p req c s)" for p req c
  proof -
    obtain r s' where r: "serve N p req s = (r, s')" by force
    from serve_calls [OF this] have fr: "same_calls s s'" "el_swarm s' = el_swarm s" by auto
    then show ?thesis unfolding on_rr_request_def r
      by (auto simp: fresh_pure(9) [OF W] same_calls_def intro!: same_calls_conserves [OF ok])
  qed
  moreover have "conserves rq kq {#} s (on_connection_closed W p n a s)" for p n a
    using fresh_pure(6) [OF W] by (auto simp: on_connection_closed_def same_calls_def intro!: same_calls_conserves [OF ok])
  ultimately show ?thesis
    using swarm_only [OF keeps_ids_refl] swarm_only [OF fresh_pure(3) [OF W]] swarm_only [OF fresh_pure(4) [OF W]]
      on_response_conserves [OF ok] on_outbound_failure_conserves [OF ok] on_kad_conserves [OF ok]
      on_identify_conserves [OF W ok] mdns_conserves [OF W ok]
    by (cases e) (simp_all add: on_event_def)
qed

lemma reply_now: "tables_ok rq kq s \<Longrightarrow> keeps_ids rq kq (el_swarm s) w \<Longrightarrow> conserves rq kq {#c#} s (send_reply c r (s\<lparr>el_swarm := w\<rparr>))"
  by (auto simp: call_defs keeps_ids_def)

lemma wait_req:
  assumes "tables_ok rq kq s" and "new_id rq rq kq (el_swarm s) (i, w)"
  shows "conserves rq kq {#c#} s (s\<lparr>el_swarm := w, el_pending_req := hm_insert i c (el_pending_req s)\<rparr>)"
proof -
  have "hm_get (el_pending_req s) i = None" using assms by (auto simp: tables_ok_def new_id_def domIff)
  with assms mset_hm_insert_new [of "el_pending_req s" i c] show ?thesis
    by (auto simp: call_defs new_id_def keeps_ids_def hm.dom_insert)
qed

lemma wait_providers:
  assumes "tables_ok rq kq s" and "new_id kq rq kq (el_swarm s) (i, w)"
  shows "conserves rq kq {#c#} s (s\<lparr>el_swarm := w, el_pending_providers := hm_insert i ([], c) (el_pending_providers s)\<rparr>)"
proof -
  have "hm_get (el_pending_providers s) i = None" using assms by (auto simp: tables_ok_def new_id_def domIff)
  with assms mset_hm_insert_new [of "el_pending_providers s" i "([], c)"] show ?thesis
    by (auto simp: call_defs new_id_def keeps_ids_def hm.dom_insert)
qed

lemma wait_put:
  assumes "tables_ok rq kq s" and "new_id kq rq kq (el_swarm s) (i, w)"
  shows "conserves rq kq {#c#} s (s\<lparr>el_swarm := w, el_pending_put := hm_insert i c (el_pending_put s)\<rparr>)"
proof -
  have "hm_get (el_pending_put s) i = None" using assms by (auto simp: tables_ok_def new_id_def domIff)
  with assms mset_hm_insert_new [of "el_pending_put s" i c] show ?thesis
    by (auto simp: call_defs new_id_def keeps_ids_def hm.dom_insert)
qed

lemma wait_get:
  assumes "tables_ok rq kq s" and "new_id kq rq kq (el_swarm s) (i, w)"
  shows "conserves rq kq {#c#} s (s\<lparr>el_swarm := w, el_pending_get := hm_insert i c (el_pending_get s)\<rparr>)"
proof -
  have "hm_get (el_pending_get s) i = None" using assms by (auto simp: tables_ok_def new_id_def domIff)
  with assms mset_hm_insert_new [of "el_pending_get s" i c] show ?thesis
    by (auto simp: call_defs new_id_def keeps_ids_def hm.dom_insert)
qed

lemma on_command_conserves:
  assumes W: "ids_fresh W rq kq" and ok: "tables_ok rq kq s"
  shows "conserves rq kq (caller (Command cmd)) s (on_command N W cmd s)"
proof -
  have now: "conserves rq kq {#c#} s (send_reply c r s)" for c r
    using reply_now [OF ok keeps_ids_refl, of c r] by simp
  have swarm_only: "conserves rq kq {#} s s'" if "same_calls s s'" "keeps_ids rq kq (el_swarm s) (el_swarm s')" for s'
    using same_calls_conserves [OF ok that] .
  have put: "conserves rq kq {#c#} s (on_command N W (CmdPutRecord k v c) s)" for k v c
  proof (cases "kad_put_record W k v (el_swarm s)")
    case (Pair r w)
    with fresh_ids(4) [OF W, of "el_swarm s" k v] wait_put [OF ok] reply_now [OF ok]
    show ?thesis by (auto simp: on_command_def put_id_def split: sum.splits)
  qed
  have sub: "conserves rq kq {#} s (submit_receipt_cmd N W p n s)" for p n
  proof (cases "hm_get (el_rep_peers s) p")
    case (Some server)
    let ?r = "ReqSubmitReceipt (receipt_issue (ne_ed N) (el_rep_identity s) server n (el_next_receipt_epoch s))"
    have "keeps_ids rq kq (el_swarm s) (snd (rr_send_request W p ?r (el_swarm s)))"
      using fresh_ids(1) [OF W] by (simp add: new_id_def)
    with Some show ?thesis
      by (intro swarm_only) (auto simp: submit_receipt_cmd_def same_calls_def Let_def split: prod.split)
  next
    case None
    then show ?thesis by (intro swarm_only) (simp_all add: submit_receipt_cmd_def)
  qed
  show ?thesis
  proof (cases cmd)
    case (CmdFindProviders root c)
    with fresh_ids(2) [OF W, of "el_swarm s" "as_bytes root"] wait_providers [OF ok] show ?thesis
      by (auto simp: on_command_def split: prod.splits)
  next
    case (CmdRequest p req c)
    with fresh_ids(1) [OF W, of "el_swarm s" p req] wait_req [OF ok] show ?thesis
      by (auto simp: on_command_def split: prod.splits)
  next
    case (CmdGetRecord k c)
    with fresh_ids(3) [OF W, of "el_swarm s" k] wait_get [OF ok] show ?thesis
      by (auto simp: on_command_def split: prod.splits)
  next
    case (CmdListen a c)
    with fresh_pure(1) [OF W, of "el_swarm s" a] reply_now [OF ok] show ?thesis
      by (auto simp: on_command_def split: prod.splits)
  next
    case (CmdDial a c)
    with fresh_pure(2) [OF W, of "el_swarm s" a] reply_now [OF ok] show ?thesis
      by (auto simp: on_command_def split: prod.splits)
  next
    case (CmdPutRecord k v c)
    with put show ?thesis by simp
  next
    case (CmdSubmitReceipt p n)
    with sub show ?thesis by (simp add: on_command_def)
  qed (simp_all add: on_command_def now swarm_only same_calls_def fresh_pure [OF W])
qed

lemma save_tick_conserves: "tables_ok rq kq s \<Longrightarrow> conserves rq kq {#} s (save_tick N s)"
  by (rule same_calls_conserves) (auto simp: save_tick_def same_calls_def split: prod.split sum.split)

lemma el_turn_conserves:
  assumes "ids_fresh W rq kq" and "tables_ok rq kq s"
  shows "conserves rq kq (caller i) s (el_turn N W i s)"
  using on_event_conserves [OF assms] on_command_conserves [OF assms] save_tick_conserves [OF assms(2)] by (cases i) simp_all

lemma el_run_conserves:
  assumes "ids_fresh W rq kq"
  shows "tables_ok rq kq s \<Longrightarrow> conserves rq kq (\<Sum>i\<leftarrow>ins. caller i) s (el_run N W ins s)"
proof (induction ins arbitrary: s)
  case (Cons i ins)
  note c = el_turn_conserves [OF assms Cons.prems, of i N]
  from conserves_trans [OF c Cons.IH [OF conserves_ok [OF c]]] show ?case by (simp add: el_run_def)
qed (simp add: el_run_def conserves_def)

section \<open>Receipts\<close>

definition receipts_genuine :: "'d net_env \<Rightarrow> 'w event_loop \<Rightarrow> bool" where
  "receipts_genuine N s \<longleftrightarrow> bag_inv (el_receipts s) \<and> (\<forall>r \<in> set (rb_receipts (el_receipts s)).
     receipt_verify (ne_ed N) r \<and> rc_server r = id_peer_id (ne_ed N) (el_rep_identity s) \<and> rc_client r \<noteq> rc_server r)"

definition same_bag :: "'w event_loop \<Rightarrow> 'w event_loop \<Rightarrow> bool" where
  "same_bag s s' \<longleftrightarrow> el_receipts s' = el_receipts s \<and> el_rep_identity s' = el_rep_identity s"

lemma same_bag_refl [simp]: "same_bag s s"
  by (simp add: same_bag_def)

lemma genuine_same: "same_bag s s' \<Longrightarrow> receipts_genuine N s \<Longrightarrow> receipts_genuine N s'"
  unfolding same_bag_def receipts_genuine_def by metis

lemma bag_insert_subset: "set (rb_receipts (bag_insert r B)) \<subseteq> insert r (set (rb_receipts B))"
proof -
  have "set (take MAX_RECEIPTS (sort_key bag_key (rb_receipts B @ [r]))) \<subseteq> set (sort_key bag_key (rb_receipts B @ [r]))"
    by (rule set_take_subset)
  then show ?thesis by (auto simp: bag_insert_def)
qed

lemma ensure_symbols_bag: "ensure_symbols N root s = (ok, s') \<Longrightarrow> same_bag s s'"
  by (auto simp: ensure_symbols_def same_bag_def split: if_splits option.splits sum.splits prod.splits)

lemma symbol_bag: "symbol N root i s = (r, s') \<Longrightarrow> same_bag s s'"
  using ensure_symbols_bag [of N root s] by (auto simp: symbol_def split: prod.splits bool.splits option.splits)

lemma symbols_range_bag: "symbols_range N root a n s = (r, s') \<Longrightarrow> same_bag s s'"
  using ensure_symbols_bag [of N root s] by (auto simp: symbols_range_def split: prod.splits bool.splits option.splits)

lemma charge_bag [simp]: "same_bag s (charge p n s') \<longleftrightarrow> same_bag s s'"
  by (simp add: same_bag_def charge_def)

lemma serve_genuine:
  assumes g: "receipts_genuine N s" and sv: "serve N p req s = (resp, s')"
  shows "receipts_genuine N s'"
proof (cases "\<exists>r. req = ReqSubmitReceipt r")
  case True
  then obtain r where "req = ReqSubmitReceipt r" ..
  with sv g bag_insert_subset [of r "el_receipts s"] bag_inv_insert [of "el_receipts s" r] show ?thesis
    by (auto simp: serve_def receipts_genuine_def Let_def split: if_splits)
next
  case False
  have "same_bag s s'"
  proof (cases req)
    case (ReqSymbol root i)
    with sv symbol_bag [of N "Hash root" "unat i" s] show ?thesis
      by (auto simp: serve_def split: prod.splits option.splits)
  next
    case (ReqSymbols root a n)
    with sv symbols_range_bag [of N "Hash root" "unat a" "unat (min n MAX_SYMBOLS_PER_BATCH)" s] show ?thesis
      by (auto simp: serve_def Let_def split: prod.splits if_splits)
  qed (use sv False in \<open>auto simp: serve_def same_bag_def charge_def split: if_splits prod.splits sum.splits option.splits\<close>)
  then show ?thesis using genuine_same g by blast
qed

lemma handle_receipts_bag: "same_bag s (handle_receipts_response N p resp s)"
  by (auto simp: handle_receipts_response_def same_bag_def split: response.splits option.splits prod.splits)

lemma on_response_bag: "same_bag s (on_response N p i resp s)"
proof -
  define s1 where "s1 = (case resp of
      RespChunk (Some data) \<Rightarrow> s\<lparr>el_ledger := record_received p (of_nat (length data)) (el_ledger s), el_ledger_dirty := True\<rparr> | _ \<Rightarrow> s)"
  define s2 where "s2 = s1\<lparr>el_pending_internal := hm_remove i (el_pending_internal s1)\<rparr>"
  have "same_bag s s2" by (auto simp: s2_def s1_def same_bag_def split: response.split option.split)
  moreover have "same_bag s2 (on_response N p i resp s)"
    using handle_receipts_bag [of s2 N p resp]
    by (auto simp: on_response_def Let_def same_bag_def send_reply_def simp flip: s1_def s2_def split: option.split internal_request.split)
  ultimately show ?thesis by (simp add: same_bag_def)
qed

lemma mdns_bag: "same_bag s (foldl (mdns_found W) s found)"
proof (induction found arbitrary: s)
  case (Cons e found)
  have "same_bag s (mdns_found W s e)" by (cases e) (simp add: mdns_found_def same_bag_def Let_def)
  with Cons.IH [of "mdns_found W s e"] show ?case by (simp add: same_bag_def)
qed simp

lemma on_kad_bag: "same_bag s (on_kad q r l s)"
  by (auto simp: on_kad_def same_bag_def Let_def answer_providers_def answer_get_def answer_put_def collect_providers_def send_reply_def
      split: kad_result.split option.split prod.split)

lemma on_command_bag: "same_bag s (on_command N W cmd s)"
  by (cases cmd) (auto simp: on_command_def same_bag_def send_reply_def submit_receipt_cmd_def Let_def split: prod.split sum.split option.split)

lemma small_handlers_bag:
  "same_bag s (on_outbound_failure i s)" "same_bag s (on_identify W p addrs key s)" "same_bag s (on_connection_closed W p n a s)"
  "same_bag s (s\<lparr>el_swarm := w\<rparr>)"
  by (auto simp: same_bag_def on_outbound_failure_def Let_def send_reply_def on_identify_def on_connection_closed_def split: option.split prod.split)

lemma on_event_bag: "\<nexists>p req c. e = RrRequest p req c \<Longrightarrow> same_bag s (on_event N W e s)"
  by (cases e) (simp_all add: on_event_def on_response_bag mdns_bag on_kad_bag small_handlers_bag)

lemma el_turn_genuine: "receipts_genuine N s \<Longrightarrow> receipts_genuine N (el_turn N W i s)"
proof (cases i)
  case (SwarmEvent e)
  assume g: "receipts_genuine N s"
  have "same_bag s (on_event N W e s)" if "\<nexists>p req c. e = RrRequest p req c"
    using that on_event_bag by blast
  moreover have "receipts_genuine N (on_rr_request N W p req c s)" for p req c
    using serve_genuine [OF g, of p req] genuine_same [OF small_handlers_bag(4)]
    by (cases "serve N p req s") (simp add: on_rr_request_def)
  ultimately show ?thesis using SwarmEvent g genuine_same by (cases "\<exists>p req c. e = RrRequest p req c") (auto simp: on_event_def)
next
  case (Command cmd)
  then show "receipts_genuine N s \<Longrightarrow> ?thesis" using genuine_same [OF on_command_bag] by simp
next
  case SaveTick
  then show "receipts_genuine N s \<Longrightarrow> ?thesis"
    by (auto simp: save_tick_def receipts_genuine_def split: prod.split sum.split)
qed

lemma el_run_genuine: "receipts_genuine N s \<Longrightarrow> receipts_genuine N (el_run N W ins s)"
  by (induction ins arbitrary: s) (auto simp: el_run_def el_turn_genuine)

text \<open>The receipts of an answer that count: verified, about the peer, and the first of their client and epoch.\<close>

fun chosen :: "ed25519 \<Rightarrow> peer_id \<Rightarrow> receipt list \<Rightarrow> (peer_id \<times> u64) list \<Rightarrow> receipt list" where
  "chosen E ex [] seen = []"
| "chosen E ex (r # rs) seen =
     (if receipt_verify E r \<and> rc_server r = ex \<and> (rc_client r, rc_epoch r) \<notin> set seen
      then r # chosen E ex rs ((rc_client r, rc_epoch r) # seen) else chosen E ex rs seen)"

lemma credit_loop_chosen:
  "credit_loop E p ex rs seen L cr =
     (fold contribute (map (\<lambda>r. Credited p (rc_bytes r)) (chosen E ex rs seen)) L, cr \<or> chosen E ex rs seen \<noteq> [])"
  by (induction rs arbitrary: seen L cr) auto

lemma chosen_sound: "r \<in> set (chosen E ex rs seen) \<Longrightarrow> r \<in> set rs \<and> receipt_verify E r \<and> rc_server r = ex \<and> (rc_client r, rc_epoch r) \<notin> set seen"
  by (induction rs arbitrary: seen) (fastforce split: if_splits)+

lemma chosen_distinct: "distinct (map (\<lambda>r. (rc_client r, rc_epoch r)) (chosen E ex rs seen))"
proof (induction rs arbitrary: seen)
  case (Cons r rs)
  then show ?case using chosen_sound [of _ E ex rs "(rc_client r, rc_epoch r) # seen"] by fastforce
qed simp

section \<open>Sample node\<close>

text \<open>A swarm that only counts its request and query ids.\<close>

definition counting_swarm :: "(nat \<times> nat) swarm" where
  "counting_swarm = \<lparr>sw_listen_on = (\<lambda>_ w. (Inr (), w)), sw_dial = (\<lambda>_ w. (Inr (), w)), sw_listeners = (\<lambda>_. []),
     sw_external_addresses = (\<lambda>_. []), sw_connected_peers = (\<lambda>_. []), sw_add_external_address = (\<lambda>_ w. w),
     sw_remove_external_address = (\<lambda>_ w. w), kad_add_address = (\<lambda>_ _ w. w), kad_remove_address = (\<lambda>_ _ w. w),
     kad_start_providing = (\<lambda>_ (r, q). (Inr q, (r, Suc q))), kad_stop_providing = (\<lambda>_ w. w),
     kad_get_providers = (\<lambda>_ (r, q). (q, (r, Suc q))), kad_put_record = (\<lambda>_ _ (r, q). (Inr q, (r, Suc q))),
     kad_get_record = (\<lambda>_ (r, q). (q, (r, Suc q))), rr_send_request = (\<lambda>_ _ (r, q). (r, (Suc r, q))),
     rr_send_response = (\<lambda>_ _ w. w)\<rparr>"

lemma counting_fresh: "ids_fresh counting_swarm (\<lambda>w. {..<fst w}) (\<lambda>w. {..<snd w})"
  by (auto simp: ids_fresh_def counting_swarm_def keeps_ids_def new_id_def put_id_def)

definition tree_manifest :: manifest where
  "tree_manifest = from_files sample_crates sample_files None"

definition tree_codec :: "manifest codec" where
  "tree_codec = \<lparr>serialize = (\<lambda>_. Inr [9]), deserialize = (\<lambda>b. if b = [9] then Inr tree_manifest else Inl ''eof'')\<rparr>"

definition sample_peer_codec :: "peer ledger_codec" where
  "sample_peer_codec = \<lparr>serialize = (\<lambda>_. Inr []), deserialize = (\<lambda>_. Inr [])\<rparr>"

definition sample_env :: "unit net_env" where
  "sample_env = \<lparr>ne_crates = sample_crates, ne_ed = sample_ed, ne_manifest = tree_codec, ne_ledger = sample_peer_codec,
     ne_receipts = sample_bag_codec, ne_raptorq = sample_rq, ne_proc = sample_proc\<rparr>"

definition sample_loop :: "(nat \<times> nat) event_loop" where
  "sample_loop = event_loop_new (0, 0) sample_store sample_fs ledger_new bag_new sample_identity 0"

definition vouched_loop :: "(nat \<times> nat) event_loop" where
  "vouched_loop = sample_loop\<lparr>el_pending_internal := [(0, IntGetReceipts)], el_rep_peers := [([1], sample_server)]\<rparr>"

lemma sample_loop_ok: "tables_ok rq kq (event_loop_new w st f L B i c)"
  by (simp add: tables_ok_def event_loop_new_def dom_def)

section \<open>Properties\<close>

text \<open>
  C29. No caller is forgotten and none is answered twice. In every run of the swarm task, whatever events,
  commands and ticks arrive in whatever order, the callers answered so far and those still waiting are
  together exactly the callers of the commands received, counted with multiplicity, and everyone who
  waits is waiting for an id the swarm has handed out. The ids are assumed not to repeat.
\<close>

theorem replies_conserved:
  assumes "ids_fresh W rq kq"
  shows "answered (el_run N W ins (event_loop_new w st f L B i c)) + waiting (el_run N W ins (event_loop_new w st f L B i c))
      = (\<Sum>inp\<leftarrow>ins. caller inp)
    \<and> tables_ok rq kq (el_run N W ins (event_loop_new w st f L B i c))"
  using el_run_conserves [OF assms sample_loop_ok, where ins = ins and N = N]
  by (simp add: conserves_def) (simp add: answered_def waiting_def event_loop_new_def)

theorem replies_conserved_witness:
  "answered (el_run sample_env counting_swarm
       [Command (CmdFindProviders (Hash [1]) 7), Command (CmdGetRecord [2] 8), SwarmEvent (KadProgressed 0 GetProvidersErr True)] sample_loop)
   + waiting (el_run sample_env counting_swarm
       [Command (CmdFindProviders (Hash [1]) 7), Command (CmdGetRecord [2] 8), SwarmEvent (KadProgressed 0 GetProvidersErr True)] sample_loop)
   = {#7, 8#}"
  using replies_conserved [OF counting_fresh,
      of sample_env "[Command (CmdFindProviders (Hash [1]) 7), Command (CmdGetRecord [2] 8), SwarmEvent (KadProgressed 0 GetProvidersErr True)]"]
  by (simp add: sample_loop_def)

text \<open>
  A chunk leaves the node only verified, only to a peer that is not choked, and it is booked: the
  answer to a chunk request is either nothing, with the ledger untouched, or bytes whose digest is the
  requested hash, in which case the peer was not choked and its account is charged their length.
\<close>

theorem chunk_served_verified:
  "(fst (serve N p (ReqChunk h) s) = RespChunk None \<and> el_ledger (snd (serve N p (ReqChunk h) s)) = el_ledger s)
   \<or> (\<exists>b. fst (serve N p (ReqChunk h) s) = RespChunk (Some b) \<and> hash_of (blake3 (ne_crates N)) b = Hash h \<and> \<not> choked s p
        \<and> el_ledger (snd (serve N p (ReqChunk h) s)) = record_served p (of_nat (length b)) (el_ledger s)
        \<and> el_ledger_dirty (snd (serve N p (ReqChunk h) s)))"
proof (cases "get (ne_crates N) (el_store s) (el_fs s) (Hash h)")
  case (Pair r st')
  then show ?thesis using get_hash [of "ne_crates N" "el_store s" "el_fs s" "Hash h"]
    by (auto simp: serve_def charge_def split: sum.split option.split)
qed

text \<open>
  C30. The receipt bag is always genuine: in every run, every receipt the node holds and presents is signed
  by its client, credits this node, was not signed by the node itself, and there are at most fifty.
\<close>

theorem bag_stays_genuine:
  assumes "receipts_genuine N s"
  shows "receipts_genuine N (el_run N W ins s)"
  using el_run_genuine [OF assms] .

theorem bag_stays_genuine_witness: "receipts_genuine sample_env (el_run sample_env counting_swarm
    [SwarmEvent (RrRequest [1] (ReqSubmitReceipt (receipt_issue sample_ed (from_seed (replicate 32 1)) (id_peer_id sample_ed sample_identity) 5 1)) 0)] sample_loop)"
  by (rule bag_stays_genuine) (simp add: receipts_genuine_def sample_loop_def event_loop_new_def bag_new_def bag_inv_def)

text \<open>
  C31. Presented receipts count once and only for their subject. When a peer answers the pull for its
  receipts, exactly the receipts that verify, name that peer as server and are the first of their client
  and epoch are credited, to that peer and no other, in one capped sum; served and received byte counts
  never change.
\<close>

theorem receipts_credit_subject:
  assumes "hm_get (el_pending_internal s) i = Some IntGetReceipts" and "hm_get (el_rep_peers s) p = Some ex"
  shows "\<exists>rs'. set rs' \<subseteq> set rs \<and> (\<forall>r \<in> set rs'. receipt_verify (ne_ed N) r \<and> rc_server r = ex)
      \<and> distinct (map (\<lambda>r. (rc_client r, rc_epoch r)) rs')
      \<and> unat (ct_credited (ledger_counters (el_ledger (on_response N p i (RespReceipts rs) s)) p))
          = capped (unat (ct_credited (ledger_counters (el_ledger s) p)) + (\<Sum>r\<leftarrow>rs'. unat (rc_bytes r)))
      \<and> (\<forall>q. q = p \<or> ledger_counters (el_ledger (on_response N p i (RespReceipts rs) s)) q = ledger_counters (el_ledger s) q)
      \<and> ct_we_served (ledger_counters (el_ledger (on_response N p i (RespReceipts rs) s)) p) = ct_we_served (ledger_counters (el_ledger s) p)
      \<and> ct_served_to_us (ledger_counters (el_ledger (on_response N p i (RespReceipts rs) s)) p) = ct_served_to_us (ledger_counters (el_ledger s) p)"
proof -
  let ?rs = "chosen (ne_ed N) ex rs []" and ?L = "el_ledger s"
  let ?L' = "fold contribute (map (\<lambda>r. Credited p (rc_bytes r)) (chosen (ne_ed N) ex rs [])) (el_ledger s)"
  have L: "el_ledger (on_response N p i (RespReceipts rs) s) = ?L'"
    using assms by (auto simp: on_response_def handle_receipts_response_def credit_loop_chosen Let_def)
  have others: "ledger_counters (fold contribute (map (\<lambda>r. Credited p (rc_bytes r)) rs') M) q = ledger_counters M q" if "q \<noteq> p" for rs' :: "receipt list" and M :: "peer ledger" and q
    using that by (induction rs' arbitrary: M) (simp_all add: ledger_ops)
  have same: "ct_we_served (ledger_counters (fold contribute (map (\<lambda>r. Credited p (rc_bytes r)) rs') M) p) = ct_we_served (ledger_counters M p)
      \<and> ct_served_to_us (ledger_counters (fold contribute (map (\<lambda>r. Credited p (rc_bytes r)) rs') M) p) = ct_served_to_us (ledger_counters M p)" for rs' :: "receipt list" and M :: "peer ledger"
    by (induction rs' arbitrary: M) (simp_all add: ledger_ops)
  have "unat (ct_credited (ledger_counters ?L' p)) = capped (unat (ct_credited (ledger_counters ?L p)) + (\<Sum>r\<leftarrow>?rs. unat (rc_bytes r)))"
    by (simp add: fold_counters comp_def)
  then show ?thesis
    unfolding L using others same chosen_distinct [of "ne_ed N" ex rs "[]"]
    by (intro exI [of _ ?rs] conjI) (auto dest: chosen_sound)
qed

theorem receipts_credit_subject_witness:
  "ct_we_served (ledger_counters (el_ledger (on_response sample_env [1] 0 (RespReceipts []) vouched_loop)) [1]) = ct_we_served (ledger_counters (el_ledger vouched_loop) [1])"
proof -
  have "hm_get (el_pending_internal vouched_loop) 0 = Some IntGetReceipts" "hm_get (el_rep_peers vouched_loop) [1] = Some sample_server"
    by (simp_all add: hm_get_def vouched_loop_def)
  from receipts_credit_subject [OF this, of "[]" sample_env] show ?thesis by (elim exE conjE)
qed

text \<open>
  Withdrawing content withdraws its manifest and its symbols: after an \<open>unprovide\<close> no peer gets the
  manifest, a symbol or a batch of symbols of that root any more; after a \<open>provide\<close> every peer gets exactly
  the manifest provided.
\<close>

theorem unprovide_withdraws:
  "fst (serve N p (ReqManifest root) (on_command N W (CmdUnprovide (Hash root)) s)) = RespManifest None
   \<and> fst (serve N p (ReqSymbol root i) (on_command N W (CmdUnprovide (Hash root)) s)) = RespSymbol None
   \<and> fst (serve N p (ReqSymbols root a n) (on_command N W (CmdUnprovide (Hash root)) s)) = RespSymbols []
   \<and> fst (serve N p (ReqManifest root) (on_command N W (CmdProvide (Hash root) mb) s)) = RespManifest (Some mb)"
  by (simp add: serve_def on_command_def symbol_def symbols_range_def ensure_symbols_def hm_contains_def)

text \<open>
  A batch of symbols is bounded: however many a peer asks for, it gets at most 256 of them and no more
  than asked, and they are the consecutive cached symbols from the requested position on.
\<close>

theorem symbols_bounded:
  "\<exists>syms. fst (serve N p (ReqSymbols root a n) s) = RespSymbols syms \<and> length syms \<le> 256 \<and> length syms \<le> unat n
    \<and> (syms = [] \<or> (\<exists>all. hm_get (el_symbols (snd (serve N p (ReqSymbols root a n) s))) (Hash root) = Some all
         \<and> syms = take (min (unat n) 256) (drop (unat a) all)))"
proof -
  obtain syms s' where r: "symbols_range N (Hash root) (unat a) (unat (min n MAX_SYMBOLS_PER_BATCH)) s = (syms, s')" by force
  have m: "unat (min n MAX_SYMBOLS_PER_BATCH) = min (unat n) 256"
    by (simp add: MAX_SYMBOLS_PER_BATCH_def min_def word_le_nat_alt)
  have sl: "slice all k (min (k + j) (length all)) = take j (drop k all)" if "k < length all" for k j and all :: "bytes list"
    using that by (simp add: slice_def min_def)
  have "syms = [] \<or> (\<exists>all. hm_get (el_symbols s') (Hash root) = Some all \<and> syms = take (min (unat n) 256) (drop (unat a) all))"
    using r unfolding symbols_range_def m by (auto simp: sl split: prod.splits bool.splits option.splits if_splits)
  moreover from this have "length syms \<le> 256" "length syms \<le> unat n" by auto
  ultimately show ?thesis using r by (intro exI [of _ syms]) (simp add: serve_def Let_def charge_def)
qed

end
