(* ===== verification/Choke.thy ===== *)
theory Choke
  imports Event_Loop_Props
begin

text \<open>
  The choke over whole runs of the swarm task (\<open>serve\<close> and \<open>set_choke_threshold\<close> in
  \<open>crates/np2ptp-net/src/lib.rs\<close>, \<open>reputation\<close> in \<open>crates/np2ptp-rep/src/ledger.rs\<close>): what a peer can take in
  chunks is bounded by what it gave, what its receipts vouch for, and the threshold.
\<close>

section \<open>The account of a peer\<close>

definition taken :: "peer \<Rightarrow> 'w event_loop \<Rightarrow> nat" where
  "taken p s = unat (ct_we_served (ledger_counters (el_ledger s) p))"

definition given :: "peer \<Rightarrow> 'w event_loop \<Rightarrow> nat" where
  "given p s = unat (ct_served_to_us (ledger_counters (el_ledger s) p)) + unat (ct_credited (ledger_counters (el_ledger s) p))"

text \<open>Accounts only grow, and the threshold is only changed by its command.\<close>

definition account_grows :: "peer \<Rightarrow> 'w event_loop \<Rightarrow> 'w event_loop \<Rightarrow> bool" where
  "account_grows p s s' \<longleftrightarrow> el_choke_threshold s' = el_choke_threshold s \<and> taken p s \<le> taken p s' \<and> given p s \<le> given p s'"

lemmas account_defs = account_grows_def taken_def given_def

lemma account_grows_refl [simp]: "account_grows p s s"
  by (simp add: account_grows_def)

lemma account_grows_trans [trans]: "account_grows p s s' \<Longrightarrow> account_grows p s' s'' \<Longrightarrow> account_grows p s s''"
  by (simp add: account_grows_def)

lemma account_same_ledger: "el_ledger s' = el_ledger s \<Longrightarrow> el_choke_threshold s' = el_choke_threshold s \<Longrightarrow> account_grows p s s'"
  by (simp add: account_defs)

lemma unat_le_sat_add: "unat a \<le> unat (sat_add a b)"
  using sat_add_le [of a b] by (simp add: word_le_nat_alt)

lemma charge_grows: "account_grows p s s' \<Longrightarrow> account_grows p s (charge q n s')"
  using unat_le_sat_add [of "ct_we_served (ledger_counters (el_ledger s') q)" n]
  by (auto simp: account_defs charge_def ledger_ops)

lemma ensure_symbols_grows: "ensure_symbols N root s = (ok, s') \<Longrightarrow> account_grows p s s'"
  by (rule account_same_ledger) (auto simp: ensure_symbols_def split: if_splits option.splits sum.splits prod.splits)

lemma symbol_grows: "symbol N root i s = (r, s') \<Longrightarrow> account_grows p s s'"
  using ensure_symbols_grows [of N root s] by (auto simp: symbol_def split: prod.splits bool.splits option.splits)

lemma symbols_range_grows: "symbols_range N root a n s = (r, s') \<Longrightarrow> account_grows p s s'"
  using ensure_symbols_grows [of N root s] by (auto simp: symbols_range_def split: prod.splits bool.splits option.splits)

lemma serve_grows: "serve N q req s = (resp, s') \<Longrightarrow> account_grows p s s'"
proof (cases req)
  case (ReqSymbol root i)
  assume "serve N q req s = (resp, s')"
  with ReqSymbol symbol_grows [of N "Hash root" "unat i" s _ _ p] show ?thesis
    by (auto simp: serve_def charge_grows split: prod.splits option.splits)
next
  case (ReqSymbols root a n)
  assume "serve N q req s = (resp, s')"
  with ReqSymbols symbols_range_grows [of N "Hash root" "unat a" "unat (min n MAX_SYMBOLS_PER_BATCH)" s _ _ p] show ?thesis
    by (auto simp: serve_def Let_def charge_grows split: prod.splits if_splits)
next
  case (ReqChunk h)
  assume "serve N q req s = (resp, s')"
  with ReqChunk show ?thesis
    by (auto simp: serve_def intro!: charge_grows account_same_ledger split: if_splits prod.splits sum.splits option.splits)
qed (auto simp: serve_def Let_def intro!: account_same_ledger split: if_splits)

lemma credit_loop_grows:
  "credit_loop E q ex rs seen L c = (L', c') \<Longrightarrow>
     ct_we_served (ledger_counters L' p) = ct_we_served (ledger_counters L p)
     \<and> ct_served_to_us (ledger_counters L' p) = ct_served_to_us (ledger_counters L p)
     \<and> unat (ct_credited (ledger_counters L p)) \<le> unat (ct_credited (ledger_counters L' p))"
proof (induction rs arbitrary: seen L c)
  case (Cons r rs)
  show ?case
  proof (cases "receipt_verify E r \<and> rc_server r = ex \<and> (rc_client r, rc_epoch r) \<notin> set seen")
    case True
    from Cons.IH Cons.prems True have "ct_we_served (ledger_counters L' p) = ct_we_served (ledger_counters (credit_receipt q (rc_bytes r) L) p)
      \<and> ct_served_to_us (ledger_counters L' p) = ct_served_to_us (ledger_counters (credit_receipt q (rc_bytes r) L) p)
      \<and> unat (ct_credited (ledger_counters (credit_receipt q (rc_bytes r) L) p)) \<le> unat (ct_credited (ledger_counters L' p))" by simp
    then show ?thesis using unat_le_sat_add [of "ct_credited (ledger_counters L p)" "rc_bytes r"]
      by (auto simp: ledger_ops split: if_splits intro: order_trans)
  qed (use Cons in auto)
qed simp

lemma on_response_grows: "account_grows p s (on_response N q i resp s)"
proof -
  define s1 where "s1 = (case resp of
      RespChunk (Some data) \<Rightarrow> s\<lparr>el_ledger := record_received q (of_nat (length data)) (el_ledger s), el_ledger_dirty := True\<rparr> | _ \<Rightarrow> s)"
  define s2 where "s2 = s1\<lparr>el_pending_internal := hm_remove i (el_pending_internal s1)\<rparr>"
  have "account_grows p s s1" using unat_le_sat_add
    by (auto simp: s1_def account_defs ledger_ops split: response.split option.split)
  also have "account_grows p s1 s2" by (simp add: s2_def account_defs)
  also have "account_grows p s2 (on_response N q i resp s)"
    by (auto simp: on_response_def Let_def account_defs send_reply_def handle_receipts_response_def simp flip: s1_def s2_def
        split: option.split internal_request.split response.split prod.split dest: credit_loop_grows [where p = p])
  finally show ?thesis .
qed

lemma mdns_grows: "account_grows p s (foldl (mdns_found W) s found)"
proof (induction found arbitrary: s)
  case (Cons e found)
  have "account_grows p s (mdns_found W s e)" by (cases e) (simp add: mdns_found_def account_defs Let_def)
  with Cons.IH [of "mdns_found W s e"] show ?case by (auto intro: account_grows_trans)
qed simp

lemma on_event_grows: "account_grows p s (on_event N W e s)"
proof (cases e)
  case (RrRequest q req c)
  obtain resp s' where "serve N q req s = (resp, s')" by force
  then show ?thesis using serve_grows [of N q req s resp s' p] RrRequest by (simp add: on_event_def on_rr_request_def account_defs)
qed (auto simp: on_event_def on_response_grows mdns_grows on_kad_def Let_def on_outbound_failure_def on_identify_def on_connection_closed_def
      answer_providers_def answer_get_def answer_put_def collect_providers_def send_reply_def intro!: account_same_ledger
      split: kad_result.split option.split prod.split)

fun sets_threshold :: "input \<Rightarrow> bool" where
  "sets_threshold (Command (CmdSetChokeThreshold t)) = True"
| "sets_threshold _ = False"

lemma on_command_grows: "\<not> sets_threshold (Command c) \<Longrightarrow> account_grows p s (on_command N W c s)"
  by (cases c) (auto simp: on_command_def account_defs send_reply_def submit_receipt_cmd_def Let_def split: prod.split sum.split option.split)

lemma el_turn_grows: "\<not> sets_threshold i \<Longrightarrow> account_grows p s (el_turn N W i s)"
  by (cases i) (auto simp: on_event_grows on_command_grows save_tick_def intro!: account_same_ledger split: prod.split sum.split)

lemma el_run_grows: "\<forall>i \<in> set ins. \<not> sets_threshold i \<Longrightarrow> account_grows p s (el_run N W ins s)"
proof (induction ins arbitrary: s)
  case (Cons i ins)
  then show ?case using el_turn_grows [of i p s N W] by (auto simp: el_run_def intro: account_grows_trans)
qed (simp add: el_run_def)

section \<open>The chunks a peer gets in a run\<close>

definition served_chunk :: "'d net_env \<Rightarrow> peer \<Rightarrow> input \<Rightarrow> 'w event_loop \<Rightarrow> bytes list" where
  "served_chunk N p i s =
     (case i of
        SwarmEvent (RrRequest q (ReqChunk h) c) \<Rightarrow>
          (if q = p then (case fst (serve N q (ReqChunk h) s) of RespChunk (Some b) \<Rightarrow> [b] | _ \<Rightarrow> []) else [])
      | _ \<Rightarrow> [])"

fun chunks_to :: "'d net_env \<Rightarrow> 'w swarm \<Rightarrow> peer \<Rightarrow> input list \<Rightarrow> 'w event_loop \<Rightarrow> bytes list" where
  "chunks_to N W p [] s = []"
| "chunks_to N W p (i # ins) s = served_chunk N p i s @ chunks_to N W p ins (el_turn N W i s)"

text \<open>Serving a chunk means the peer was in good standing, and books the chunk exactly unless the counter is at its cap.\<close>

lemma served_chunk_step:
  assumes sv: "served_chunk N p i s = b # bs" and len: "length b < 2 ^ 64" and t: "- (2 ^ 63) < el_choke_threshold s" "el_choke_threshold s < 2 ^ 63"
    and cap: "taken p (el_turn N W i s) < 2 ^ 64 - 1"
  shows "bs = [] \<and> int (taken p s) \<le> int (given p s) + el_choke_threshold s \<and> taken p (el_turn N W i s) = taken p s + length b"
proof -
  obtain h c where i: "i = SwarmEvent (RrRequest p (ReqChunk h) c)" and r: "fst (serve N p (ReqChunk h) s) = RespChunk (Some b)" and bs: "bs = []"
    using sv by (auto simp: served_chunk_def split: input.splits swarm_event.splits request.splits response.splits option.splits if_splits)
  then have free: "\<not> choked s p" and L: "el_ledger (el_turn N W i s) = record_served p (of_nat (length b)) (el_ledger s)"
    by (auto simp: serve_def charge_def on_event_def on_rr_request_def split: if_splits prod.splits sum.splits option.splits)
  have "unat (of_nat (length b) :: u64) = length b" using len by (simp add: unsigned_of_nat take_bit_nat_eq_self)
  then have "taken p (el_turn N W i s) = taken p s + length b"
    using L cap by (simp add: taken_def ledger_ops unat_sat_add min_def split: if_splits)
  moreover have "int (taken p s) \<le> int (given p s) + el_choke_threshold s"
    using free t by (auto simp: choked_def reputation_def Let_def clamp_i64_def saturating_neg_def taken_def given_def split: if_splits)
  ultimately show ?thesis using bs by simp
qed

text \<open>
  C4. A free rider is cut off. In every run of the swarm task that keeps its choke threshold, whatever the
  peer requests and whatever else happens in between, all chunks the peer gets but the last one together with
  what it had taken before hold at most as many bytes as the peer has given and been vouched for by the end,
  plus the threshold. So a peer that gives nothing, under threshold zero, gets one chunk. (Symbol requests are
  booked, but not refused.)
\<close>

theorem choke_bounds_debt:
  assumes "\<forall>i \<in> set ins. \<not> sets_threshold i" and "- (2 ^ 63) < el_choke_threshold s" "el_choke_threshold s < 2 ^ 63"
    and "\<forall>b \<in> set (chunks_to N W p ins s). length b < 2 ^ 64" and "taken p (el_run N W ins s) < 2 ^ 64 - 1"
    and "chunks_to N W p ins s \<noteq> []"
  shows "int (taken p s) + (\<Sum>b\<leftarrow>butlast (chunks_to N W p ins s). int (length b)) \<le> int (given p (el_run N W ins s)) + el_choke_threshold s"
  using assms
proof (induction ins arbitrary: s)
  case (Cons i ins)
  let ?s1 = "el_turn N W i s" and ?rest = "chunks_to N W p ins (el_turn N W i s)"
  have run: "el_run N W (i # ins) s = el_run N W ins ?s1" by (simp add: el_run_def)
  have g1: "account_grows p s ?s1" and g2: "account_grows p ?s1 (el_run N W ins ?s1)" using Cons.prems(1) by (auto intro: el_turn_grows el_run_grows)
  then have cap: "taken p ?s1 < 2 ^ 64 - 1" using Cons.prems(5) run by (simp add: account_grows_def)
  have IH: "int (taken p ?s1) + (\<Sum>b\<leftarrow>butlast ?rest. int (length b)) \<le> int (given p (el_run N W ins ?s1)) + el_choke_threshold s" if "?rest \<noteq> []"
    using Cons.IH [of ?s1] Cons.prems run g1 that by (auto simp: account_grows_def)
  show ?case
  proof (cases "served_chunk N p i s")
    case Nil
    then show ?thesis using IH Cons.prems(6) g1 unfolding run by (simp add: account_grows_def)
  next
    case (Cons b bs)
    then have step: "bs = []" "int (taken p s) \<le> int (given p s) + el_choke_threshold s" "taken p ?s1 = taken p s + length b"
      using served_chunk_step [OF Cons _ Cons.prems(2,3) cap] Cons.prems(4) by auto
    show ?thesis
    proof (cases "?rest = []")
      case True
      then show ?thesis using step Cons g1 g2 unfolding run by (simp add: account_grows_def)
    next
      case False
      then show ?thesis using IH step Cons unfolding run by simp
    qed
  qed
qed simp

text \<open>A strict node with one loose block of two bytes, asked for it twice by a peer that gives nothing.\<close>

definition strict_loop :: "(nat \<times> nat) event_loop" where
  "strict_loop = sample_loop\<lparr>el_choke_threshold := 0,
     el_fs := sample_fs\<lparr>fs_files := hm_insert (path_for sample_crates sample_store (hash_of (blake3 sample_crates) [1, 2])) [1, 2] (fs_files sample_fs)\<rparr>\<rparr>"

definition chunk_twice :: "input list" where
  "chunk_twice = replicate 2 (SwarmEvent (RrRequest [1] (ReqChunk (as_bytes (hash_of (blake3 sample_crates) [1, 2]))) 0))"

lemma strict_run: "chunks_to sample_env counting_swarm [1] chunk_twice strict_loop = [[1, 2]]"
  "taken [1] (el_run sample_env counting_swarm chunk_twice strict_loop) = 2"
  by code_simp+

theorem choke_bounds_debt_witness:
  "chunks_to sample_env counting_swarm [1] chunk_twice strict_loop = [[1, 2]]
   \<and> int (taken [1] strict_loop) \<le> int (given [1] (el_run sample_env counting_swarm chunk_twice strict_loop)) + el_choke_threshold strict_loop"
proof -
  have "\<forall>i \<in> set chunk_twice. \<not> sets_threshold i" by (simp add: chunk_twice_def)
  moreover have "- (2 ^ 63) < el_choke_threshold strict_loop" "el_choke_threshold strict_loop < 2 ^ 63" by (simp_all add: strict_loop_def)
  ultimately show ?thesis using choke_bounds_debt [of chunk_twice strict_loop sample_env counting_swarm "[1]"] strict_run by simp
qed

end
