(* ===== verification/Network.thy ===== *)
theory Network
  imports Event_Loop Store_Clients
begin

text \<open>
  The handle of a node (\<open>Network\<close> in \<open>crates/np2ptp-net/src/lib.rs\<close>): the calls that go through the swarm
  task, the verified fetches, and the three downloads. What lies between a command and its reply (the
  channels, the task, the remote peers) is a state \<open>'n\<close> with three operations: opening a oneshot
  channel, sending a command, and awaiting a reply; it may answer anything, or be gone.
\<close>

section \<open>Calls\<close>

record 'n runtime =
  rt_channel :: "'n \<Rightarrow> chan \<times> 'n"
  rt_send :: "command \<Rightarrow> 'n \<Rightarrow> bool \<times> 'n"
  rt_await :: "chan \<Rightarrow> 'n \<Rightarrow> reply option \<times> 'n"

definition net_send :: "'n runtime \<Rightarrow> command \<Rightarrow> 'n \<Rightarrow> (net_error + unit) \<times> 'n" where
  "net_send R cmd n = (case rt_send R cmd n of (True, n') \<Rightarrow> (Inr (), n') | (False, n') \<Rightarrow> (Inl Shutdown, n'))"

text \<open>A call: open a channel, send the command that carries it, await the reply.\<close>

definition net_call :: "'n runtime \<Rightarrow> (chan \<Rightarrow> command) \<Rightarrow> 'n \<Rightarrow> (net_error + reply) \<times> 'n" where
  "net_call R cmd n =
     (case rt_channel R n of (c, n1) \<Rightarrow> (case net_send R (cmd c) n1 of
        (Inl e, n2) \<Rightarrow> (Inl e, n2)
      | (Inr _, n2) \<Rightarrow> (case rt_await R c n2 of (None, n3) \<Rightarrow> (Inl Shutdown, n3) | (Some r, n3) \<Rightarrow> (Inr r, n3))))"

text \<open>
  The channel of each call carries one type, so a reply has the constructor of its command; a reply of
  another kind cannot occur and is read as a closed channel.
\<close>

definition unit_call :: "'n runtime \<Rightarrow> (chan \<Rightarrow> command) \<Rightarrow> 'n \<Rightarrow> (net_error + unit) \<times> 'n" where
  "unit_call R cmd n = (case net_call R cmd n of (Inl e, n') \<Rightarrow> (Inl e, n') | (Inr (ReplyUnit r), n') \<Rightarrow> (r, n') | (Inr _, n') \<Rightarrow> (Inl Shutdown, n'))"

definition addrs_call :: "'n runtime \<Rightarrow> (chan \<Rightarrow> command) \<Rightarrow> 'n \<Rightarrow> (net_error + multiaddr list) \<times> 'n" where
  "addrs_call R cmd n = (case net_call R cmd n of (Inl e, n') \<Rightarrow> (Inl e, n') | (Inr (ReplyAddrs r), n') \<Rightarrow> (Inr r, n') | (Inr _, n') \<Rightarrow> (Inl Shutdown, n'))"

definition peers_call :: "'n runtime \<Rightarrow> (chan \<Rightarrow> command) \<Rightarrow> 'n \<Rightarrow> (net_error + peer list) \<times> 'n" where
  "peers_call R cmd n = (case net_call R cmd n of (Inl e, n') \<Rightarrow> (Inl e, n') | (Inr (ReplyPeers r), n') \<Rightarrow> (Inr r, n') | (Inr _, n') \<Rightarrow> (Inl Shutdown, n'))"

definition net_listen :: "'n runtime \<Rightarrow> multiaddr \<Rightarrow> 'n \<Rightarrow> (net_error + unit) \<times> 'n" where
  "net_listen R addr n = unit_call R (CmdListen addr) n"

definition net_dial :: "'n runtime \<Rightarrow> multiaddr \<Rightarrow> 'n \<Rightarrow> (net_error + unit) \<times> 'n" where
  "net_dial R addr n = unit_call R (CmdDial addr) n"

definition net_listeners :: "'n runtime \<Rightarrow> 'n \<Rightarrow> (net_error + multiaddr list) \<times> 'n" where
  "net_listeners R n = addrs_call R CmdListeners n"

definition net_external_addresses :: "'n runtime \<Rightarrow> 'n \<Rightarrow> (net_error + multiaddr list) \<times> 'n" where
  "net_external_addresses R n = addrs_call R CmdExternalAddresses n"

definition net_add_peer :: "'n runtime \<Rightarrow> peer \<Rightarrow> multiaddr \<Rightarrow> 'n \<Rightarrow> (net_error + unit) \<times> 'n" where
  "net_add_peer R p addr n = net_send R (CmdAddPeer p addr) n"

definition net_add_external_address :: "'n runtime \<Rightarrow> multiaddr \<Rightarrow> 'n \<Rightarrow> (net_error + unit) \<times> 'n" where
  "net_add_external_address R addr n = net_send R (CmdAddExternalAddress addr) n"

definition net_provide :: "'n runtime \<Rightarrow> manifest codec \<Rightarrow> manifest \<Rightarrow> 'n \<Rightarrow> (net_error + unit) \<times> 'n" where
  "net_provide R Z m n = (case to_nptp Z m of Inl _ \<Rightarrow> (Inl BadManifest, n) | Inr b \<Rightarrow> net_send R (CmdProvide (m_root m) b) n)"

definition net_unprovide :: "'n runtime \<Rightarrow> hash \<Rightarrow> 'n \<Rightarrow> (net_error + unit) \<times> 'n" where
  "net_unprovide R root n = net_send R (CmdUnprovide root) n"

definition set_choke_threshold :: "'n runtime \<Rightarrow> int \<Rightarrow> 'n \<Rightarrow> (net_error + unit) \<times> 'n" where
  "set_choke_threshold R threshold n = net_send R (CmdSetChokeThreshold threshold) n"

definition submit_receipt :: "'n runtime \<Rightarrow> peer \<Rightarrow> u64 \<Rightarrow> 'n \<Rightarrow> (net_error + unit) \<times> 'n" where
  "submit_receipt R p b n = net_send R (CmdSubmitReceipt p b) n"

definition net_reputation :: "'n runtime \<Rightarrow> peer \<Rightarrow> 'n \<Rightarrow> (net_error + int) \<times> 'n" where
  "net_reputation R p n = (case net_call R (CmdReputation p) n of (Inl e, n') \<Rightarrow> (Inl e, n') | (Inr (ReplyInt r), n') \<Rightarrow> (Inr r, n') | (Inr _, n') \<Rightarrow> (Inl Shutdown, n'))"

definition connected_peers :: "'n runtime \<Rightarrow> 'n \<Rightarrow> (net_error + peer list) \<times> 'n" where
  "connected_peers R n = peers_call R CmdConnectedPeers n"

definition net_ledger_totals :: "'n runtime \<Rightarrow> 'n \<Rightarrow> (net_error + counters) \<times> 'n" where
  "net_ledger_totals R n = (case net_call R CmdLedgerTotals n of (Inl e, n') \<Rightarrow> (Inl e, n') | (Inr (ReplyCounters r), n') \<Rightarrow> (Inr r, n') | (Inr _, n') \<Rightarrow> (Inl Shutdown, n'))"

definition put_record :: "'n runtime \<Rightarrow> bytes \<Rightarrow> bytes \<Rightarrow> 'n \<Rightarrow> (net_error + bool) \<times> 'n" where
  "put_record R key v n = (case net_call R (CmdPutRecord key v) n of (Inl e, n') \<Rightarrow> (Inl e, n') | (Inr (ReplyBool r), n') \<Rightarrow> (Inr r, n') | (Inr _, n') \<Rightarrow> (Inl Shutdown, n'))"

definition get_record :: "'n runtime \<Rightarrow> bytes \<Rightarrow> 'n \<Rightarrow> (net_error + bytes option) \<times> 'n" where
  "get_record R key n = (case net_call R (CmdGetRecord key) n of (Inl e, n') \<Rightarrow> (Inl e, n') | (Inr (ReplyRecord r), n') \<Rightarrow> (Inr r, n') | (Inr _, n') \<Rightarrow> (Inl Shutdown, n'))"

definition put_mapping :: "'n runtime \<Rightarrow> crates \<Rightarrow> bytes \<Rightarrow> hash \<Rightarrow> 'n \<Rightarrow> (net_error + bool) \<times> 'n" where
  "put_mapping R X infohash root n = put_record R (mapping_key X infohash) (as_bytes root) n"

definition get_mapping :: "'n runtime \<Rightarrow> crates \<Rightarrow> bytes \<Rightarrow> 'n \<Rightarrow> (net_error + hash option) \<times> 'n" where
  "get_mapping R X infohash n =
     (case get_record R (mapping_key X infohash) n of
        (Inl e, n') \<Rightarrow> (Inl e, n')
      | (Inr None, n') \<Rightarrow> (Inr None, n')
      | (Inr (Some v), n') \<Rightarrow> (Inr (if length v = 32 then Some (Hash v) else None), n'))"

definition find_providers :: "'n runtime \<Rightarrow> hash \<Rightarrow> 'n \<Rightarrow> (net_error + peer list) \<times> 'n" where
  "find_providers R root n = peers_call R (CmdFindProviders root) n"

definition net_request :: "'n runtime \<Rightarrow> peer \<Rightarrow> request \<Rightarrow> 'n \<Rightarrow> (net_error + response) \<times> 'n" where
  "net_request R p req n = (case net_call R (CmdRequest p req) n of (Inl e, n') \<Rightarrow> (Inl e, n') | (Inr (ReplyResponse r), n') \<Rightarrow> (r, n') | (Inr _, n') \<Rightarrow> (Inl Shutdown, n'))"

section \<open>Fetching\<close>

definition check_manifest :: "crates \<Rightarrow> manifest codec \<Rightarrow> hash \<Rightarrow> bytes \<Rightarrow> net_error + manifest" where
  "check_manifest X Z root b =
     (case from_nptp Z b of
        Inl _ \<Rightarrow> Inl BadManifest
      | Inr m \<Rightarrow> if m_root m \<noteq> root \<or> \<not> root_is_consistent X m then Inl BadManifest
               else (case validate m of Inl _ \<Rightarrow> Inl BadManifest | Inr _ \<Rightarrow> Inr m))"

definition get_manifest :: "'n runtime \<Rightarrow> crates \<Rightarrow> manifest codec \<Rightarrow> peer \<Rightarrow> hash \<Rightarrow> 'n \<Rightarrow> (net_error + manifest) \<times> 'n" where
  "get_manifest R X Z p root n =
     (case net_request R p (ReqManifest (as_bytes root)) n of
        (Inl e, n') \<Rightarrow> (Inl e, n')
      | (Inr (RespManifest (Some b)), n') \<Rightarrow> (check_manifest X Z root b, n')
      | (Inr (RespManifest None), n') \<Rightarrow> (Inl NoManifest, n')
      | (Inr _, n') \<Rightarrow> (Inl RequestFailed, n'))"

definition fetch_chunk :: "'n runtime \<Rightarrow> peer \<Rightarrow> hash \<Rightarrow> 'n \<Rightarrow> (net_error + bytes option) \<times> 'n" where
  "fetch_chunk R p h n =
     (case net_request R p (ReqChunk (as_bytes h)) n of
        (Inl e, n') \<Rightarrow> (Inl e, n')
      | (Inr (RespChunk data), n') \<Rightarrow> (Inr data, n')
      | (Inr _, n') \<Rightarrow> (Inl RequestFailed, n'))"

definition fetch_symbol :: "'n runtime \<Rightarrow> peer \<Rightarrow> hash \<Rightarrow> u32 \<Rightarrow> 'n \<Rightarrow> (net_error + bytes option) \<times> 'n" where
  "fetch_symbol R p root index n =
     (case net_request R p (ReqSymbol (as_bytes root) index) n of
        (Inl e, n') \<Rightarrow> (Inl e, n')
      | (Inr (RespSymbol data), n') \<Rightarrow> (Inr data, n')
      | (Inr _, n') \<Rightarrow> (Inl RequestFailed, n'))"

definition fetch_symbols :: "'n runtime \<Rightarrow> peer \<Rightarrow> hash \<Rightarrow> u32 \<Rightarrow> u32 \<Rightarrow> 'n \<Rightarrow> (net_error + bytes list) \<times> 'n" where
  "fetch_symbols R p root start cnt n =
     (case net_request R p (ReqSymbols (as_bytes root) start cnt) n of
        (Inl e, n') \<Rightarrow> (Inl e, n')
      | (Inr (RespSymbols data), n') \<Rightarrow> (Inr data, n')
      | (Inr _, n') \<Rightarrow> (Inl RequestFailed, n'))"

section \<open>Download\<close>

text \<open>The first provider that answers with a good manifest, tried in order.\<close>

fun first_manifest :: "'n runtime \<Rightarrow> crates \<Rightarrow> manifest codec \<Rightarrow> hash \<Rightarrow> peer list \<Rightarrow> net_error \<Rightarrow> 'n \<Rightarrow> (net_error + manifest) \<times> 'n" where
  "first_manifest R X Z root [] last_err n = (Inl last_err, n)"
| "first_manifest R X Z root (p # ps) last_err n =
     (case get_manifest R X Z p root n of
        (Inr m, n') \<Rightarrow> (Inr m, n')
      | (Inl e, n') \<Rightarrow> first_manifest R X Z root ps e n')"

text \<open>The chunks the target store does not have yet, with their index.\<close>

fun missing_chunks :: "crates \<Rightarrow> store \<Rightarrow> fs \<Rightarrow> nat \<Rightarrow> chunk_ref list \<Rightarrow> (nat \<times> hash) list \<times> store" where
  "missing_chunks X st f i [] = ([], st)"
| "missing_chunks X st f i (c # cs) =
     (case has X st f (cref_hash c) of (known, st1) \<Rightarrow>
      case missing_chunks X st1 f (Suc i) cs of (rest, st2) \<Rightarrow>
        (if known then rest else (i, cref_hash c) # rest, st2))"

text \<open>One fetch task: providers round robin from the task's slot on, each tried once.\<close>

fun fetch_from :: "'n runtime \<Rightarrow> crates \<Rightarrow> manifest \<Rightarrow> nat \<Rightarrow> hash \<Rightarrow> peer list \<Rightarrow> net_error \<Rightarrow> 'n
    \<Rightarrow> (net_error + bytes \<times> peer) \<times> 'n" where
  "fetch_from R X m i h [] last_err n = (Inl last_err, n)"
| "fetch_from R X m i h (p # ps) last_err n =
     (case fetch_chunk R p h n of
        (Inr (Some b), n') \<Rightarrow> if chunk_hash_ok X m i b then (Inr (b, p), n') else fetch_from R X m i h ps NetBadChunk n'
      | (Inr None, n') \<Rightarrow> fetch_from R X m i h ps (MissingChunk h) n'
      | (Inl e, n') \<Rightarrow> fetch_from R X m i h ps e n')"

definition round_robin :: "peer list \<Rightarrow> nat \<Rightarrow> peer list" where
  "round_robin providers slot = map (\<lambda>k. providers ! ((slot + k) mod length providers)) [0..<length providers]"

definition fetch_task :: "'n runtime \<Rightarrow> crates \<Rightarrow> manifest \<Rightarrow> peer list \<Rightarrow> nat \<Rightarrow> nat \<times> hash \<Rightarrow> 'n \<Rightarrow> (net_error + bytes \<times> peer) \<times> 'n" where
  "fetch_task R X m providers slot ih n =
     (case ih of (i, h) \<Rightarrow> fetch_from R X m i h (round_robin providers slot) (MissingChunk h) n)"

record download_state =
  dl_store :: store
  dl_fs :: fs
  dl_bytes :: "(peer, u64) hmap"
  dl_done :: nat
  dl_failure :: "net_error option"
  dl_progress :: "(nat \<times> nat) list"

definition credit_bytes :: "peer \<Rightarrow> nat \<Rightarrow> (peer, u64) hmap \<Rightarrow> (peer, u64) hmap" where
  "credit_bytes p len m = hm_insert p ((case hm_get m p of None \<Rightarrow> 0 | Some v \<Rightarrow> v) + of_nat len) m"

text \<open>
  The drain of \<open>buffer_unordered\<close>: results are handled in the order in which the tasks finish. The tasks'
  requests interleave in reality; since the network state may answer anything at any time, running them
  one after the other in the order of their completion loses no behaviour.
\<close>

fun drain :: "'n runtime \<Rightarrow> crates \<Rightarrow> manifest \<Rightarrow> peer list \<Rightarrow> nat \<Rightarrow> (nat \<times> nat \<times> hash) list \<Rightarrow> download_state \<Rightarrow> 'n
    \<Rightarrow> (store_error + unit) \<times> download_state \<times> 'n" where
  "drain R X m providers tot [] d n = (Inr (), d, n)"
| "drain R X m providers tot ((slot, ih) # tasks) d n =
     (case fetch_task R X m providers slot ih n of
        (Inr (b, from), n') \<Rightarrow>
          let bs = credit_bytes from (length b) (dl_bytes d) in
          (case put X (dl_store d) (dl_fs d) b of
             (Inl e, st', f') \<Rightarrow> (Inl e, d\<lparr>dl_bytes := bs, dl_store := st', dl_fs := f'\<rparr>, n')
           | (Inr _, st', f') \<Rightarrow>
               drain R X m providers tot tasks
                 (d\<lparr>dl_bytes := bs, dl_store := st', dl_fs := f', dl_done := dl_done d + 1,
                    dl_progress := dl_progress d @ [(dl_done d + 1, tot)]\<rparr>) n')
      | (Inl e, n') \<Rightarrow>
          drain R X m providers tot tasks (if dl_failure d = None then d\<lparr>dl_failure := Some e\<rparr> else d) n')"

fun submit_all :: "'n runtime \<Rightarrow> (peer, u64) hmap \<Rightarrow> 'n \<Rightarrow> 'n" where
  "submit_all R [] n = n"
| "submit_all R ((p, b) # rest) n = submit_all R rest (if 0 < b then snd (submit_receipt R p b n) else n)"

text \<open>
  \<open>sched k\<close> is the order in which \<open>k\<close> tasks finish. The result comes with the state of the target store
  and the progress reported.
\<close>

definition download_multi_with_progress :: "'n runtime \<Rightarrow> crates \<Rightarrow> manifest codec \<Rightarrow> (nat \<Rightarrow> nat list) \<Rightarrow> hash \<Rightarrow> peer list
    \<Rightarrow> store \<Rightarrow> fs \<Rightarrow> 'n \<Rightarrow> (net_error + manifest) \<times> (store \<times> fs \<times> (nat \<times> nat) list) \<times> 'n" where
  "download_multi_with_progress R X Z sched root providers st f n =
     (if providers = [] then (Inl NoProviders, (st, f, []), n)
      else case first_manifest R X Z root providers NoProviders n of
        (Inl e, n1) \<Rightarrow> (Inl e, (st, f, []), n1)
      | (Inr m, n1) \<Rightarrow> (case missing_chunks X st f 0 (m_chunks m) of (missing, st1) \<Rightarrow>
          let tot = length (m_chunks m); don = tot - length missing;
              tasks = map (\<lambda>slot. (slot, missing ! slot)) (sched (length missing));
              d0 = \<lparr>dl_store = st1, dl_fs = f, dl_bytes = [], dl_done = don, dl_failure = None, dl_progress = [(don, tot)]\<rparr>
          in case drain R X m providers tot tasks d0 n1 of
               (Inl e, d, n2) \<Rightarrow> (Inl (NetStore e), (dl_store d, dl_fs d, dl_progress d), n2)
             | (Inr _, d, n2) \<Rightarrow>
                 (case dl_failure d of Some e \<Rightarrow> Inl e | None \<Rightarrow> Inr m, (dl_store d, dl_fs d, dl_progress d), submit_all R (dl_bytes d) n2)))"

definition download_multi where
  "download_multi R X Z sched root providers st f n =
     (case download_multi_with_progress R X Z sched root providers st f n of (r, (st', f', _), n') \<Rightarrow> (r, (st', f'), n'))"

definition net_download_with_progress where
  "net_download_with_progress R X Z sched root provider st f n = download_multi_with_progress R X Z sched root [provider] st f n"

definition net_download where
  "net_download R X Z sched root provider st f n =
     (case net_download_with_progress R X Z sched root provider st f n of (r, (st', f', _), n') \<Rightarrow> (r, (st', f'), n'))"

section \<open>Erasure-coded download\<close>

text \<open>The loop's variables, and what it does with a batch: go on, fail, or have the content.\<close>

record fec_state =
  fec_symbols :: "bytes list"
  fec_start :: u32
  fec_bytes :: u64
  fec_last :: nat
  fec_attempts :: nat
  fec_progress :: "(nat \<times> nat) list"

datatype fec_next = Again | Failed net_error | Decoded bytes

definition batch_bytes :: "bytes list \<Rightarrow> u64" where
  "batch_bytes batch = sum_list (map (\<lambda>s. of_nat (length s)) batch)"

definition fec_take :: "nat \<Rightarrow> bytes list \<Rightarrow> fec_state \<Rightarrow> fec_state" where
  "fec_take need batch d =
     d\<lparr>fec_symbols := fec_symbols d @ batch, fec_start := sat_add (fec_start d) (of_nat (length batch)),
       fec_bytes := sat_add (fec_bytes d) (batch_bytes batch),
       fec_progress := fec_progress d @ [(min (length (fec_symbols d @ batch)) need, need)]\<rparr>"

definition fec_step :: "'d raptorq \<Rightarrow> manifest \<Rightarrow> bytes \<Rightarrow> hash \<Rightarrow> nat \<Rightarrow> bytes list \<Rightarrow> fec_state \<Rightarrow> fec_next \<times> fec_state" where
  "fec_step Q m config root need batch d0 =
     (let exhausted = (batch = []); d = fec_take need batch d0 in
      if sat_mul (m_total_size m) 2 < fec_bytes d then (Failed NetBadChunk, d)
      else if need \<le> length (fec_symbols d) \<or> exhausted then
        let attempt = (max (need div 4) 1 \<le> length (fec_symbols d) - fec_last d \<or> exhausted);
            d' = (if attempt then d\<lparr>fec_last := length (fec_symbols d), fec_attempts := fec_attempts d + 1\<rparr> else d)
        in case (if attempt then fec_decode Q config (m_total_size m) (fec_symbols d) else None) of
             Some data \<Rightarrow> (Decoded data, d')
           | None \<Rightarrow> if exhausted then (Failed (MissingChunk root), d')
                     else if MAX_DECODE_ATTEMPTS \<le> fec_attempts d' then (Failed NetBadChunk, d')
                     else (Again, d')
      else (Again, d))"

text \<open>
  The attempts left, then the symbols that may still arrive before the next attempt: every round that goes
  on has added a symbol, so the loop ends against every provider.
\<close>

definition fec_room :: "nat \<Rightarrow> fec_state \<Rightarrow> nat" where
  "fec_room need d = max need (fec_last d + max (need div 4) 1) - length (fec_symbols d)"

lemma fec_step_again:
  assumes "fec_step Q m config root need batch d = (Again, d')"
  shows "batch \<noteq> [] \<and> (MAX_DECODE_ATTEMPTS - fec_attempts d' < MAX_DECODE_ATTEMPTS - fec_attempts d
      \<or> fec_attempts d' = fec_attempts d \<and> fec_room need d' < fec_room need d)"
proof -
  from assms have b: "batch \<noteq> []"
    and "fec_attempts d' = Suc (fec_attempts d) \<and> fec_attempts d' < MAX_DECODE_ATTEMPTS
      \<or> fec_attempts d' = fec_attempts d \<and> fec_last d' = fec_last d \<and> length (fec_symbols d') = length (fec_symbols d) + length batch
        \<and> length (fec_symbols d') < max need (fec_last d + max (need div 4) 1)" (is "?tried \<or> ?waited")
    by (auto simp: fec_step_def fec_take_def Let_def less_max_iff_disj split: if_splits option.splits)
  from this(2) show ?thesis
  proof
    assume ?tried
    with b show ?thesis by auto
  next
    assume ?waited
    moreover have "0 < length batch" using b by simp
    ultimately have "fec_room need d' < fec_room need d" unfolding fec_room_def by linarith
    with \<open>?waited\<close> b show ?thesis by simp
  qed
qed

function fec_loop :: "'n runtime \<Rightarrow> 'd raptorq \<Rightarrow> manifest \<Rightarrow> bytes \<Rightarrow> hash \<Rightarrow> nat \<Rightarrow> peer \<Rightarrow> fec_state \<Rightarrow> 'n
    \<Rightarrow> (net_error + bytes) \<times> fec_state \<times> 'n" where
  "fec_loop R Q m config root need p d n =
     (case fetch_symbols R p root (fec_start d) FEC_BATCH n of
        (Inl e, n') \<Rightarrow> (Inl e, d, n')
      | (Inr batch, n') \<Rightarrow> (case fec_step Q m config root need batch d of
          (Again, d') \<Rightarrow> fec_loop R Q m config root need p d' n'
        | (Failed e, d') \<Rightarrow> (Inl e, d', n')
        | (Decoded data, d') \<Rightarrow> (Inr data, d', n')))"
  by pat_completeness auto
termination
proof (relation "measures [\<lambda>(R, Q, m, config, root, need, p, d, n). MAX_DECODE_ATTEMPTS - fec_attempts d,
    \<lambda>(R, Q, m, config, root, need, p, d, n). fec_room need d]", goal_cases)
  case (2 R Q m config root need p d n r n' batch step d')
  then have "fec_step Q m config root need batch d = (Again, d')" by simp
  from fec_step_again [OF this] show ?case by auto
qed simp

declare fec_loop.simps [simp del]

definition fec_need :: "manifest \<Rightarrow> nat" where
  "fec_need m = max (div_ceil (unat (m_total_size m)) (unat DEFAULT_SYMBOL_SIZE)) 1"

definition fec_begin :: fec_state where
  "fec_begin = \<lparr>fec_symbols = [], fec_start = 0, fec_bytes = 0, fec_last = 0, fec_attempts = 0, fec_progress = []\<rparr>"

definition fec_finish :: "'n runtime \<Rightarrow> crates \<Rightarrow> hash \<Rightarrow> peer \<Rightarrow> manifest \<Rightarrow> bytes \<Rightarrow> u64 \<Rightarrow> store \<Rightarrow> fs \<Rightarrow> 'n
    \<Rightarrow> (net_error + manifest) \<times> (store \<times> fs) \<times> 'n" where
  "fec_finish R X root p m decoded fetched st f n =
     (case split_stream m decoded of
        Inl _ \<Rightarrow> (Inl NetBadChunk, (st, f), n)
      | Inr files \<Rightarrow>
          if m_root (from_files X files (m_name m)) \<noteq> root then (Inl NetBadChunk, (st, f), n)
          else (case ingest_tree X st f files (m_name m) of
              (Inl e, s) \<Rightarrow> (Inl (NetStore e), s, n)
            | (Inr _, s) \<Rightarrow> (Inr m, s, if 0 < fetched then snd (submit_receipt R p fetched n) else n)))"

definition download_fec_with_progress :: "'n runtime \<Rightarrow> crates \<Rightarrow> manifest codec \<Rightarrow> 'd raptorq \<Rightarrow> hash \<Rightarrow> peer \<Rightarrow> store \<Rightarrow> fs \<Rightarrow> 'n
    \<Rightarrow> (net_error + manifest) \<times> (store \<times> fs \<times> (nat \<times> nat) list) \<times> 'n" where
  "download_fec_with_progress R X Z Q root p st f n =
     (case get_manifest R X Z p root n of
        (Inl e, n1) \<Rightarrow> (Inl e, (st, f, []), n1)
      | (Inr m, n1) \<Rightarrow>
          if MAX_FEC_TRANSFER_SIZE < m_total_size m then (Inl BadManifest, (st, f, []), n1)
          else case fec_loop R Q m (config_for Q (m_total_size m) DEFAULT_SYMBOL_SIZE) root (fec_need m) p fec_begin n1 of
              (Inl e, d, n2) \<Rightarrow> (Inl e, (st, f, fec_progress d), n2)
            | (Inr decoded, d, n2) \<Rightarrow>
                (case fec_finish R X root p m decoded (fec_bytes d) st f n2 of (r, (st', f'), n3) \<Rightarrow> (r, (st', f', fec_progress d), n3)))"

definition download_fec where
  "download_fec R X Z Q root p st f n =
     (case download_fec_with_progress R X Z Q root p st f n of (r, (st', f', _), n') \<Rightarrow> (r, (st', f'), n'))"


section \<open>Starting a node\<close>

text \<open>
  \<open>Network::spawn\<close>. The operating system's random bytes and everything \<open>libp2p\<close> builds from the key pair
  (transport, behaviours, Kademlia in server mode) are parameters: the latter gives the swarm and the peer
  id, or the text of an error. The task that is spawned is the event loop in its first state.
\<close>

definition spawn_seed :: "string + bytes \<Rightarrow> bytes option \<Rightarrow> net_error + bytes" where
  "spawn_seed random seed =
     (case seed of
        Some b \<Rightarrow> Inr b
      | None \<Rightarrow> (case random of Inl e \<Rightarrow> Inl (NetBuild e) | Inr b \<Rightarrow> Inr b))"

definition spawn_state :: "'d net_env \<Rightarrow> bool \<Rightarrow> path \<Rightarrow> fs \<Rightarrow> (net_error + peer ledger \<times> receipt_bag) \<times> fs" where
  "spawn_state N persistent root f =
     (if persistent then
        (case ledger_open (ne_ledger N) (ne_proc N) f (root @ [''ledger.bin'']) of
           (Inl e, f1) \<Rightarrow> (Inl (NetLedger e), f1)
         | (Inr ledger, f1) \<Rightarrow> (case bag_open (ne_receipts N) (ne_proc N) f1 (root @ [''receipts.bin'']) of
             (Inl e, f2) \<Rightarrow> (Inl (NetReceipts e), f2)
           | (Inr receipts, f2) \<Rightarrow> (Inr (ledger, receipts), f2)))
      else (Inr (ledger_new, bag_new), f))"

definition spawn :: "'d net_env \<Rightarrow> (bytes \<Rightarrow> string + 'w \<times> peer) \<Rightarrow> string + bytes \<Rightarrow> u64 \<Rightarrow> store \<Rightarrow> fs \<Rightarrow> bytes option
    \<Rightarrow> (net_error + 'w event_loop \<times> peer) \<times> fs" where
  "spawn N build random clock st f seed =
     (case spawn_seed random seed of
        Inl e \<Rightarrow> (Inl e, f)
      | Inr seed_bytes \<Rightarrow> (let rep_identity = from_seed seed_bytes in
          case build seed_bytes of
            Inl e \<Rightarrow> (Inl (NetBuild e), f)
          | Inr (w, local_peer_id) \<Rightarrow> (case spawn_state N (seed \<noteq> None) (store_root st) f of
              (Inl e, f1) \<Rightarrow> (Inl e, f1)
            | (Inr (ledger, receipts), f1) \<Rightarrow>
                (Inr (event_loop_new w st f1 ledger receipts rep_identity clock, local_peer_id), f1))))"

end
