(* ===== verification/Downloads.thy ===== *)
theory Downloads
  imports Network Event_Loop_Props
begin

text \<open>
  What a download guarantees: against any network a finished download holds only verified content and
  disturbs nothing else; against a provider that holds the content it finishes. The provider is the
  swarm task of \<open>Event_Loop\<close>, joined to the handle through the interface \<open>content_provider\<close>.
\<close>

section \<open>Fetching\<close>

lemma check_manifest_ok: "check_manifest X Z root b = Inr m \<Longrightarrow> m_root m = root \<and> root_is_consistent X m \<and> validate m = Inr ()"
  by (auto simp: check_manifest_def split: sum.splits if_splits)

lemma get_manifest_ok: "get_manifest R X Z p root n = (Inr m, n') \<Longrightarrow> m_root m = root \<and> root_is_consistent X m \<and> validate m = Inr ()"
  by (auto simp: get_manifest_def split: prod.splits sum.splits response.splits option.splits dest: check_manifest_ok)

lemma first_manifest_ok: "first_manifest R X Z root ps e n = (Inr m, n') \<Longrightarrow> m_root m = root \<and> root_is_consistent X m \<and> validate m = Inr ()"
  by (induction ps arbitrary: e n) (auto split: prod.splits sum.splits dest: get_manifest_ok)

text \<open>
  Documented: the request-response codec refuses responses over ten mebibytes, so what a fetch returns is
  far below the 32-bit lengths of the pack index.
\<close>

definition small_answers :: "'n runtime \<Rightarrow> bool" where
  "small_answers R \<longleftrightarrow> (\<forall>p h n b n'. fetch_chunk R p h n = (Inr (Some b), n') \<longrightarrow> length b < 2 ^ 32)"

lemma small_answersD: "small_answers R \<Longrightarrow> fetch_chunk R p h n = (Inr (Some b), n') \<Longrightarrow> length b < 2 ^ 32"
  unfolding small_answers_def by blast

lemma list_all2_right: "list_all2 P xs ys \<Longrightarrow> y \<in> set ys \<Longrightarrow> \<exists>x \<in> set xs. P x y"
  by (induction rule: list_all2_induct) auto

lemma fetch_from_ok:
  "fetch_from R X m i h ps e n = (Inr (b, p), n') \<Longrightarrow>
     p \<in> set ps \<and> chunk_hash_ok X m i b \<and> (\<exists>n1 n2. fetch_chunk R p h n1 = (Inr (Some b), n2))"
  by (induction ps arbitrary: e n) (fastforce split: prod.splits sum.splits option.splits if_splits)+

lemma set_round_robin: "ps \<noteq> [] \<Longrightarrow> set (round_robin ps slot) \<subseteq> set ps"
  by (auto simp: round_robin_def intro!: nth_mem)

section \<open>Draining\<close>

text \<open>The blocks that arrived, with their providers, in order of arrival.\<close>

lemma drain_blocks:
  assumes R: "small_answers R" and ps: "ps \<noteq> []"
  shows "drain R X m ps tot tasks d n = (r, d', n') \<Longrightarrow>
    \<exists>got. put_each (put_in X) (dl_store d, dl_fs d) (map fst got) = (r, (dl_store d', dl_fs d'))
      \<and> list_all (\<lambda>b. length b < 2 ^ 32) (map fst got) \<and> snd ` set got \<subseteq> set ps
      \<and> (r = Inr () \<longrightarrow> dl_bytes d' = fold (\<lambda>(b, p). credit_bytes p (length b)) got (dl_bytes d)
          \<and> dl_done d' = dl_done d + length got
          \<and> (dl_failure d' = None \<longrightarrow> dl_failure d = None \<and> list_all2 (\<lambda>g t. chunk_hash_ok X m (fst (snd t)) (fst g)) got tasks))"
proof (induction tasks arbitrary: d n)
  case Nil
  then show ?case by (intro exI [of _ "[]"]) simp
next
  case (Cons t tasks)
  obtain slot i h where t: "t = (slot, i, h)" by (cases t)
  obtain q n1 where ft: "fetch_task R X m ps slot (i, h) n = (q, n1)" by force
  show ?case
  proof (cases q)
    case (Inl e)
    let ?d = "if dl_failure d = None then d\<lparr>dl_failure := Some e\<rparr> else d"
    have same: "dl_store ?d = dl_store d" "dl_fs ?d = dl_fs d" "dl_bytes ?d = dl_bytes d" "dl_done ?d = dl_done d" "dl_failure ?d \<noteq> None"
      by auto
    have "drain R X m ps tot tasks ?d n1 = (r, d', n')" using Cons.prems ft t Inl by simp
    from Cons.IH [OF this, unfolded same] obtain got where
      "put_each (put_in X) (dl_store d, dl_fs d) (map fst got) = (r, (dl_store d', dl_fs d'))"
      "list_all (\<lambda>b. length b < 2 ^ 32) (map fst got)" "snd ` set got \<subseteq> set ps"
      "r = Inr () \<longrightarrow> dl_bytes d' = fold (\<lambda>(b, p). credit_bytes p (length b)) got (dl_bytes d)
         \<and> dl_done d' = dl_done d + length got \<and> dl_failure d' \<noteq> None" using same(5) by auto
    then show ?thesis by (intro exI [of _ got]) auto
  next
    case (Inr bp)
    obtain b p where bp: "bp = (b, p)" by force
    have ok: "p \<in> set ps" "chunk_hash_ok X m i b" "length b < 2 ^ 32"
      using fetch_from_ok [of R X m i h "round_robin ps slot" "MissingChunk h" n b p n1] ft Inr bp small_answersD [OF R] set_round_robin [OF ps, of slot]
      by (auto simp: fetch_task_def)
    obtain r' st1 f1 where put: "put X (dl_store d) (dl_fs d) b = (r', st1, f1)" by (metis prod_cases3)
    show ?thesis
    proof (cases r')
      case (Inl e)
      then have "r = Inl e \<and> dl_store d' = st1 \<and> dl_fs d' = f1" using Cons.prems ft t \<open>q = Inr bp\<close> bp put by (auto simp: Let_def)
      then show ?thesis using put Inl ok by (intro exI [of _ "[(b, p)]"]) (simp add: put_in_def)
    next
      case (Inr hn)
      let ?d = "d\<lparr>dl_bytes := credit_bytes p (length b) (dl_bytes d), dl_store := st1, dl_fs := f1, dl_done := dl_done d + 1,
          dl_progress := dl_progress d @ [(dl_done d + 1, tot)]\<rparr>"
      have "drain R X m ps tot tasks ?d n1 = (r, d', n')" using Cons.prems ft t \<open>q = Inr bp\<close> bp put Inr by (simp add: Let_def)
      from Cons.IH [OF this] obtain got where g:
        "put_each (put_in X) (st1, f1) (map fst got) = (r, (dl_store d', dl_fs d'))"
        "list_all (\<lambda>b. length b < 2 ^ 32) (map fst got)" "snd ` set got \<subseteq> set ps"
        "r = Inr () \<longrightarrow> dl_bytes d' = fold (\<lambda>(b, p). credit_bytes p (length b)) got (credit_bytes p (length b) (dl_bytes d))
          \<and> dl_done d' = dl_done d + 1 + length got
          \<and> (dl_failure d' = None \<longrightarrow> dl_failure d = None \<and> list_all2 (\<lambda>g t. chunk_hash_ok X m (fst (snd t)) (fst g)) got tasks)"
        by auto
      have "put_in X (dl_store d, dl_fs d) b = (Inr hn, st1, f1)" using put Inr by (simp add: put_in_def)
      then show ?thesis using g ok t by (intro exI [of _ "(b, p) # got"]) auto
    qed
  qed
qed

lemma drain_progress:
  "drain R X m ps tot tasks d n = (r, d', n') \<Longrightarrow> dl_progress d \<noteq> [] \<Longrightarrow> last (dl_progress d) = (dl_done d, tot) \<Longrightarrow>
     dl_progress d' \<noteq> [] \<and> last (dl_progress d') = (dl_done d', tot)"
proof (induction tasks arbitrary: d n)
  case (Cons t tasks)
  obtain slot ih where t: "t = (slot, ih)" by (cases t)
  from Cons show ?case unfolding t by (fastforce simp: Let_def split: prod.splits sum.splits if_splits)
qed simp

section \<open>Downloading\<close>

lemma missing_chunks_synced:
  assumes "store_inv X dir st f"
  shows "missing_chunks X st f i cs =
    (map (\<lambda>j. (i + j, cref_hash (cs ! j))) (filter (\<lambda>j. holds X st f (cref_hash (cs ! j)) = None) [0..<length cs]), st)"
proof (induction cs arbitrary: i)
  case (Cons c cs)
  have up: "[0..<length (c # cs)] = 0 # map Suc [0..<length cs]" by (simp add: map_Suc_upt upt_conv_Cons del: upt_Suc)
  show ?case
    using has_synced [OF assms, of "cref_hash c"] Cons.IH [of "Suc i"] unfolding up
    by (auto simp: filter_map comp_def)
qed simp

text \<open>All tasks finish, each once, in some order.\<close>

definition complete_schedule :: "(nat \<Rightarrow> nat list) \<Rightarrow> bool" where
  "complete_schedule sched \<longleftrightarrow> (\<forall>k. mset (sched k) = mset [0..<k])"

lemma complete_schedule_set: "complete_schedule sched \<Longrightarrow> set (sched k) = {..<k} \<and> length (sched k) = k"
  unfolding complete_schedule_def by (metis atLeast0LessThan set_mset_mset set_upt size_mset length_upt diff_zero)

lemma drain_held:
  assumes inv: "store_inv X dir st f" and X: "hex_ok X" "digest_ok X" and R: "small_answers R" "ps \<noteq> []" and sched: "complete_schedule sched"
    and mis: "missing_chunks X st f 0 (m_chunks m) = (missing, st1)"
    and dr: "drain R X m ps tot (map (\<lambda>slot. (slot, missing ! slot)) (sched (length missing))) d n = (r, d', n')"
    and d: "dl_store d = st1" "dl_fs d = f" and fits: "fs_fits (dl_fs d')"
  shows "store_inv X dir (dl_store d') (dl_fs d') \<and> holds X st f \<subseteq>\<^sub>m holds X (dl_store d') (dl_fs d')
    \<and> (r = Inr () \<and> dl_failure d' = None \<longrightarrow> dl_done d' = dl_done d + length missing
         \<and> (\<forall>h \<in> set (chunk_hashes m). \<exists>b. holds X (dl_store d') (dl_fs d') h = Some b \<and> hash_of (blake3 X) b = h))"
proof -
  let ?s = "(dl_store d', dl_fs d')" and ?tasks = "map (\<lambda>slot. (slot, missing ! slot)) (sched (length missing))"
  have mi: "missing = map (\<lambda>j. (j, cref_hash (m_chunks m ! j))) (filter (\<lambda>j. holds X st f (cref_hash (m_chunks m ! j)) = None) [0..<length (m_chunks m)])"
    and st1: "st1 = st" using mis missing_chunks_synced [OF inv, of 0 "m_chunks m"] by auto
  from drain_blocks [OF R dr, unfolded d st1] obtain got :: "(bytes \<times> peer) list" where
    p: "put_each (put_in X) (st, f) (map fst got) = (r, ?s)" and small: "list_all (\<lambda>b. length b < 2 ^ 32) (map fst got)"
    and rest: "r = Inr () \<longrightarrow> dl_bytes d' = fold (\<lambda>(b, p). credit_bytes p (length b)) got (dl_bytes d) \<and> dl_done d' = dl_done d + length got
      \<and> (dl_failure d' = None \<longrightarrow> dl_failure d = None \<and> list_all2 (\<lambda>g t. chunk_hash_ok X m (fst (snd t)) (fst g)) got ?tasks)"
    by (elim exE conjE) (rule that)
  have don: "r = Inr () \<longrightarrow> dl_done d' = dl_done d + length got"
    and fail: "r = Inr () \<and> dl_failure d' = None \<longrightarrow> list_all2 (\<lambda>g t. chunk_hash_ok X m (fst (snd t)) (fst g)) got ?tasks"
    using rest by simp_all
  have pre: "hex_ok X \<and> digest_ok X \<and> store_inv X dir (fst (st, f)) (snd (st, f))" using X inv by simp
  note law = cs.put_each_any [of X dir "(st, f)" "map fst got" r ?s, OF pre small p, simplified, OF fits]
  have held: "\<exists>b. holds X (dl_store d') (dl_fs d') h = Some b \<and> hash_of (blake3 X) b = h"
    if ok: "r = Inr () \<and> dl_failure d' = None" and h: "h \<in> set (chunk_hashes m)" for h
  proof -
    obtain j where j: "j < length (m_chunks m)" "h = cref_hash (m_chunks m ! j)"
      using h by (auto simp: chunk_hashes_def in_set_conv_nth)
    have "holds X (dl_store d') (dl_fs d') h \<noteq> None"
    proof (cases "holds X st f h")
      case None
      then have "(j, h) \<in> set missing" using j unfolding mi by auto
      then obtain slot where "slot < length missing" "missing ! slot = (j, h)" by (auto simp: in_set_conv_nth)
      then have "(slot, j, h) \<in> set ?tasks" using complete_schedule_set [OF sched] by force
      from list_all2_right [OF mp [OF fail ok] this] obtain g where "g \<in> set got" "chunk_hash_ok X m j (fst g)"
        by auto
      then have "hash_of (blake3 X) (fst g) = h" "fst g \<in> set (map fst got)"
        using j by (auto simp: chunk_hash_ok_def nth_opt_def)
      then show ?thesis using law ok by auto
    next
      case (Some b)
      then show ?thesis using law by (auto simp: map_le_def dom_def)
    qed
    then obtain b where b: "holds X (dl_store d') (dl_fs d') h = Some b" by blast
    moreover have "hash_of (blake3 X) b = h" using holds_hash b law by blast
    ultimately show ?thesis by blast
  qed
  have len: "length got = length missing" if "r = Inr () \<and> dl_failure d' = None"
    using list_all2_lengthD [OF mp [OF fail that]] complete_schedule_set [OF sched, of "length missing"] by simp
  show ?thesis
  proof (intro conjI impI ballI)
    show "store_inv X dir (dl_store d') (dl_fs d')" using law by (elim conjE)
    show "holds X st f \<subseteq>\<^sub>m holds X (dl_store d') (dl_fs d')" using law by (elim conjE)
    assume ok: "r = Inr () \<and> dl_failure d' = None"
    show "dl_done d' = dl_done d + length missing" using len [OF ok] don ok by simp
    show "\<exists>b. holds X (dl_store d') (dl_fs d') h = Some b \<and> hash_of (blake3 X) b = h" if "h \<in> set (chunk_hashes m)" for h
      using held [OF ok that] .
  qed
qed

lemma drain_grows: "drain R X m ps tot tasks d n = (r, d', n') \<Longrightarrow> grows (dl_fs d) (dl_fs d')"
proof (induction tasks arbitrary: d n)
  case (Cons t tasks)
  obtain slot ih where t: "t = (slot, ih)" by (cases t)
  obtain q n1 where ft: "fetch_task R X m ps slot ih n = (q, n1)" by force
  show ?case
  proof (cases q)
    case (Inl e)
    have "drain R X m ps tot tasks (if dl_failure d = None then d\<lparr>dl_failure := Some e\<rparr> else d) n1 = (r, d', n')"
      using Cons.prems ft t Inl by simp
    from Cons.IH [OF this] show ?thesis by (cases "dl_failure d") auto
  next
    case (Inr bp)
    obtain b p where bp: "bp = (b, p)" by force
    obtain r' st1 f1 where put: "put X (dl_store d) (dl_fs d) b = (r', st1, f1)" by (metis prod_cases3)
    from Cons.prems ft t Inr bp put Cons.IH put_grows [OF put] show ?thesis
      by (cases r') (fastforce simp: Let_def intro: grows_trans)+
  qed
qed simp

lemma download_multi_grows:
  assumes "download_multi_with_progress R X Z sched root ps st f n = (r, (st', f', prog), n')"
  shows "grows f f'"
  using assms by (fastforce simp: download_multi_with_progress_def Let_def split: if_splits prod.splits sum.splits dest: drain_grows)

lemma download_multi_manifest:
  assumes "download_multi_with_progress R X Z sched root ps st f n = (Inr m, s', n')"
  shows "\<exists>n1. first_manifest R X Z root ps NoProviders n = (Inr m, n1)"
  using assms by (auto simp: download_multi_with_progress_def Let_def split: if_splits prod.splits sum.splits option.splits)

section \<open>Downloading from a provider that has the content\<close>

text \<open>
  The interface a download relies on: a provider that, as long as the requester's budget lasts, answers
  the manifest and every chunk it lists.
\<close>

locale content_provider =
  fixes R :: "'n runtime" and X :: crates and p :: peer and m :: manifest and mb :: bytes
    and content :: "hash \<Rightarrow> bytes" and good :: "nat \<Rightarrow> 'n \<Rightarrow> bool"
  assumes manifest_law: "good k n \<Longrightarrow> \<exists>n'. net_request R p (ReqManifest (as_bytes (m_root m))) n = (Inr (RespManifest (Some mb)), n') \<and> good k n'"
    and chunk_law: "good k n \<Longrightarrow> h \<in> set (chunk_hashes m) \<Longrightarrow> length (content h) \<le> k \<Longrightarrow>
      \<exists>n'. net_request R p (ReqChunk (as_bytes h)) n = (Inr (RespChunk (Some (content h))), n') \<and> good (k - length (content h)) n'
        \<and> hash_of (blake3 X) (content h) = h"
begin

definition listed :: "nat \<times> hash \<Rightarrow> bool" where
  "listed ih \<longleftrightarrow> fst ih < length (m_chunks m) \<and> snd ih = cref_hash (m_chunks m ! fst ih)"

definition cost :: "(nat \<times> hash) list \<Rightarrow> nat" where
  "cost ihs = (\<Sum>ih\<leftarrow>ihs. length (content (snd ih)))"

lemma cost_perm: "mset xs = mset ys \<Longrightarrow> cost xs = cost ys"
proof -
  assume "mset xs = mset ys"
  moreover have "cost zs = sum_mset (image_mset (\<lambda>ih. length (content (snd ih))) (mset zs))" for zs
    using sum_mset_sum_list [of "map (\<lambda>ih. length (content (snd ih))) zs"] by (simp add: cost_def)
  ultimately show ?thesis by simp
qed

lemma fetch_task_succeeds:
  assumes "good k n" and "listed ih" and "length (content (snd ih)) \<le> k"
  shows "\<exists>n'. fetch_task R X m [p] slot ih n = (Inr (content (snd ih), p), n') \<and> good (k - length (content (snd ih))) n'"
proof -
  obtain i h where ih: "ih = (i, h)" by force
  have h: "h \<in> set (chunk_hashes m)" using assms(2) ih by (simp add: listed_def chunk_hashes_def)
  obtain n' where "net_request R p (ReqChunk (as_bytes h)) n = (Inr (RespChunk (Some (content h))), n')"
    and "good (k - length (content h)) n'" and "hash_of (blake3 X) (content h) = h"
    using chunk_law [OF assms(1) h] assms(3) ih by auto
  then show ?thesis using assms(2) ih
    by (simp add: fetch_task_def round_robin_def fetch_chunk_def chunk_hash_ok_def listed_def nth_opt_def)
qed

lemma drain_succeeds:
  "good k n \<Longrightarrow> list_all (\<lambda>t. listed (snd t)) tasks \<Longrightarrow> cost (map snd tasks) \<le> k \<Longrightarrow> dl_failure d = None \<Longrightarrow>
   layout_of dir (dl_store d) \<Longrightarrow> store_dirs dir (dl_fs d) \<Longrightarrow>
   drain R X m [p] tot tasks d n = (r, d', n') \<Longrightarrow> r = Inr () \<and> dl_failure d' = None"
proof (induction tasks arbitrary: k n d)
  case (Cons t tasks)
  obtain slot ih where t: "t = (slot, ih)" by (cases t)
  have c: "length (content (snd ih)) + cost (map snd tasks) \<le> k" using Cons.prems(3) t by (simp add: cost_def)
  obtain n1 where f: "fetch_task R X m [p] slot ih n = (Inr (content (snd ih), p), n1)" and g: "good (k - length (content (snd ih))) n1"
    using fetch_task_succeeds [OF Cons.prems(1)] Cons.prems(2) c t by fastforce
  obtain hn st1 f1 where put: "put X (dl_store d) (dl_fs d) (content (snd ih)) = (Inr hn, st1, f1)" "layout_of dir st1" "store_dirs dir f1"
    using put_succeeds [OF Cons.prems(5,6)] by blast
  let ?d = "d\<lparr>dl_bytes := credit_bytes p (length (content (snd ih))) (dl_bytes d), dl_store := st1, dl_fs := f1, dl_done := dl_done d + 1,
      dl_progress := dl_progress d @ [(dl_done d + 1, tot)]\<rparr>"
  have "drain R X m [p] tot tasks ?d n1 = (r, d', n')" using Cons.prems(7) t f put by (simp add: Let_def)
  from Cons.IH [OF g _ _ _ _ _ this] show ?case using Cons.prems(2,4) c put by simp
qed simp

lemma missing_layout: "missing_chunks X st f i cs = (missing, st') \<Longrightarrow> layout_of dir st' = layout_of dir st"
proof (induction cs arbitrary: st i missing)
  case (Cons c cs)
  then show ?case using has_layout [of dir X st f "cref_hash c"] by (auto split: prod.splits)
qed simp

lemma missing_listed:
  "missing_chunks X st f i cs = (missing, st') \<Longrightarrow> m_chunks m = pre @ cs \<Longrightarrow> i = length pre \<Longrightarrow>
     list_all listed missing \<and> cost missing \<le> (\<Sum>c\<leftarrow>cs. length (content (cref_hash c)))"
proof (induction cs arbitrary: st st' i pre missing)
  case (Cons c cs)
  obtain known st1 where k: "has X st f (cref_hash c) = (known, st1)" by force
  obtain rest st2 where r: "missing_chunks X st1 f (Suc i) cs = (rest, st2)" by force
  have IH: "list_all listed rest \<and> cost rest \<le> (\<Sum>c\<leftarrow>cs. length (content (cref_hash c)))"
    using Cons.IH [OF r, of "pre @ [c]"] Cons.prems(2,3) by simp
  have "missing = (if known then rest else (i, cref_hash c) # rest)" using Cons.prems(1) k r by simp
  moreover have "listed (i, cref_hash c)" using Cons.prems(2,3) by (simp add: listed_def)
  ultimately show ?case using IH by (auto simp: cost_def)
qed (simp add: cost_def)

lemma scheduled:
  assumes "complete_schedule sched"
  shows "mset (map (\<lambda>slot. xs ! slot) (sched (length xs))) = mset xs"
proof -
  have "mset (map (\<lambda>slot. xs ! slot) (sched (length xs))) = mset (map (\<lambda>slot. xs ! slot) [0..<length xs])"
    using assms by (simp add: complete_schedule_def)
  then show ?thesis by (simp add: map_nth)
qed

lemma download_succeeds:
  assumes "good k n" and "check_manifest X Z (m_root m) mb = Inr m" and "complete_schedule sched"
    and budget: "(\<Sum>c\<leftarrow>m_chunks m. length (content (cref_hash c))) \<le> k"
    and client: "layout_of dir st" "store_dirs dir f"
    and dl: "download_multi_with_progress R X Z sched (m_root m) [p] st f n = (r, s', n')"
  shows "r = Inr m"
proof -
  obtain n1 where n1: "net_request R p (ReqManifest (as_bytes (m_root m))) n = (Inr (RespManifest (Some mb)), n1)" "good k n1"
    using manifest_law [OF assms(1)] by blast
  then have fm: "first_manifest R X Z (m_root m) [p] NoProviders n = (Inr m, n1)"
    using assms(2) by (simp add: get_manifest_def)
  obtain missing st1 where mi: "missing_chunks X st f 0 (m_chunks m) = (missing, st1)" by force
  let ?tasks = "map (\<lambda>slot. (slot, missing ! slot)) (sched (length missing))"
  let ?d0 = "\<lparr>dl_store = st1, dl_fs = f, dl_bytes = [], dl_done = length (m_chunks m) - length missing, dl_failure = None,
      dl_progress = [(length (m_chunks m) - length missing, length (m_chunks m))]\<rparr>"
  obtain r' d' n2 where dr: "drain R X m [p] (length (m_chunks m)) ?tasks ?d0 n1 = (r', d', n2)" by (rule prod_cases3)
  have perm: "mset (map snd ?tasks) = mset missing" using scheduled [OF assms(3), of missing] by (simp add: comp_def)
  have lst: "list_all listed missing" "cost missing \<le> k" using missing_listed [OF mi, of "[]"] budget by simp_all
  have "set (map snd ?tasks) = set missing" using perm mset_eq_setD by blast
  then have "list_all (\<lambda>t. listed (snd t)) ?tasks" using lst(1) by (auto simp: list_all_iff)
  moreover have "cost (map snd ?tasks) \<le> k" using lst(2) cost_perm [OF perm] by simp
  moreover have "layout_of dir st1" using missing_layout [OF mi] client(1) by simp
  ultimately have "r' = Inr () \<and> dl_failure d' = None"
    using drain_succeeds [OF n1(2) _ _ _ _ _ dr, of dir] client(2) by simp
  then show ?thesis using dl fm mi dr by (auto simp: download_multi_with_progress_def Let_def)
qed

end

subsection \<open>The swarm task is such a provider\<close>

text \<open>
  A direct link between a handle and the swarm task of a remote node: requests are served at once, for the
  peer \<open>me\<close>; every other command is accepted and has no effect here.
\<close>

record 'w link =
  lk_remote :: "'w event_loop"
  lk_replies :: "(chan, reply) hmap"
  lk_next :: chan

definition link_runtime :: "'d net_env \<Rightarrow> peer \<Rightarrow> 'w link runtime" where
  "link_runtime N me = \<lparr>
     rt_channel = (\<lambda>n. (lk_next n, n\<lparr>lk_next := Suc (lk_next n)\<rparr>)),
     rt_send = (\<lambda>cmd n. case cmd of
         CmdRequest p req c \<Rightarrow> (case serve N me req (lk_remote n) of (resp, s') \<Rightarrow>
           (True, n\<lparr>lk_remote := s', lk_replies := hm_insert c (ReplyResponse (Inr resp)) (lk_replies n)\<rparr>))
       | _ \<Rightarrow> (True, n)),
     rt_await = (\<lambda>c n. (hm_get (lk_replies n) c, n))\<rparr>"

lemma link_request: "net_request (link_runtime N me) p req n =
    (Inr (fst (serve N me req (lk_remote n))),
     n\<lparr>lk_next := Suc (lk_next n), lk_remote := snd (serve N me req (lk_remote n)),
       lk_replies := hm_insert (lk_next n) (ReplyResponse (Inr (fst (serve N me req (lk_remote n))))) (lk_replies n)\<rparr>)"
  by (simp add: net_request_def net_call_def net_send_def link_runtime_def split: prod.split)

text \<open>
  The remote node holds and provides the content, does not choke by default, and may still serve \<open>k\<close>
  bytes to this peer before the reputation could reach its minimum.
\<close>

definition good_link :: "'d net_env \<Rightarrow> path \<Rightarrow> peer \<Rightarrow> manifest \<Rightarrow> bytes \<Rightarrow> (hash \<Rightarrow> bytes) \<Rightarrow> nat \<Rightarrow> 'w link \<Rightarrow> bool" where
  "good_link N dir me m mb content k n \<longleftrightarrow>
     (let s = lk_remote n in
      store_inv (ne_crates N) dir (el_store s) (el_fs s) \<and> hm_get (el_provided s) (m_root m) = Some mb
      \<and> (\<forall>h \<in> set (chunk_hashes m). holds (ne_crates N) (el_store s) (el_fs s) h = Some (content h))
      \<and> el_choke_threshold s = 2 ^ 63 - 1
      \<and> unat (ct_we_served (ledger_counters (el_ledger s) me)) + k < 2 ^ 63 - 1)"

lemma not_choked:
  assumes "el_choke_threshold s = 2 ^ 63 - 1" and "unat (ct_we_served (ledger_counters (el_ledger s) p)) < 2 ^ 63 - 1"
  shows "\<not> choked s p"
proof -
  let ?c = "ledger_counters (el_ledger s) p"
  have "int (unat (ct_we_served ?c)) < int (2 ^ 63 - 1)" unfolding of_nat_less_iff by (rule assms(2))
  then have "uint (ct_we_served ?c) < 2 ^ 63 - 1" by simp
  moreover have "0 \<le> uint (ct_served_to_us ?c)" "0 \<le> uint (ct_credited ?c)" by simp_all
  ultimately have "- (2 ^ 63 - 1) < uint (ct_served_to_us ?c) + uint (ct_credited ?c) - uint (ct_we_served ?c)" by linarith
  then have "- (2 ^ 63 - 1) \<le> reputation (el_ledger s) p" by (simp add: reputation_def Let_def clamp_i64_def)
  then show ?thesis using assms(1) by (simp add: choked_def saturating_neg_def)
qed

lemma serve_chunk_good:
  assumes g: "good_link N dir me m mb content k n" and h: "h \<in> set (chunk_hashes m)" and k: "length (content h) \<le> k"
  shows "serve N me (ReqChunk (as_bytes h)) (lk_remote n)
      = (RespChunk (Some (content h)), charge me (of_nat (length (content h))) (lk_remote n))"
proof -
  let ?s = "lk_remote n"
  have "get (ne_crates N) (el_store ?s) (el_fs ?s) h = (Inr (Some (content h)), el_store ?s)"
    using g h get_synced by (fastforce simp: good_link_def Let_def)
  moreover have "\<not> choked ?s me" using g by (intro not_choked) (simp_all add: good_link_def Let_def)
  ultimately show ?thesis by (simp add: serve_def)
qed

lemma charge_counters: "ct_we_served (ledger_counters (el_ledger (charge p b s)) p) = sat_add (ct_we_served (ledger_counters (el_ledger s) p)) b"
  by (simp add: charge_def ledger_ops)

interpretation lk: content_provider "link_runtime N me" "ne_crates N" p m mb content "good_link N dir me m mb content"
  for N :: "'d net_env" and me p :: peer and m :: manifest and mb :: bytes and content :: "hash \<Rightarrow> bytes" and dir :: path
proof unfold_locales
  fix k and n :: "'w link"
  assume "good_link N dir me m mb content k n"
  then show "\<exists>n'. net_request (link_runtime N me) p (ReqManifest (as_bytes (m_root m))) n = (Inr (RespManifest (Some mb)), n')
      \<and> good_link N dir me m mb content k n'"
    by (simp add: link_request serve_def good_link_def Let_def)
next
  fix k and n :: "'w link" and h
  assume g: "good_link N dir me m mb content k n" and h: "h \<in> set (chunk_hashes m)" and k: "length (content h) \<le> k"
  let ?c = "unat (ct_we_served (ledger_counters (el_ledger (lk_remote n)) me))"
  have c: "?c + k < 2 ^ 63 - 1" using g by (simp add: good_link_def Let_def)
  then have "unat (of_nat (length (content h)) :: u64) = length (content h)"
    using k by (simp add: unat_of_nat take_bit_nat_eq_self)
  then have "unat (sat_add (ct_we_served (ledger_counters (el_ledger (lk_remote n)) me)) (of_nat (length (content h)))) = ?c + length (content h)"
    using c k by (simp add: unat_sat_add_capped capped_def)
  then have ok: "unat (ct_we_served (ledger_counters (el_ledger (charge me (of_nat (length (content h))) (lk_remote n))) me)) + (k - length (content h)) < 2 ^ 63 - 1"
    using c k by (simp add: charge_counters)
  have "hash_of (blake3 (ne_crates N)) (content h) = h" using g h holds_hash by (fastforce simp: good_link_def Let_def)
  moreover have "good_link N dir me m mb content (k - length (content h))
      (n\<lparr>lk_next := Suc (lk_next n), lk_remote := charge me (of_nat (length (content h))) (lk_remote n),
         lk_replies := hm_insert (lk_next n) (ReplyResponse (Inr (RespChunk (Some (content h))))) (lk_replies n)\<rparr>)"
    using g ok by (simp add: good_link_def Let_def) (simp add: charge_def)
  ultimately show "\<exists>n'. net_request (link_runtime N me) p (ReqChunk (as_bytes h)) n = (Inr (RespChunk (Some (content h))), n')
      \<and> good_link N dir me m mb content (k - length (content h)) n' \<and> hash_of (blake3 (ne_crates N)) (content h) = h"
    by (simp add: link_request serve_chunk_good [OF g h k])
qed

section \<open>Sample network\<close>

text \<open>A network that answers each request by a fixed table of responses.\<close>

definition table_runtime :: "(peer \<Rightarrow> request \<Rightarrow> net_error + response) \<Rightarrow> (peer \<times> request) option runtime" where
  "table_runtime answer = \<lparr>rt_channel = (\<lambda>n. (0, n)),
     rt_send = (\<lambda>cmd n. (True, case cmd of CmdRequest p req c \<Rightarrow> Some (p, req) | _ \<Rightarrow> n)),
     rt_await = (\<lambda>c n. (case n of None \<Rightarrow> None | Some (p, req) \<Rightarrow> Some (ReplyResponse (answer p req)), n))\<rparr>"

lemma table_request: "net_request (table_runtime answer) p req n = (answer p req, Some (p, req))"
  by (simp add: net_request_def net_call_def net_send_def table_runtime_def)

definition tiny_manifest :: manifest where
  "tiny_manifest = from_files sample_crates [(''t'', [1, 2])] None"

definition tiny_codec :: "manifest codec" where
  "tiny_codec = \<lparr>serialize = (\<lambda>_. Inr [9]), deserialize = (\<lambda>b. if b = [9] then Inr tiny_manifest else Inl ''eof'')\<rparr>"

definition tiny_bytes :: bytes where "tiny_bytes = NPTP_MAGIC @ [NPTP_VERSION, 9]"

fun tiny_answer :: "peer \<Rightarrow> request \<Rightarrow> net_error + response" where
  "tiny_answer p (ReqManifest _) = Inr (RespManifest (Some tiny_bytes))"
| "tiny_answer p (ReqChunk _) = Inr (RespChunk (Some [1, 2]))"
| "tiny_answer p _ = Inr RespReceiptAck"

definition tiny_run :: "(net_error + manifest) \<times> (store \<times> fs \<times> (nat \<times> nat) list) \<times> (peer \<times> request) option" where
  "tiny_run = download_multi_with_progress (table_runtime tiny_answer) sample_crates tiny_codec (\<lambda>k. [0..<k]) (m_root tiny_manifest) [[1]] sample_store sample_fs None"

lemma tiny_small: "small_answers (table_runtime tiny_answer)"
proof -
  have "length b < 2 ^ 32" if "fetch_chunk (table_runtime tiny_answer) p h n = (Inr (Some b), n')" for p h n b n'
  proof -
    have "b = [1, 2]" using that by (simp add: fetch_chunk_def table_request)
    then show ?thesis by simp
  qed
  then show ?thesis unfolding small_answers_def by blast
qed

lemma tiny_run_result: "fst tiny_run = Inr tiny_manifest"
  by code_simp

lemma tiny_run_fits: "fs_fits (fst (snd (fst (snd tiny_run))))"
  by (rule fs_fits_small, code_simp)

definition tiny_put :: "(store_error + hash \<times> bool) \<times> store \<times> fs" where
  "tiny_put = put sample_crates sample_store sample_fs [1, 2]"

definition tiny_env :: "unit net_env" where
  "tiny_env = sample_env\<lparr>ne_manifest := tiny_codec\<rparr>"

definition tiny_link :: "(nat \<times> nat) link" where
  "tiny_link = \<lparr>lk_remote = (event_loop_new (0, 0) (fst (snd tiny_put)) (snd (snd tiny_put)) ledger_new bag_new sample_identity 0)
       \<lparr>el_provided := [(m_root tiny_manifest, tiny_bytes)]\<rparr>, lk_replies = [], lk_next = 0\<rparr>"

lemma tiny_put_result: "fst tiny_put = Inr (hash_of (blake3 sample_crates) [1, 2], True)"
  by code_simp

lemma tiny_put_fits: "fs_fits (snd (snd tiny_put))"
  by (rule fs_fits_small, code_simp)

lemma tiny_chunks: "chunk_hashes tiny_manifest = [hash_of (blake3 sample_crates) [1, 2]]"
  "(\<Sum>c\<leftarrow>m_chunks tiny_manifest. length ((\<lambda>_. [1, 2 :: u8]) (cref_hash c))) \<le> 2"
  by code_simp+

lemma tiny_link_good: "good_link tiny_env [''s''] [7] tiny_manifest tiny_bytes (\<lambda>_. [1, 2]) 2 tiny_link"
proof -
  obtain st' f' where p: "tiny_put = (Inr (hash_of (blake3 sample_crates) [1, 2], True), st', f')"
    using tiny_put_result by (metis prod.collapse)
  have fits: "fs_fits f'" using tiny_put_fits unfolding p by simp
  note ok = put_ok [OF sample_store_inv(1) hex_ok_sample digest_ok_sample _ sample_put_fits(1) fits p [unfolded tiny_put_def]]
  then have "store_inv sample_crates [''s''] st' f'" "holds sample_crates st' f' (hash_of (blake3 sample_crates) [1, 2]) = Some [1, 2]"
    by simp_all
  then show ?thesis unfolding tiny_link_def p
    by (simp add: good_link_def Let_def tiny_env_def sample_env_def event_loop_new_def tiny_chunks hm_get_def no_counters_def)
qed

section \<open>Properties\<close>

lemma download_multi_law:
  assumes "store_inv X dir st f" and "hex_ok X" "digest_ok X" and "small_answers R" and "complete_schedule sched"
    and "download_multi_with_progress R X Z sched root ps st f n = (r, (st', f', prog), n')" and "fs_fits f'"
  shows "store_inv X dir st' f' \<and> holds X st f \<subseteq>\<^sub>m holds X st' f'
    \<and> (case r of Inl _ \<Rightarrow> True | Inr m \<Rightarrow> m_root m = root \<and> root_is_consistent X m \<and> validate m = Inr ()
         \<and> last prog = (length (m_chunks m), length (m_chunks m))
         \<and> (\<forall>h \<in> set (chunk_hashes m). \<exists>b. holds X st' f' h = Some b \<and> hash_of (blake3 X) b = h))"
proof (cases "\<exists>m n1. ps \<noteq> [] \<and> first_manifest R X Z root ps NoProviders n = (Inr m, n1)")
  case False
  then have "st' = st \<and> f' = f \<and> (\<exists>e. r = Inl e)"
    using assms(6) by (auto simp: download_multi_with_progress_def split: if_splits prod.splits sum.splits)
  then show ?thesis using assms(1) by auto
next
  case True
  then obtain m n1 where ps: "ps \<noteq> []" and fm: "first_manifest R X Z root ps NoProviders n = (Inr m, n1)" by blast
  obtain missing st1 where mi: "missing_chunks X st f 0 (m_chunks m) = (missing, st1)" by force
  let ?tot = "length (m_chunks m)"
  let ?d0 = "\<lparr>dl_store = st1, dl_fs = f, dl_bytes = [], dl_done = ?tot - length missing, dl_failure = None, dl_progress = [(?tot - length missing, ?tot)]\<rparr>"
  obtain r' d' n2 where dr: "drain R X m ps ?tot (map (\<lambda>slot. (slot, missing ! slot)) (sched (length missing))) ?d0 n1 = (r', d', n2)"
    by (rule prod_cases3)
  have res: "st' = dl_store d'" "f' = dl_fs d'" "prog = dl_progress d'"
      "r = (case r' of Inl e \<Rightarrow> Inl (NetStore e) | Inr _ \<Rightarrow> (case dl_failure d' of Some e \<Rightarrow> Inl e | None \<Rightarrow> Inr m))"
    using assms(6) ps fm mi dr by (auto simp: download_multi_with_progress_def Let_def split: sum.splits)
  note held = drain_held [OF assms(1-4) ps assms(5) mi dr _ _ assms(7) [unfolded res]]
  have len: "length missing \<le> ?tot"
    using mi missing_chunks_synced [OF assms(1), of 0 "m_chunks m"] length_filter_le [of _ "[0..<?tot]"] by (auto simp: order.trans)
  have "last (dl_progress d') = (dl_done d', ?tot)" using drain_progress [OF dr] by simp
  then show ?thesis using held len res first_manifest_ok [OF fm] by (auto split: option.splits sum.splits)
qed

text \<open>
  C2. A download is verified end to end. Against any network, any set of providers and any order in which
  chunks arrive, and whether or not it succeeds (the store itself may fail in the middle): the store keeps its
  invariant and everything it held; and if the download reports success, the manifest is the requested content
  id's, structurally valid, every chunk it lists is in the store under its own hash, and the last progress
  report is complete.
\<close>

theorem download_verified:
  assumes "store_inv X dir st f" and "hex_ok X" "digest_ok X" and "small_answers R" and "complete_schedule sched"
    and "download_multi_with_progress R X Z sched root ps st f n = (r, (st', f', prog), n')" and "fs_fits f'"
  shows "store_inv X dir st' f' \<and> holds X st f \<subseteq>\<^sub>m holds X st' f'
    \<and> (case r of Inl _ \<Rightarrow> True | Inr m \<Rightarrow> m_root m = root \<and> root_is_consistent X m \<and> validate m = Inr ()
         \<and> last prog = (length (m_chunks m), length (m_chunks m))
         \<and> (\<forall>h \<in> set (chunk_hashes m). \<exists>b. holds X st' f' h = Some b \<and> hash_of (blake3 X) b = h))"
  using assms by (rule download_multi_law)

theorem download_verified_witness:
  "\<exists>b. holds sample_crates (fst (fst (snd tiny_run))) (fst (snd (fst (snd tiny_run)))) (hash_of (blake3 sample_crates) [1, 2]) = Some b"
proof -
  obtain st' f' prog n' where run: "tiny_run = (Inr tiny_manifest, (st', f', prog), n')"
    using tiny_run_result by (metis prod.collapse)
  have "complete_schedule (\<lambda>k. [0..<k])" by (simp add: complete_schedule_def)
  from download_verified [OF sample_store_inv(1) hex_ok_sample digest_ok_sample tiny_small this run [unfolded tiny_run_def]]
  have "\<forall>h \<in> set (chunk_hashes tiny_manifest). \<exists>b. holds sample_crates st' f' h = Some b \<and> hash_of (blake3 sample_crates) b = h"
    using tiny_run_fits unfolding run by auto
  moreover have "chunk_hashes tiny_manifest = [hash_of (blake3 sample_crates) [1, 2]]" by code_simp
  ultimately show ?thesis unfolding run by auto
qed


lemma sample_store_dirs: "store_dirs [''s''] sample_fs"
proof -
  have "list_all (\<lambda>q. length q < 3 \<and> q \<noteq> [''s'', ''refs.tsv'']) (fs_dirs sample_fs)" by code_simp
  then have "[''s'', ''refs.tsv''] \<notin> set (fs_dirs sample_fs)" "[''s'', ''packs'', n] \<notin> set (fs_dirs sample_fs)" for n
    by (auto simp: list_all_iff)
  moreover have "[''s''] \<in> set (fs_dirs sample_fs)" "[''s'', ''objects''] \<in> set (fs_dirs sample_fs)" "[''s'', ''packs''] \<in> set (fs_dirs sample_fs)"
    by code_simp+
  moreover have "accessible [''s''] sample_fs" using sample_store_inv(1) by (simp add: store_inv_def)
  ultimately show ?thesis by (simp add: store_dirs_def accessible_def)
qed


end
