(* ===== verification/Fec_Download.thy ===== *)
theory Fec_Download
  imports Downloads
begin

text \<open>
  The erasure-coded download: it ends against every provider after a bounded number of rounds, what it
  stores is verified, and it cannot succeed on small contents.
\<close>

section \<open>Rounds\<close>

text \<open>The rounds the loop may still make.\<close>

definition fec_gap :: "nat \<Rightarrow> nat" where "fec_gap need = max (need div 4) 1"

definition fec_potential :: "nat \<Rightarrow> fec_state \<Rightarrow> nat" where
  "fec_potential need d = (MAX_DECODE_ATTEMPTS - fec_attempts d) * (need + fec_gap need) + fec_room need d"

lemma fec_step_progress: "fec_step Q m config root need batch d = (r, d') \<Longrightarrow> length (fec_progress d') = Suc (length (fec_progress d))"
  by (auto simp: fec_step_def fec_take_def Let_def split: if_splits option.splits)

lemma fec_step_potential:
  assumes "fec_step Q m config root need batch d = (Again, d')" and "0 < need"
  shows "fec_potential need d' < fec_potential need d"
proof -
  let ?g = "fec_gap need"
  from assms(1) have "fec_attempts d' = Suc (fec_attempts d) \<and> fec_attempts d' < MAX_DECODE_ATTEMPTS \<and> need \<le> length (fec_symbols d')
        \<and> fec_last d' = length (fec_symbols d')
      \<or> fec_attempts d' = fec_attempts d"
    by (auto simp: fec_step_def fec_take_def Let_def split: if_splits option.splits)
  then show ?thesis
  proof
    assume t: "fec_attempts d' = Suc (fec_attempts d) \<and> fec_attempts d' < MAX_DECODE_ATTEMPTS \<and> need \<le> length (fec_symbols d')
        \<and> fec_last d' = length (fec_symbols d')"
    then have "MAX_DECODE_ATTEMPTS - fec_attempts d = Suc (MAX_DECODE_ATTEMPTS - fec_attempts d')" by linarith
    moreover have "fec_room need d' = ?g" using t by (simp add: fec_room_def fec_gap_def max_def)
    ultimately show ?thesis using assms(2) by (simp add: fec_potential_def)
  next
    assume "fec_attempts d' = fec_attempts d"
    then show ?thesis using fec_step_again [OF assms(1)] by (auto simp: fec_potential_def)
  qed
qed

lemma fec_loop_rounds:
  "fec_loop R Q m config root need p d n = (r, d', n') \<Longrightarrow> 0 < need \<Longrightarrow>
     length (fec_progress d') \<le> length (fec_progress d) + fec_potential need d + 1"
proof (induction R Q m config root need p d n rule: fec_loop.induct)
  case (1 R Q m config root need p d n)
  obtain rb n1 where f: "fetch_symbols R p root (fec_start d) FEC_BATCH n = (rb, n1)" by force
  show ?case
  proof (cases rb)
    case (Inl e)
    then show ?thesis using "1.prems"(1) f by (subst (asm) fec_loop.simps) simp
  next
    case (Inr batch)
    obtain st d1 where s: "fec_step Q m config root need batch d = (st, d1)" by force
    note pr = fec_step_progress [OF s]
    show ?thesis
    proof (cases st)
      case Again
      then have "fec_loop R Q m config root need p d1 n1 = (r, d', n')"
        using "1.prems"(1) f Inr s by (subst (asm) fec_loop.simps) simp
      then have "length (fec_progress d') \<le> length (fec_progress d1) + fec_potential need d1 + 1"
        using "1.IH" [OF f [symmetric] Inr s [symmetric] Again] "1.prems"(2) by simp
      then show ?thesis using fec_step_potential [of Q m config root need batch d d1] s Again pr "1.prems"(2) by simp
    next
      case (Failed e)
      then show ?thesis using "1.prems"(1) f Inr s pr by (subst (asm) fec_loop.simps) simp
    next
      case (Decoded data)
      then show ?thesis using "1.prems"(1) f Inr s pr by (subst (asm) fec_loop.simps) simp
    qed
  qed
qed

section \<open>Small contents\<close>

text \<open>A batch fits in memory: its bytes are counted without wrap-around.\<close>

definition counted_batches :: "'n runtime \<Rightarrow> bool" where
  "counted_batches R \<longleftrightarrow> (\<forall>p root start cnt n batch n'. fetch_symbols R p root start cnt n = (Inr batch, n') \<longrightarrow> (\<Sum>s\<leftarrow>batch. length s) < 2 ^ 64)"

lemma batch_bytes_ge:
  assumes "(\<Sum>s\<leftarrow>batch. length s) < 2 ^ 64" and "s \<in> set batch"
  shows "length s \<le> unat (batch_bytes batch)"
proof -
  have "batch_bytes batch = of_nat (\<Sum>s\<leftarrow>batch. length s)" unfolding batch_bytes_def by (induction batch) simp_all
  then have "unat (batch_bytes batch) = (\<Sum>s\<leftarrow>batch. length s)" using assms(1) by (simp add: unat_of_nat take_bit_nat_eq_self)
  then show ?thesis using member_le_sum_list [of "length s" "map length batch"] assms(2) by simp
qed

lemma no_packet_no_decode:
  assumes "n \<noteq> 0" and "\<forall>s \<in> set symbols. length s < 4 + unat (rq_symbol_size Q config)"
  shows "fec_decode Q config n symbols = None"
proof -
  have "filter (packet_ok Q config n) symbols = []" using assms(2) by (auto simp: filter_empty_conv packet_ok_def)
  then show ?thesis using assms(1) by (simp add: fec_decode_def decode_loop_filter)
qed

lemma fec_step_small:
  assumes m: "0 < m_total_size m" "unat (m_total_size m) < 602" and sz: "rq_symbol_size Q config = 1200"
    and cb: "(\<Sum>s\<leftarrow>batch. length s) < 2 ^ 64" and small: "\<forall>s \<in> set (fec_symbols d). length s < 1204"
    and st: "fec_step Q m config root need batch d = (r, d')"
  shows "(\<nexists>data. r = Decoded data) \<and> (\<exists>e. r = Failed e) \<or> r = Again \<and> (\<forall>s \<in> set (fec_symbols d'). length s < 1204)"
proof (cases "sat_mul (m_total_size m) 2 < fec_bytes (fec_take need batch d)")
  case True
  then show ?thesis using st by (auto simp: fec_step_def Let_def)
next
  case False
  have "unat (sat_mul (m_total_size m) 2) < 1204" using m(2) by (simp add: unat_sat_mul)
  then have "unat (sat_add (fec_bytes d) (batch_bytes batch)) < 1204"
    using False by (simp add: fec_take_def word_less_nat_alt)
  then have "unat (batch_bytes batch) < 1204" by (simp add: unat_sat_add min_def split: if_splits)
  then have all: "\<forall>s \<in> set (fec_symbols d @ batch). length s < 1204"
    using small batch_bytes_ge [OF cb] by fastforce
  have none: "fec_decode Q config (m_total_size m) (fec_symbols d @ batch) = None"
    using m(1) all by (intro no_packet_no_decode) (auto simp: sz)
  show ?thesis using st False none all
    by (auto simp: fec_step_def fec_take_def Let_def split: if_splits)
qed

lemma fec_loop_small:
  assumes m: "0 < m_total_size m" "unat (m_total_size m) < 602" and sz: "rq_symbol_size Q config = 1200" and R: "counted_batches R"
  shows "\<forall>s \<in> set (fec_symbols d). length s < 1204 \<Longrightarrow> \<exists>e. fst (fec_loop R Q m config root need p d n) = Inl e"
  using m sz R
proof (induction R Q m config root need p d n rule: fec_loop.induct)
  case (1 R Q m config root need p d n)
  obtain rb n1 where f: "fetch_symbols R p root (fec_start d) FEC_BATCH n = (rb, n1)" by force
  show ?case
  proof (cases rb)
    case (Inl e)
    then show ?thesis using f by (subst fec_loop.simps) simp
  next
    case (Inr batch)
    obtain st d1 where s: "fec_step Q m config root need batch d = (st, d1)" by force
    have "(\<Sum>s\<leftarrow>batch. length s) < 2 ^ 64" using "1.prems"(5) f Inr unfolding counted_batches_def by blast
    from fec_step_small [OF "1.prems"(2,3,4) this "1.prems"(1) s]
    consider e where "st = Failed e" | "st = Again" "\<forall>s \<in> set (fec_symbols d1). length s < 1204" by blast
    then show ?thesis
    proof cases
      case 1
      then show ?thesis using f Inr s by (subst fec_loop.simps) simp
    next
      case 2
      then have "\<exists>e. fst (fec_loop R Q m config root need p d1 n1) = Inl e"
        using "1.IH" [OF f [symmetric] Inr s [symmetric] 2(1)] "1.prems" by simp
      then show ?thesis using f Inr s 2(1) by (subst fec_loop.simps) simp
    qed
  qed
qed

lemma fec_finish_manifest: "fec_finish R X root p m0 decoded k st f n = (Inr m, s, n') \<Longrightarrow> m0 = m"
  by (auto simp: fec_finish_def split: sum.splits if_splits prod.splits)

section \<open>Properties\<close>

text \<open>
  C32. The erasure-coded download ends. Against every provider, hostile ones that trickle empty symbols
  included, the loop returns, and after at most seventeen times the expected symbol count and a quarter
  of it more rounds, plus one.
\<close>

theorem fec_download_ends:
  "length (fec_progress (fst (snd (fec_loop R Q m config root (fec_need m) p fec_begin n)))) \<le> 17 * (fec_need m + fec_gap (fec_need m)) + 1"
proof -
  obtain r d' n' where l: "fec_loop R Q m config root (fec_need m) p fec_begin n = (r, d', n')" by (rule prod_cases3)
  have need: "0 < fec_need m" by (simp add: fec_need_def)
  have "fec_potential (fec_need m) fec_begin \<le> 17 * (fec_need m + fec_gap (fec_need m))"
    by (simp add: fec_potential_def fec_room_def fec_begin_def fec_gap_def MAX_DECODE_ATTEMPTS_def)
  then show ?thesis using fec_loop_rounds [OF l need] unfolding l by (simp add: fec_begin_def)
qed

text \<open>
  What an erasure-coded download stores is the requested content: on success the manifest is the
  requested root's and valid, and the files put into the store chunk to that very root.
\<close>

theorem fec_download_verified:
  assumes "download_fec_with_progress R X Z Q root p st f n = (Inr m, (st', f', prog), n')"
  shows "m_root m = root \<and> root_is_consistent X m \<and> validate m = Inr ()
    \<and> (\<exists>decoded files m'. split_stream m decoded = Inr files \<and> m_root (from_files X files (m_name m)) = root
         \<and> ingest_tree X st f files (m_name m) = (Inr m', st', f'))"
  using assms
  by (auto simp: download_fec_with_progress_def fec_finish_def split: prod.splits sum.splits if_splits dest: get_manifest_ok)

definition fec_answer :: "peer \<Rightarrow> request \<Rightarrow> net_error + response" where
  "fec_answer p req = (case req of ReqSymbols _ _ _ \<Rightarrow> Inr (RespSymbols []) | _ \<Rightarrow> tiny_answer p req)"

text \<open>A codec that answers without any packet, for a content no larger than nothing.\<close>

definition empty_manifest :: manifest where
  "empty_manifest = from_files sample_crates [] None"

definition empty_codec :: "manifest codec" where
  "empty_codec = \<lparr>serialize = (\<lambda>_. Inr [9]), deserialize = (\<lambda>b. if b = [9] then Inr empty_manifest else Inl ''eof'')\<rparr>"

definition empty_run :: "(net_error + manifest) \<times> (store \<times> fs \<times> (nat \<times> nat) list) \<times> (peer \<times> request) option" where
  "empty_run = download_fec_with_progress (table_runtime fec_answer) sample_crates empty_codec sample_rq (m_root empty_manifest) [1] sample_store sample_fs None"

lemma empty_run_result: "fst empty_run = Inr empty_manifest"
  by code_simp

theorem fec_download_verified_witness: "\<exists>m. fst empty_run = Inr m \<and> m_root m = m_root empty_manifest \<and> validate m = Inr ()"
proof -
  obtain st' f' prog n' where run: "empty_run = (Inr empty_manifest, (st', f', prog), n')"
    using empty_run_result by (metis prod.collapse)
  from fec_download_verified [OF run [unfolded empty_run_def]] show ?thesis unfolding run by auto
qed



end
