(* ===== verification/Bencode.thy ===== *)
theory Bencode
  imports Net_Types
begin

text \<open>
  The bencode decoder and the \<open>.torrent\<close> parser of the BitTorrent bridge
  (\<open>crates/np2ptp-bridge/src/bencode.rs\<close>), with the bridge's error and metadata types. The decoder is
  recursive on the unread input; its termination rests on every value consuming at least a byte. SHA-1 is
  a parameter. Path components are those of \<open>Paths\<close>.
\<close>

section \<open>Types\<close>

datatype bridge_error =
    BridgeNet net_error
  | BridgeStore store_error
  | PieceVerificationFailed
  | Source string

record torrent_file =
  tf_path :: string
  tf_length :: u64

record torrent_meta =
  tm_infohash :: bytes
  tm_name :: string
  tm_files :: "torrent_file list"
  tm_piece_length :: u32
  tm_piece_hashes :: "bytes list"

datatype bvalue = BInt int | BBytes bytes | BList "bvalue list" | BDict "(bytes \<times> bvalue) list"

fun as_dict :: "bvalue \<Rightarrow> (bytes \<times> bvalue) list option" where
  "as_dict (BDict d) = Some d"
| "as_dict _ = None"

fun as_byte_string :: "bvalue \<Rightarrow> bytes option" where
  "as_byte_string (BBytes b) = Some b"
| "as_byte_string _ = None"

fun as_int :: "bvalue \<Rightarrow> int option" where
  "as_int (BInt n) = Some n"
| "as_int _ = None"

fun as_list :: "bvalue \<Rightarrow> bvalue list option" where
  "as_list (BList l) = Some l"
| "as_list _ = None"

definition dict_get :: "bytes \<Rightarrow> bvalue \<Rightarrow> bvalue option" where
  "dict_get key v = (case as_dict v of None \<Rightarrow> None | Some d \<Rightarrow> map_option snd (find (\<lambda>(k, _). k = key) d))"

definition bencode_err :: "string \<Rightarrow> bridge_error" where
  "bencode_err msg = Source (''bencode: '' @ msg)"

definition quoted :: "string \<Rightarrow> string" where
  "quoted s = [CHR 0x27] @ s @ [CHR 0x27]"

definition MAX_DEPTH :: nat where "MAX_DEPTH = 32"

section \<open>Decoding\<close>

text \<open>\<open>iter().position(|&b| b == c)\<close>.\<close>

definition byte_position :: "u8 \<Rightarrow> bytes \<Rightarrow> nat option" where
  "byte_position c bs = (let i = length (takeWhile (\<lambda>b. b \<noteq> c) bs) in if i < length bs then Some i else None)"

text \<open>\<open>checked_add\<close> on slice indices, which are far below the end of \<open>usize\<close>.\<close>

definition index_checked_add :: "nat \<Rightarrow> nat \<Rightarrow> nat option" where
  "index_checked_add a b = (if a + b < 2 ^ 64 then Some (a + b) else None)"

lemma index_checked_add_code [code]:
  "index_checked_add a b = (if int a + int b < 18446744073709551616 then Some (a + b) else None)"
proof -
  have "int (a + b) < int (2 ^ 64) \<longleftrightarrow> int a + int b < 18446744073709551616" by simp
  then have "a + b < 2 ^ 64 \<longleftrightarrow> int a + int b < 18446744073709551616" by (simp only: of_nat_less_iff)
  then show ?thesis by (simp add: index_checked_add_def)
qed

definition decode_int :: "bytes \<Rightarrow> bridge_error + bvalue \<times> bytes" where
  "decode_int input =
     (case strip_prefix [105] input of
        None \<Rightarrow> Inl (bencode_err (''expected '' @ quoted ''i''))
      | Some rest \<Rightarrow> (case byte_position 101 rest of
          None \<Rightarrow> Inl (bencode_err ''unterminated integer'')
        | Some end_pos \<Rightarrow> (case from_utf8 (take end_pos rest) of
            None \<Rightarrow> Inl (bencode_err ''integer is not utf-8'')
          | Some s \<Rightarrow> (case parse_i64 s of
              None \<Rightarrow> Inl (bencode_err ''invalid integer'')
            | Some n \<Rightarrow> Inr (BInt n, drop (end_pos + 1) rest)))))"

definition decode_byte_string :: "bytes \<Rightarrow> bridge_error + bytes \<times> bytes" where
  "decode_byte_string input =
     (case byte_position 58 input of
        None \<Rightarrow> Inl (bencode_err (''missing '' @ quoted '':'' @ '' in byte string''))
      | Some colon \<Rightarrow> (case from_utf8 (take colon input) of
          None \<Rightarrow> Inl (bencode_err ''byte string length is not utf-8'')
        | Some len_s \<Rightarrow> (case parse_u64 len_s of
            None \<Rightarrow> Inl (bencode_err ''invalid byte string length'')
          | Some len \<Rightarrow> (case index_checked_add (colon + 1) (unat len) of
              None \<Rightarrow> Inl (bencode_err ''byte string length overflow'')
            | Some end_pos \<Rightarrow>
                if length input < end_pos then Inl (bencode_err ''byte string runs past end of input'')
                else Inr (slice input (colon + 1) end_pos, drop end_pos input)))))"

definition is_digit_byte :: "u8 \<Rightarrow> bool" where
  "is_digit_byte b = (48 \<le> b \<and> b \<le> 57)"

function decode :: "bytes \<Rightarrow> nat \<Rightarrow> bridge_error + bvalue \<times> bytes"
  and decode_list :: "bytes \<Rightarrow> nat \<Rightarrow> bridge_error + bvalue \<times> bytes"
  and list_loop :: "bytes \<Rightarrow> nat \<Rightarrow> bvalue list \<Rightarrow> bridge_error + bvalue \<times> bytes"
  and decode_dict :: "bytes \<Rightarrow> nat \<Rightarrow> bridge_error + bvalue \<times> bytes"
  and dict_loop :: "bytes \<Rightarrow> nat \<Rightarrow> (bytes \<times> bvalue) list \<Rightarrow> bridge_error + bvalue \<times> bytes" where
  "decode input depth =
     (if MAX_DEPTH < depth then Inl (bencode_err ''bencode nesting too deep'')
      else if input \<noteq> [] \<and> hd input = 105 then decode_int input
      else if input \<noteq> [] \<and> hd input = 108 then decode_list input depth
      else if input \<noteq> [] \<and> hd input = 100 then decode_dict input depth
      else if input \<noteq> [] \<and> is_digit_byte (hd input) then
        (case decode_byte_string input of Inl e \<Rightarrow> Inl e | Inr (b, rest) \<Rightarrow> Inr (BBytes b, rest))
      else Inl (bencode_err ''unexpected byte at start of value''))"
| "decode_list input depth =
     (case strip_prefix [108] input of None \<Rightarrow> Inl (bencode_err (''expected '' @ quoted ''l'')) | Some rest \<Rightarrow> list_loop rest depth [])"
| "list_loop rest depth items =
     (if rest = [] then Inl (bencode_err ''unterminated list'')
      else if hd rest = 101 then Inr (BList items, tl rest)
      else case decode rest (depth + 1) of
        Inl e \<Rightarrow> Inl e
      | Inr (v, r) \<Rightarrow> list_loop r depth (items @ [v]))"
| "decode_dict input depth =
     (case strip_prefix [100] input of None \<Rightarrow> Inl (bencode_err (''expected '' @ quoted ''d'')) | Some rest \<Rightarrow> dict_loop rest depth [])"
| "dict_loop rest depth entries =
     (if rest = [] then Inl (bencode_err ''unterminated dict'')
      else if hd rest = 101 then Inr (BDict entries, tl rest)
      else case decode_byte_string rest of
        Inl e \<Rightarrow> Inl e
      | Inr (key, r) \<Rightarrow> (case decode r (depth + 1) of
          Inl e \<Rightarrow> Inl e
        | Inr (v, r2) \<Rightarrow> dict_loop r2 depth (entries @ [(key, v)])))"
  by pat_completeness auto

lemma strip_prefix_shorter: "strip_prefix [c] bs = Some rest \<Longrightarrow> length rest < length bs"
  by (auto simp: strip_prefix_Some)

lemma byte_position_lt: "byte_position c bs = Some i \<Longrightarrow> i < length bs"
  by (auto simp: byte_position_def Let_def split: if_splits)

lemma decode_int_shorter: "decode_int input = Inr (v, rest) \<Longrightarrow> length rest < length input"
  by (auto simp: decode_int_def split: option.splits dest!: strip_prefix_shorter)

lemma decode_byte_string_shorter: "decode_byte_string input = Inr (b, rest) \<Longrightarrow> length rest < length input"
  by (auto simp: decode_byte_string_def index_checked_add_def split: option.splits if_splits dest!: byte_position_lt)

text \<open>What the decoders leave is shorter than what they got, wherever they are defined.\<close>

abbreviation decode_dom :: "(bytes \<times> nat + bytes \<times> nat) + (bytes \<times> nat \<times> bvalue list) + bytes \<times> nat + bytes \<times> nat \<times> (bytes \<times> bvalue) list \<Rightarrow> bool" where
  "decode_dom \<equiv> decode_decode_list_list_loop_decode_dict_dict_loop_dom"

definition leaves_less :: "bytes \<Rightarrow> bridge_error + bvalue \<times> bytes \<Rightarrow> bool" where
  "leaves_less input r \<longleftrightarrow> (\<forall>v rest. r = Inr (v, rest) \<longrightarrow> length rest < length input)"

lemma leaves_less_mono: "leaves_less bs r \<Longrightarrow> length bs \<le> length cs \<Longrightarrow> leaves_less cs r"
  unfolding leaves_less_def by fastforce

lemma leaves_lessD: "leaves_less bs (Inr (v, rest)) \<Longrightarrow> length rest < length bs"
  by (simp add: leaves_less_def)

lemma leaves_less_Inl [simp]: "leaves_less bs (Inl e)"
  by (simp add: leaves_less_def)

lemma decode_shorter_dom:
  "decode_dom (Inl (Inl (input, depth))) \<Longrightarrow> leaves_less input (decode input depth)"
  "decode_dom (Inl (Inr (input, depth))) \<Longrightarrow> leaves_less input (decode_list input depth)"
  "decode_dom (Inr (Inl (rest, depth, items))) \<Longrightarrow> leaves_less rest (list_loop rest depth items)"
  "decode_dom (Inr (Inr (Inl (input, depth)))) \<Longrightarrow> leaves_less input (decode_dict input depth)"
  "decode_dom (Inr (Inr (Inr (rest, depth, entries)))) \<Longrightarrow> leaves_less rest (dict_loop rest depth entries)"
proof (induction input depth and input depth and rest depth items and input depth and rest depth entries
    rule: decode_decode_list_list_loop_decode_dict_dict_loop.pinduct)
  case (1 input depth)
  have "leaves_less input (decode_int input)" using decode_int_shorter by (simp add: leaves_less_def)
  moreover have "leaves_less input (case decode_byte_string input of Inl e \<Rightarrow> Inl e | Inr (b, rest) \<Rightarrow> Inr (BBytes b, rest))"
    using decode_byte_string_shorter [of input] by (auto simp: leaves_less_def split: sum.splits)
  ultimately show ?case using 1 by (simp add: decode.psimps)
next
  case (2 input depth)
  show ?case
  proof (cases "strip_prefix [108] input")
    case (Some rest)
    then have "length rest \<le> length input" using strip_prefix_shorter [OF Some] by simp
    then show ?thesis using 2 Some leaves_less_mono by (simp add: decode_list.psimps)
  qed (use 2 in \<open>simp add: decode_list.psimps\<close>)
next
  case (3 rest depth items)
  show ?case
  proof (cases "rest \<noteq> [] \<and> hd rest \<noteq> 101")
    case True
    show ?thesis
    proof (cases "decode rest (depth + 1)")
      case (Inr vr)
      obtain v r where vr: "vr = (v, r)" by force
      have "length r < length rest" using 3(2) True leaves_lessD Inr vr by metis
      moreover have "leaves_less r (list_loop r depth (items @ [v]))" using 3(3) True Inr vr by simp
      ultimately show ?thesis using True Inr vr leaves_less_mono by (simp add: list_loop.psimps [OF 3(1)])
    qed (use True in \<open>simp add: list_loop.psimps [OF 3(1)]\<close>)
  qed (auto simp: list_loop.psimps [OF 3(1)] leaves_less_def)
next
  case (4 input depth)
  show ?case
  proof (cases "strip_prefix [100] input")
    case (Some rest)
    then have "length rest \<le> length input" using strip_prefix_shorter [OF Some] by simp
    then show ?thesis using 4 Some leaves_less_mono by (simp add: decode_dict.psimps)
  qed (use 4 in \<open>simp add: decode_dict.psimps\<close>)
next
  case (5 rest depth entries)
  show ?case
  proof (cases "rest \<noteq> [] \<and> hd rest \<noteq> 101")
    case True
    show ?thesis
    proof (cases "decode_byte_string rest")
      case (Inl e)
      then show ?thesis using True by (simp add: dict_loop.psimps [OF 5(1)])
    next
      case (Inr kr)
      obtain key r where kr: "kr = (key, r)" by force
      have r: "length r < length rest" using decode_byte_string_shorter Inr kr by blast
      show ?thesis
      proof (cases "decode r (depth + 1)")
        case (Inl e)
        then show ?thesis using True Inr kr by (simp add: dict_loop.psimps [OF 5(1)])
      next
        case (Inr vr)
        obtain v r2 where vr: "vr = (v, r2)" by force
        have "length r2 < length r" using 5(2) True \<open>decode_byte_string rest = Inr kr\<close> kr leaves_lessD Inr vr by metis
        moreover have "leaves_less r2 (dict_loop r2 depth (entries @ [(key, v)]))"
          using 5(3) True \<open>decode_byte_string rest = Inr kr\<close> kr Inr vr by simp
        ultimately show ?thesis
          using True \<open>decode_byte_string rest = Inr kr\<close> kr Inr vr r leaves_less_mono by (simp add: dict_loop.psimps [OF 5(1)])
      qed
    qed
  qed (auto simp: dict_loop.psimps [OF 5(1)] leaves_less_def)
qed

lemma dict_value_shorter:
  "decode_byte_string rest = Inr (key, r) \<Longrightarrow> decode r depth = Inr (v, r2) \<Longrightarrow> decode_dom (Inl (Inl (r, depth))) \<Longrightarrow> length r2 < length rest"
  using decode_byte_string_shorter [of rest key r] leaves_lessD [of r v r2] decode_shorter_dom(1) [of r depth] by simp

lemma decode_dom_all: "All decode_dom"
proof (rule "decode_decode_list_list_loop_decode_dict_dict_loop.termination" [of "measure (\<lambda>x. case x of
      Inl (Inl (input, _)) \<Rightarrow> 3 * length input + 1 | Inl (Inr (input, _)) \<Rightarrow> 3 * length input
    | Inr (Inl (rest, _)) \<Rightarrow> 3 * length rest + 2 | Inr (Inr (Inl (input, _))) \<Rightarrow> 3 * length input
    | Inr (Inr (Inr (rest, _))) \<Rightarrow> 3 * length rest + 2)"])
qed (auto dest: strip_prefix_shorter decode_byte_string_shorter decode_shorter_dom(1) dict_value_shorter simp: leaves_less_def)

termination decode
  by (rule decode_dom_all)

declare decode.simps [simp del] decode_list.simps [simp del] list_loop.simps [simp del] decode_dict.simps [simp del] dict_loop.simps [simp del]

lemma decode_shorter: "decode input depth = Inr (v, rest) \<Longrightarrow> length rest < length input"
  using leaves_lessD [of input v rest] decode_shorter_dom(1) [of input depth] decode_dom_all by simp

section \<open>Torrent files\<close>

text \<open>\<open>total\<close> is the length of the whole file, from which offsets are counted.\<close>

function info_loop :: "nat \<Rightarrow> bytes \<Rightarrow> bridge_error + nat" where
  "info_loop tot rest =
     (if rest = [] then Inl (bencode_err ''unterminated dict'')
      else if hd rest = 101 then Inl (bencode_err (''top-level dict has no '' @ quoted ''info'' @ '' key''))
      else case decode_byte_string rest of
        Inl e \<Rightarrow> Inl e
      | Inr (key, r) \<Rightarrow>
          if key = str_bytes ''info'' then Inr (tot - length r)
          else (case decode r 0 of Inl e \<Rightarrow> Inl e | Inr (_, r2) \<Rightarrow> info_loop tot r2))"
  by pat_completeness auto
termination
proof (relation "measure (\<lambda>(tot, rest). length rest)", goal_cases)
  case (2 tot rest b x y ba xa ya)
  then have "length y < length rest" "length ya < length y"
    using decode_byte_string_shorter [of rest x y] decode_shorter [of y 0 xa ya] by auto
  then show ?case by simp
qed simp

declare info_loop.simps [simp del]

definition find_info_offset :: "bytes \<Rightarrow> bridge_error + nat" where
  "find_info_offset bs =
     (case strip_prefix [100] bs of
        None \<Rightarrow> Inl (bencode_err ''expected top-level dict'')
      | Some rest \<Rightarrow> info_loop (length bs) rest)"

fun is_normal :: "path_component \<Rightarrow> bool" where
  "is_normal (Normal name) = True"
| "is_normal _ = False"

definition torrent_path_ok :: "string \<Rightarrow> bridge_error + unit" where
  "torrent_path_ok path =
     (if path = [] then Inl (bencode_err ''file path must not be empty'')
      else if list_all is_normal (path_components path) then Inr ()
      else Inl (bencode_err (''file path must not be absolute or contain '' @ quoted ''..'')))"

definition dict_bytes :: "bytes \<Rightarrow> string \<Rightarrow> bvalue \<Rightarrow> bridge_error + bytes" where
  "dict_bytes key msg v = (case Option.bind (dict_get key v) as_byte_string of None \<Rightarrow> Inl (bencode_err msg) | Some b \<Rightarrow> Inr b)"

definition dict_int :: "bytes \<Rightarrow> string \<Rightarrow> bvalue \<Rightarrow> bridge_error + int" where
  "dict_int key msg v = (case Option.bind (dict_get key v) as_int of None \<Rightarrow> Inl (bencode_err msg) | Some n \<Rightarrow> Inr n)"

definition u64_try_from :: "string \<Rightarrow> int \<Rightarrow> bridge_error + u64" where
  "u64_try_from msg n = (if 0 \<le> n then Inr (of_int n) else Inl (bencode_err msg))"

definition MAX_PIECE_LENGTH :: u32 where "MAX_PIECE_LENGTH = 64 * 1024 * 1024"

fun path_segments :: "bvalue list \<Rightarrow> bridge_error + string list" where
  "path_segments [] = Inr []"
| "path_segments (seg # segs) =
     (case as_byte_string seg of
        None \<Rightarrow> Inl (bencode_err ''files[].path segment is not a byte string'')
      | Some b \<Rightarrow> (case path_segments segs of Inl e \<Rightarrow> Inl e | Inr ss \<Rightarrow> Inr (from_utf8_lossy b # ss)))"

text \<open>\<open>segments.join("/")\<close>.\<close>

fun join_slash :: "string list \<Rightarrow> string" where
  "join_slash [] = []"
| "join_slash [s] = s"
| "join_slash (s # t # ss) = s @ ''/'' @ join_slash (t # ss)"

definition torrent_entry :: "bvalue \<Rightarrow> bridge_error + torrent_file" where
  "torrent_entry entry =
     (case dict_int (str_bytes ''length'') ''files[].length missing'' entry of
        Inl e \<Rightarrow> Inl e
      | Inr n \<Rightarrow> (case u64_try_from ''files[].length out of range'' n of
          Inl e \<Rightarrow> Inl e
        | Inr len \<Rightarrow> (case Option.bind (dict_get (str_bytes ''path'') entry) as_list of
            None \<Rightarrow> Inl (bencode_err ''files[].path missing'')
          | Some segs \<Rightarrow> (case path_segments segs of
              Inl e \<Rightarrow> Inl e
            | Inr ss \<Rightarrow> (case torrent_path_ok (join_slash ss) of
                Inl e \<Rightarrow> Inl e
              | Inr _ \<Rightarrow> Inr \<lparr>tf_path = join_slash ss, tf_length = len\<rparr>)))))"

fun torrent_entries :: "bvalue list \<Rightarrow> bridge_error + torrent_file list" where
  "torrent_entries [] = Inr []"
| "torrent_entries (entry # rest) =
     (case torrent_entry entry of Inl e \<Rightarrow> Inl e
      | Inr tf \<Rightarrow> (case torrent_entries rest of Inl e \<Rightarrow> Inl e | Inr tfs \<Rightarrow> Inr (tf # tfs)))"

definition torrent_files :: "string \<Rightarrow> bvalue \<Rightarrow> bridge_error + torrent_file list" where
  "torrent_files name info =
     (case dict_get (str_bytes ''files'') info of
        Some list_value \<Rightarrow> (case as_list list_value of
            None \<Rightarrow> Inl (bencode_err ''info.files is not a list'')
          | Some l \<Rightarrow> torrent_entries l)
      | None \<Rightarrow> (case dict_int (str_bytes ''length'') ''single-file torrent missing info.length'' info of
            Inl e \<Rightarrow> Inl e
          | Inr n \<Rightarrow> (case u64_try_from ''info.length out of range'' n of
              Inl e \<Rightarrow> Inl e
            | Inr len \<Rightarrow> (case torrent_path_ok name of
                Inl e \<Rightarrow> Inl e
              | Inr _ \<Rightarrow> Inr [\<lparr>tf_path = name, tf_length = len\<rparr>]))))"

definition torrent_piece_length :: "bvalue \<Rightarrow> bridge_error + u32" where
  "torrent_piece_length info =
     (case dict_int (str_bytes ''piece length'') ''info.piece length missing'' info of
        Inl e \<Rightarrow> Inl e
      | Inr n \<Rightarrow> if n < 0 \<or> 4294967295 < n then Inl (bencode_err ''info.piece length out of range'')
               else if of_int n = (0 :: u32) \<or> MAX_PIECE_LENGTH < of_int n
                 then Inl (bencode_err ''info.piece length is zero or unreasonably large'')
               else Inr (of_int n))"

definition torrent_piece_hashes :: "bvalue \<Rightarrow> bridge_error + bytes list" where
  "torrent_piece_hashes info =
     (case dict_bytes (str_bytes ''pieces'') ''info.pieces missing'' info of
        Inl e \<Rightarrow> Inl e
      | Inr ps \<Rightarrow> if length ps mod 20 \<noteq> 0 then Inl (bencode_err ''info.pieces length is not a multiple of 20'')
                     else Inr (chunks_of 20 ps))"

definition torrent_meta_of :: "bytes \<Rightarrow> bvalue \<Rightarrow> bridge_error + torrent_meta" where
  "torrent_meta_of infohash info =
     (case dict_bytes (str_bytes ''name'') ''info.name missing'' info of
        Inl e \<Rightarrow> Inl e
      | Inr nb \<Rightarrow> (let name = from_utf8_lossy nb in
          case torrent_piece_length info of
            Inl e \<Rightarrow> Inl e
          | Inr piece_length \<Rightarrow> (case torrent_piece_hashes info of
              Inl e \<Rightarrow> Inl e
            | Inr piece_hashes \<Rightarrow> (case torrent_files name info of
                Inl e \<Rightarrow> Inl e
              | Inr files \<Rightarrow> Inr \<lparr>tm_infohash = infohash, tm_name = name, tm_files = files,
                               tm_piece_length = piece_length, tm_piece_hashes = piece_hashes\<rparr>))))"

definition parse_torrent_file :: "(bytes \<Rightarrow> bytes) \<Rightarrow> bytes \<Rightarrow> bridge_error + torrent_meta" where
  "parse_torrent_file sha1 bs =
     (case find_info_offset bs of
        Inl e \<Rightarrow> Inl e
      | Inr info_offset \<Rightarrow> (let info_slice = drop info_offset bs in
          case decode info_slice 0 of
            Inl e \<Rightarrow> Inl e
          | Inr (info, info_rest) \<Rightarrow>
              let consumed = length info_slice - length info_rest in
              torrent_meta_of (sha1 (take consumed info_slice)) info))"

section \<open>What a decoded value looks like\<close>

text \<open>How deep the levels of a value go below it, and the range of its integers.\<close>

fun nest :: "bvalue \<Rightarrow> nat" where
  "nest (BInt n) = 0"
| "nest (BBytes b) = 0"
| "nest (BList l) = foldr max (map (\<lambda>v. Suc (nest v)) l) 0"
| "nest (BDict d) = foldr max (map (\<lambda>kv. Suc (nest (snd kv))) d) 0"

fun ints_ok :: "bvalue \<Rightarrow> bool" where
  "ints_ok (BInt n) = (- (2 ^ 63) \<le> n \<and> n < 2 ^ 63)"
| "ints_ok (BBytes b) = True"
| "ints_ok (BList l) = list_all ints_ok l"
| "ints_ok (BDict d) = list_all (\<lambda>kv. ints_ok (snd kv)) d"

lemma foldr_max_le: "foldr max xs (0 :: nat) \<le> b \<longleftrightarrow> (\<forall>x \<in> set xs. x \<le> b)"
  by (induction xs) auto

definition within :: "nat \<Rightarrow> bvalue \<Rightarrow> bool" where
  "within depth v \<longleftrightarrow> depth + nest v \<le> MAX_DEPTH \<and> ints_ok v"

lemma within_list: "depth \<le> MAX_DEPTH \<Longrightarrow> within depth (BList l) \<longleftrightarrow> (\<forall>v \<in> set l. within (depth + 1) v)"
proof -
  assume d: "depth \<le> MAX_DEPTH"
  have n: "nest (BList l) \<le> MAX_DEPTH - depth \<longleftrightarrow> (\<forall>v \<in> set l. Suc (nest v) \<le> MAX_DEPTH - depth)"
    by (simp add: foldr_max_le del: foldr_conv_fold)
  have a: "depth + nest (BList l) \<le> MAX_DEPTH \<longleftrightarrow> nest (BList l) \<le> MAX_DEPTH - depth" using d by linarith
  have b: "depth + 1 + nest v \<le> MAX_DEPTH \<longleftrightarrow> Suc (nest v) \<le> MAX_DEPTH - depth" for v using d by linarith
  show ?thesis unfolding within_def ints_ok.simps list_all_iff a b n by blast
qed

lemma within_dict: "depth \<le> MAX_DEPTH \<Longrightarrow> within depth (BDict l) \<longleftrightarrow> (\<forall>kv \<in> set l. within (depth + 1) (snd kv))"
proof -
  assume d: "depth \<le> MAX_DEPTH"
  have n: "nest (BDict l) \<le> MAX_DEPTH - depth \<longleftrightarrow> (\<forall>kv \<in> set l. Suc (nest (snd kv)) \<le> MAX_DEPTH - depth)"
    by (simp add: foldr_max_le del: foldr_conv_fold)
  have a: "depth + nest (BDict l) \<le> MAX_DEPTH \<longleftrightarrow> nest (BDict l) \<le> MAX_DEPTH - depth" using d by linarith
  have b: "depth + 1 + nest v \<le> MAX_DEPTH \<longleftrightarrow> Suc (nest v) \<le> MAX_DEPTH - depth" for v using d by linarith
  show ?thesis unfolding within_def ints_ok.simps list_all_iff a b n by blast
qed

text \<open>A successful decode consumes a prefix and yields a value within the depth limit.\<close>

definition decodes_well :: "nat \<Rightarrow> bytes \<Rightarrow> bridge_error + bvalue \<times> bytes \<Rightarrow> bool" where
  "decodes_well depth input r \<longleftrightarrow> (\<forall>v rest. r = Inr (v, rest) \<longrightarrow> (\<exists>pre. input = pre @ rest) \<and> within depth v)"

lemma decodes_wellD:
  "decodes_well depth input r \<Longrightarrow> r = Inr (v, rest) \<Longrightarrow> \<exists>pre. input = pre @ rest"
  "decodes_well depth input r \<Longrightarrow> r = Inr (v, rest) \<Longrightarrow> within depth v"
  by (simp_all add: decodes_well_def)

lemma decodes_well_Inl [simp]: "decodes_well depth input (Inl e)"
  by (simp add: decodes_well_def)

lemma decodes_well_suffix: "decodes_well depth rest r \<Longrightarrow> decodes_well depth (pre @ rest) r"
  unfolding decodes_well_def by (metis append.assoc)

lemma decode_int_well: "depth \<le> MAX_DEPTH \<Longrightarrow> decodes_well depth input (decode_int input)"
  by (auto simp: decodes_well_def decode_int_def within_def strip_prefix_Some split: option.splits dest: parse_i64_bound)
     (metis append_Cons append_take_drop_id)+

lemma decode_byte_string_split: "decode_byte_string input = Inr (b, rest) \<Longrightarrow> \<exists>pre. input = pre @ rest"
  by (auto simp: decode_byte_string_def split: option.splits if_splits) (metis append_take_drop_id)+

lemma tl_suffix: "\<exists>pre. bs = pre @ tl bs"
  by (cases bs) auto

lemma decode_well_all:
  "decodes_well depth input (decode input depth)"
  "depth \<le> MAX_DEPTH \<Longrightarrow> decodes_well depth input (decode_list input depth)"
  "depth \<le> MAX_DEPTH \<Longrightarrow> \<forall>v \<in> set items. within (depth + 1) v \<Longrightarrow> decodes_well depth rest (list_loop rest depth items)"
  "depth \<le> MAX_DEPTH \<Longrightarrow> decodes_well depth input (decode_dict input depth)"
  "depth \<le> MAX_DEPTH \<Longrightarrow> \<forall>kv \<in> set entries. within (depth + 1) (snd kv) \<Longrightarrow> decodes_well depth rest (dict_loop rest depth entries)"
proof (induction input depth and input depth and rest depth items and input depth and rest depth entries
    rule: decode_decode_list_list_loop_decode_dict_dict_loop.induct)
  case (1 input depth)
  have "decodes_well depth input (case decode_byte_string input of Inl e \<Rightarrow> Inl e | Inr (b, rest) \<Rightarrow> Inr (BBytes b, rest))"
    if "depth \<le> MAX_DEPTH" using that decode_byte_string_split [of input] by (auto simp: decodes_well_def within_def split: sum.splits)
  then show ?case using 1 decode_int_well by (subst decode.simps) (simp add: not_less)
next
  case (2 input depth)
  then show ?case using decodes_well_suffix [of depth _ _ "[108]"]
    by (subst decode_list.simps) (auto split: option.splits simp: strip_prefix_Some)
next
  case (3 rest depth items)
  show ?case
  proof (cases "rest \<noteq> [] \<and> hd rest \<noteq> 101")
    case True
    show ?thesis
    proof (cases "decode rest (depth + 1)")
      case (Inr vr)
      obtain v r where vr: "vr = (v, r)" by force
      have "decodes_well (depth + 1) rest (decode rest (depth + 1))" using 3(1) True by simp
      note w = decodes_wellD [OF this Inr [unfolded vr]]
      obtain pre where pre: "rest = pre @ r" using w(1) by blast
      have "\<forall>x \<in> set (items @ [v]). within (depth + 1) x" using w(2) 3(4) by simp
      then have "decodes_well depth r (list_loop r depth (items @ [v]))" using 3(2) [OF _ _ Inr vr [symmetric] 3(3)] True by blast
      then show ?thesis using True Inr vr pre decodes_well_suffix by (subst list_loop.simps) simp
    qed (use True in \<open>subst list_loop.simps, simp\<close>)
  next
    case False
    then show ?thesis using within_list [OF 3(3), of items] 3(4)
      by (subst list_loop.simps) (auto simp: decodes_well_def intro: tl_suffix)
  qed
next
  case (4 input depth)
  then show ?case using decodes_well_suffix [of depth _ _ "[100]"]
    by (subst decode_dict.simps) (auto split: option.splits simp: strip_prefix_Some)
next
  case (5 rest depth entries)
  show ?case
  proof (cases "rest \<noteq> [] \<and> hd rest \<noteq> 101")
    case True
    show ?thesis
    proof (cases "decode_byte_string rest")
      case (Inl e)
      then show ?thesis using True by (subst dict_loop.simps) simp
    next
      case k: (Inr kr)
      obtain key r where kr: "kr = (key, r)" by force
      obtain pre where pre: "rest = pre @ r" using decode_byte_string_split k kr by blast
      show ?thesis
      proof (cases "decode r (depth + 1)")
        case (Inl e)
        then show ?thesis using True k kr by (subst dict_loop.simps) simp
      next
        case (Inr vr)
        obtain v r2 where vr: "vr = (v, r2)" by force
        have "decodes_well (depth + 1) r (decode r (depth + 1))" using 5(1) True k kr by simp
        note w = decodes_wellD [OF this Inr [unfolded vr]]
        obtain pre2 where pre2: "r = pre2 @ r2" using w(1) by blast
        have "\<forall>x \<in> set (entries @ [(key, v)]). within (depth + 1) (snd x)" using w(2) 5(4) by simp
        then have "decodes_well depth r2 (dict_loop r2 depth (entries @ [(key, v)]))"
          using 5(2) [OF _ _ k kr [symmetric] Inr vr [symmetric] 5(3)] True by blast
        then show ?thesis using True k kr Inr vr pre pre2 decodes_well_suffix [of depth r2 _ "pre @ pre2"] by (subst dict_loop.simps) simp
      qed
    qed
  next
    case False
    then show ?thesis using within_dict [OF 5(3), of entries] 5(4)
      by (subst dict_loop.simps) (auto simp: decodes_well_def intro: tl_suffix)
  qed
qed


section \<open>Decoding what an encoder prints\<close>

text \<open>The canonical encoding of a value, as BitTorrent clients write it.\<close>

definition show_int :: "int \<Rightarrow> string" where
  "show_int n = (if n < 0 then CHR ''-'' # show_nat (nat (- n)) else show_nat (nat n))"

definition bencode_bytes :: "bytes \<Rightarrow> bytes" where
  "bencode_bytes b = str_bytes (show_nat (length b)) @ 58 # b"

fun bencode :: "bvalue \<Rightarrow> bytes" where
  "bencode (BInt n) = 105 # str_bytes (show_int n) @ [101]"
| "bencode (BBytes b) = bencode_bytes b"
| "bencode (BList l) = 108 # concat (map bencode l) @ [101]"
| "bencode (BDict d) = 100 # concat (map (\<lambda>kv. bencode_bytes (fst kv) @ bencode (snd kv)) d) @ [101]"

text \<open>Byte strings that fit into memory.\<close>

fun strings_ok :: "bvalue \<Rightarrow> bool" where
  "strings_ok (BInt n) = True"
| "strings_ok (BBytes b) = (length (bencode_bytes b) < 2 ^ 64)"
| "strings_ok (BList l) = list_all strings_ok l"
| "strings_ok (BDict d) = list_all (\<lambda>kv. length (bencode_bytes (fst kv)) < 2 ^ 64 \<and> strings_ok (snd kv)) d"

lemma byte_position_append: "c \<notin> set p \<Longrightarrow> byte_position c (p @ c # r) = Some (length p)"
proof -
  assume "c \<notin> set p"
  then have "takeWhile (\<lambda>b. b \<noteq> c) (p @ c # r) = p" by (subst takeWhile_append2) auto
  then show ?thesis by (simp add: byte_position_def)
qed

lemma digit_bytes: "is_digit c \<Longrightarrow> is_digit_byte (of_char c)" 
  by (simp add: is_digit_def is_digit_byte_def word_le_nat_alt)

lemma show_nat_bytes: "b \<in> set (str_bytes (show_nat n)) \<Longrightarrow> is_digit_byte b"
  using show_nat_digits [of n] digit_bytes by (auto simp: str_bytes_def list_all_iff)

lemma digit_byte_not: "is_digit_byte b \<Longrightarrow> b \<noteq> 58 \<and> b \<noteq> 100 \<and> b \<noteq> 101 \<and> b \<noteq> 105 \<and> b \<noteq> 108"
  by (auto simp: is_digit_byte_def)

lemma show_int_bytes: "b \<in> set (str_bytes (show_int n)) \<Longrightarrow> is_digit_byte b \<or> b = 45"
  using show_nat_bytes by (auto simp: show_int_def str_bytes_def split: if_splits)

lemma ascii_show_int: "ascii (show_int n)"
  by (simp add: show_int_def)

lemma parse_i64_show: "- (2 ^ 63) \<le> n \<Longrightarrow> n < 2 ^ 63 \<Longrightarrow> parse_i64 (show_int n) = Some n"
proof (cases "n < 0")
  case True
  assume "- (2 ^ 63) \<le> n"
  then have "nat (- n) \<le> 2 ^ 63" by (simp add: nat_le_iff)
  then show ?thesis using True parse_digits_show [of "nat (- n)" "2 ^ 63"] by (simp add: parse_i64_def show_int_def)
next
  case False
  assume "n < 2 ^ 63"
  then have "nat n \<le> 2 ^ 63 - 1" using False by (simp add: nat_le_iff)
  moreover have "hd (show_nat (nat n)) \<noteq> CHR ''-''" using show_nat_hd is_digit_not(2) by blast
  ultimately show ?thesis using False parse_unsigned_show [of "nat n" "2 ^ 63 - 1"] by (simp add: parse_i64_def show_int_def)
qed

lemma decode_int_show:
  assumes "- (2 ^ 63) \<le> n" "n < 2 ^ 63"
  shows "decode_int (105 # str_bytes (show_int n) @ 101 # rest) = Inr (BInt n, rest)"
proof -
  have "101 \<notin> set (str_bytes (show_int n))" using show_int_bytes digit_byte_not by fastforce
  then have "byte_position 101 (str_bytes (show_int n) @ 101 # rest) = Some (length (str_bytes (show_int n)))"
    by (rule byte_position_append)
  then show ?thesis using parse_i64_show [OF assms] from_utf8_str_bytes [OF ascii_show_int, of n] strip_prefix_append [of "[105 :: u8]"]
    by (simp add: decode_int_def)
qed

lemma decode_byte_string_show:
  assumes "length (bencode_bytes b) < 2 ^ 64"
  shows "decode_byte_string (bencode_bytes b @ rest) = Inr (b, rest)"
proof -
  let ?p = "str_bytes (show_nat (length b))"
  have "58 \<notin> set ?p" using show_nat_bytes digit_byte_not by blast
  then have "byte_position 58 (?p @ 58 # b @ rest) = Some (length ?p)" by (rule byte_position_append)
  moreover have l: "length ?p + 1 + length b < 2 ^ 64" using assms by (simp add: bencode_bytes_def)
  then have u: "unat (of_nat (length b) :: u64) = length b" by (simp add: unat_of_nat take_bit_nat_eq_self)
  moreover have "parse_u64 (show_nat (length b)) = Some (of_nat (length b))" using parse_u64_show [of "of_nat (length b)"] u by simp
  moreover have "index_checked_add (length ?p + 1) (length b) = Some (length ?p + 1 + length b)"
    using l by (simp add: index_checked_add_def)
  ultimately show ?thesis using from_utf8_str_bytes [of "show_nat (length b)"]
    by (simp add: decode_byte_string_def bencode_bytes_def slice_def)
qed

lemma bencode_head: "\<exists>c cs. bencode v = c # cs \<and> c \<noteq> 101 \<and> (c = 105 \<or> c = 108 \<or> c = 100 \<or> is_digit_byte c)"
proof (cases v)
  case (BBytes b)
  obtain c cs where c: "str_bytes (show_nat (length b)) = c # cs" using show_nat_digits [of "length b"]
    by (cases "str_bytes (show_nat (length b))") (auto simp: str_bytes_def)
  then have "is_digit_byte c" using show_nat_bytes [of c "length b"] by simp
  then show ?thesis using c digit_byte_not BBytes by (simp add: bencode_bytes_def)
qed simp_all


lemma list_loop_show:
  assumes "\<And>v r. v \<in> set l \<Longrightarrow> decode (bencode v @ r) (depth + 1) = Inr (v, r)"
  shows "list_loop (concat (map bencode l) @ 101 # rest) depth items = Inr (BList (items @ l), rest)"
  using assms
proof (induction l arbitrary: items)
  case Nil
  then show ?case by (simp add: list_loop.simps)
next
  case (Cons v l)
  have e: "decode (bencode v @ concat (map bencode l) @ 101 # rest) (depth + 1) = Inr (v, concat (map bencode l) @ 101 # rest)"
    using Cons.prems by simp
  obtain c cs where "bencode v = c # cs" "c \<noteq> 101" using bencode_head [of v] by blast
  then have "list_loop (concat (map bencode (v # l)) @ 101 # rest) depth items
      = list_loop (concat (map bencode l) @ 101 # rest) depth (items @ [v])"
    using e by (subst list_loop.simps) simp
  then show ?case using Cons.IH [of "items @ [v]"] Cons.prems by simp
qed

abbreviation entry_bytes :: "bytes \<times> bvalue \<Rightarrow> bytes" where
  "entry_bytes \<equiv> \<lambda>kv. bencode_bytes (fst kv) @ bencode (snd kv)"

lemma dict_loop_show:
  assumes "\<And>kv r. kv \<in> set d \<Longrightarrow> decode (bencode (snd kv) @ r) (depth + 1) = Inr (snd kv, r)"
    and "\<And>kv. kv \<in> set d \<Longrightarrow> length (bencode_bytes (fst kv)) < 2 ^ 64"
  shows "dict_loop (concat (map entry_bytes d) @ 101 # rest) depth entries = Inr (BDict (entries @ d), rest)"
  using assms
proof (induction d arbitrary: entries)
  case Nil
  then show ?case by (simp add: dict_loop.simps)
next
  case (Cons kv d)
  obtain k v where kv: "kv = (k, v)" by force
  let ?r = "concat (map entry_bytes d) @ 101 # rest"
  have e: "decode (bencode v @ ?r) (depth + 1) = Inr (v, ?r)" using Cons.prems(1) [of kv] kv by simp
  have b: "decode_byte_string (bencode_bytes k @ bencode v @ ?r) = Inr (k, bencode v @ ?r)"
    using decode_byte_string_show Cons.prems(2) [of kv] kv by simp
  obtain c cs where "bencode_bytes k = c # cs" "c \<noteq> 101" using bencode_head [of "BBytes k"] by auto
  then have "dict_loop (concat (map entry_bytes (kv # d)) @ 101 # rest) depth entries = dict_loop ?r depth (entries @ [(k, v)])"
    using e b kv by (subst dict_loop.simps) simp
  then show ?case using Cons.IH [of "entries @ [(k, v)]"] Cons.prems kv by simp
qed

lemma within_depth: "within depth v \<Longrightarrow> depth \<le> MAX_DEPTH"
  by (simp add: within_def)

lemma decode_bencode:
  "within depth v \<Longrightarrow> strings_ok v \<Longrightarrow> decode (bencode v @ rest) depth = Inr (v, rest)"
proof (induction v arbitrary: depth rest)
  case (BInt n)
  then show ?case using decode_int_show [of n rest] within_depth [OF BInt(1)] by (simp add: decode.simps within_def)
next
  case (BBytes b)
  obtain c cs where "bencode_bytes b = c # cs" "c \<noteq> 101" "is_digit_byte c"
    using bencode_head [of "BBytes b"] show_nat_digits [of "length b"] show_nat_bytes [of "hd (str_bytes (show_nat (length b)))" "length b"]
    by (cases "str_bytes (show_nat (length b))") (auto simp: bencode_bytes_def str_bytes_def)
  then show ?case using BBytes within_depth [OF BBytes(1)] decode_byte_string_show [of b rest] digit_byte_not [of c]
    by (simp add: decode.simps)
next
  case (BList l)
  note d = within_depth [OF BList(2)]
  have "decode (bencode v @ r) (depth + 1) = Inr (v, r)" if "v \<in> set l" for v r
    using BList(1) [OF that] BList(2,3) that within_list [OF d, of l] by (simp add: list_all_iff)
  then have "list_loop (concat (map bencode l) @ 101 # rest) depth [] = Inr (BList l, rest)" using list_loop_show [of l depth rest "[]"] by simp
  then show ?case using d strip_prefix_append [of "[108 :: u8]"] by (simp add: decode.simps decode_list.simps)
next
  case (BDict d)
  note dp = within_depth [OF BDict(2)]
  have "decode (bencode (snd kv) @ r) (depth + 1) = Inr (snd kv, r)" if "kv \<in> set d" for kv r
    using BDict(1) [of kv "snd kv"] BDict(2,3) that within_dict [OF dp, of d] by (simp add: list_all_iff snds.simps)
  moreover have "length (bencode_bytes (fst kv)) < 2 ^ 64" if "kv \<in> set d" for kv using BDict(3) that by (simp add: list_all_iff)
  ultimately have "dict_loop (concat (map entry_bytes d) @ 101 # rest) depth [] = Inr (BDict d, rest)"
    using dict_loop_show [of d depth rest "[]"] by simp
  then show ?case using dp strip_prefix_append [of "[100 :: u8]"] by (simp add: decode.simps decode_dict.simps)
qed


section \<open>What a parsed torrent promises\<close>

text \<open>\<open>Path::join\<close>: an absolute path replaces the directory.\<close>

definition path_join :: "path \<Rightarrow> string \<Rightarrow> path" where
  "path_join dir rel = join_relative (if rel \<noteq> [] \<and> hd rel = CHR ''/'' then [] else dir) rel"

definition stays_below :: "path \<Rightarrow> string \<Rightarrow> bool" where
  "stays_below dir rel \<longleftrightarrow> (\<exists>names. path_join dir rel = dir @ names \<and> names \<noteq> []
     \<and> (\<forall>n \<in> set names. n \<noteq> [] \<and> n \<noteq> ''.'' \<and> n \<noteq> ''..'' \<and> CHR ''/'' \<notin> set n))"

lemma torrent_path_ok_below:
  assumes "torrent_path_ok rel = Inr ()"
  shows "stays_below dir rel"
proof -
  have ne: "rel \<noteq> []" and normal: "list_all is_normal (path_components rel)"
    using assms by (auto simp: torrent_path_ok_def split: if_splits)
  have rel: "hd rel \<noteq> CHR ''/''" and cur: "hd (split_on CHR ''/'' rel) \<noteq> ''.''"
    and dots: "p \<noteq> ''..''" if "p \<in> set (real_pieces rel)" for p
    using ne normal that by (auto simp: path_components_def Let_def real_pieces_def list_all_iff split: if_splits)
  have pieces: "p \<noteq> ''..''" if "p \<in> set (split_on CHR ''/'' rel)" for p
    using dots [of p] that by (auto simp: real_pieces_def)
  then have j: "path_join dir rel = dir @ real_pieces rel"
    using ne normal by (simp add: path_join_def join_relative_def real_pieces_def foldl_push_safe path_components_def Let_def split: if_splits)
  obtain c cs where c: "rel = c # cs" using ne by (cases rel) auto
  have "hd (split_on CHR ''/'' rel) \<in> set (real_pieces rel)"
    using normal c by (auto simp: path_components_def Let_def real_pieces_def split: if_splits list.splits)
  moreover have "CHR ''/'' \<notin> set p" if "p \<in> set (real_pieces rel)" for p using that split_on_no_sep by (auto simp: real_pieces_def)
  moreover have "p \<noteq> [] \<and> p \<noteq> ''.''" if "p \<in> set (real_pieces rel)" for p using that by (simp add: real_pieces_def)
  ultimately show ?thesis unfolding stays_below_def using j dots
    by (intro exI [of _ "real_pieces rel"] conjI ballI) auto
qed

lemma torrent_entries_below: "torrent_entries es = Inr fs \<Longrightarrow> f \<in> set fs \<Longrightarrow> torrent_path_ok (tf_path f) = Inr ()"
proof (induction es arbitrary: fs)
  case (Cons e es)
  then show ?case by (auto simp: torrent_entry_def split: sum.splits option.splits if_splits)
qed simp

lemma torrent_files_below: "torrent_files name info = Inr fs \<Longrightarrow> f \<in> set fs \<Longrightarrow> torrent_path_ok (tf_path f) = Inr ()"
  by (auto simp: torrent_files_def split: sum.splits option.splits dest: torrent_entries_below)

lemma chunks_of_whole: "length xs mod n = 0 \<Longrightarrow> 0 < n \<Longrightarrow> c \<in> set (chunks_of n xs) \<Longrightarrow> length c = n"
proof (induction n xs rule: chunks_of.induct)
  case (1 n xs)
  show ?case
  proof (cases "xs = []")
    case False
    then have "n \<le> length xs" using 1(2,3) by (metis length_0_conv mod_less not_le)
    moreover then have "length (drop n xs) mod n = 0" using 1(2) by (simp add: le_mod_geq)
    ultimately show ?thesis using 1 False chunks_of_step [of xs n] by auto
  qed (use 1 in simp)
qed

lemma torrent_meta_of_Inr:
  assumes "torrent_meta_of h info = Inr m"
  shows "tm_infohash m = h \<and> torrent_piece_length info = Inr (tm_piece_length m)
    \<and> torrent_piece_hashes info = Inr (tm_piece_hashes m) \<and> torrent_files (tm_name m) info = Inr (tm_files m)"
proof (cases "dict_bytes (str_bytes ''name'') ''info.name missing'' info")
  case (Inr nb)
  then show ?thesis using assms
    by (cases "torrent_piece_length info"; cases "torrent_piece_hashes info"; cases "torrent_files (from_utf8_lossy nb) info")
       (auto simp: torrent_meta_of_def Let_def)
qed (use assms in \<open>simp add: torrent_meta_of_def\<close>)

lemma torrent_piece_length_range: "torrent_piece_length info = Inr n \<Longrightarrow> 0 < n \<and> n \<le> MAX_PIECE_LENGTH"
  by (auto simp: torrent_piece_length_def word_gt_0 split: sum.splits if_splits)

lemma torrent_piece_hashes_20: "torrent_piece_hashes info = Inr hs \<Longrightarrow> h \<in> set hs \<Longrightarrow> length h = 20"
  by (auto simp: torrent_piece_hashes_def dest: chunks_of_whole [rotated 2] split: sum.splits if_splits)


lemma parse_torrent_file_Inr:
  assumes "parse_torrent_file sha1 bs = Inr m"
  obtains pre raw post info where "bs = pre @ raw @ post" "decode (raw @ post) 0 = Inr (info, post)"
    "torrent_meta_of (sha1 raw) info = Inr m"
proof -
  from assms obtain off info post where o: "find_info_offset bs = Inr off" "decode (drop off bs) 0 = Inr (info, post)"
    "torrent_meta_of (sha1 (take (length (drop off bs) - length post) (drop off bs))) info = Inr m"
    by (auto simp: parse_torrent_file_def Let_def split: sum.splits)
  obtain raw where r: "drop off bs = raw @ post" using decodes_wellD(1) [OF decode_well_all(1) o(2)] by blast
  have "take (length (raw @ post) - length post) (raw @ post) = raw" by simp
  then show ?thesis using that [of "take off bs" raw post info] o(2,3) r append_take_drop_id [of off bs] by simp
qed

text \<open>The loop finds the value after the first key \<open>info\<close>.\<close>

lemma info_loop_show:
  assumes "find (\<lambda>(k, _). k = str_bytes ''info'') d = Some (key, info)"
    and "\<And>kv r. kv \<in> set d \<Longrightarrow> decode (bencode (snd kv) @ r) 0 = Inr (snd kv, r)"
    and "\<And>kv. kv \<in> set d \<Longrightarrow> length (bencode_bytes (fst kv)) < 2 ^ 64"
    and "length (concat (map entry_bytes d) @ rest) \<le> tot"
  shows "\<exists>post pre. concat (map entry_bytes d) = pre @ bencode info @ post
    \<and> info_loop tot (concat (map entry_bytes d) @ rest) = Inr (tot - length (bencode info @ post @ rest))"
  using assms
proof (induction d)
  case (Cons kv d)
  obtain k v where kv: "kv = (k, v)" by force
  let ?r = "concat (map entry_bytes d) @ rest"
  have b: "decode_byte_string (bencode_bytes k @ bencode v @ ?r) = Inr (k, bencode v @ ?r)"
    using decode_byte_string_show Cons.prems(3) [of kv] kv by simp
  obtain c cs where c: "bencode_bytes k = c # cs" "c \<noteq> 101" using bencode_head [of "BBytes k"] by auto
  show ?case
  proof (cases "k = str_bytes ''info''")
    case True
    then have "info_loop tot (concat (map entry_bytes (kv # d)) @ rest) = Inr (tot - length (bencode v @ ?r))"
      using b c kv by (subst info_loop.simps) simp
    then show ?thesis using Cons.prems(1) kv True
      by (intro exI [of _ "concat (map entry_bytes d)"] exI [of _ "bencode_bytes k"]) simp
  next
    case False
    have e: "decode (bencode v @ ?r) 0 = Inr (v, ?r)" using Cons.prems(2) [of kv] kv by simp
    then have l: "info_loop tot (concat (map entry_bytes (kv # d)) @ rest) = info_loop tot ?r"
      using b c kv False by (subst info_loop.simps) simp
    obtain post pre where "concat (map entry_bytes d) = pre @ bencode info @ post"
      "info_loop tot ?r = Inr (tot - length (bencode info @ post @ rest))"
      using Cons.IH Cons.prems kv False by auto
    then show ?thesis using l kv by (intro exI [of _ post] exI [of _ "entry_bytes kv @ pre"]) simp
  qed
qed simp

lemma parse_bencode:
  assumes "within 0 (BDict d)" "strings_ok (BDict d)" "dict_get (str_bytes ''info'') (BDict d) = Some info"
  shows "parse_torrent_file sha1 (bencode (BDict d)) = torrent_meta_of (sha1 (bencode info)) info"
proof -
  let ?bs = "bencode (BDict d)"
  obtain key where f: "find (\<lambda>(k, _). k = str_bytes ''info'') d = Some (key, info)" using assms(3) by (auto simp: dict_get_def)
  have w: "within 0 (snd kv)" if "kv \<in> set d" for kv
    using that within_dict [of 0 d] assms(1) by (fastforce simp: within_def)
  have s: "length (bencode_bytes (fst kv)) < 2 ^ 64" "strings_ok (snd kv)" if "kv \<in> set d" for kv
    using that assms(2) by (simp_all add: list_all_iff)
  have dec: "decode (bencode (snd kv) @ r) 0 = Inr (snd kv, r)" if "kv \<in> set d" for kv r
    using decode_bencode w s that by blast
  obtain post pre where p: "concat (map entry_bytes d) = pre @ bencode info @ post"
    "info_loop (length ?bs) (concat (map entry_bytes d) @ [101]) = Inr (length ?bs - length (bencode info @ post @ [101]))"
    using info_loop_show [OF f dec s(1), of "[101]" "length ?bs"] by auto
  have bs: "?bs = (100 # pre) @ bencode info @ post @ [101]" using p(1) by simp
  have "find_info_offset ?bs = Inr (length ?bs - length (bencode info @ post @ [101]))"
    using p(2) strip_prefix_append [of "[100 :: u8]"] by (simp add: find_info_offset_def)
  then have o: "find_info_offset ?bs = Inr (length (100 # pre))" using bs by simp
  have k: "(key, info) \<in> set d" using f unfolding find_Some_iff by (metis nth_mem)
  have "decode (bencode info @ post @ [101]) 0 = Inr (info, post @ [101])" using dec [OF k] by simp
  moreover have "drop (length (100 # pre)) ?bs = bencode info @ post @ [101]" by (simp only: bs append_eq_conv_conj [THEN iffD1] drop_append) simp
  ultimately show ?thesis using o by (simp add: parse_torrent_file_def del: bencode.simps)
qed


section \<open>Properties\<close>

text \<open>
  C34. Decoding inverts the canonical encoding: any value whose integers fit into 64 bits, whose nesting stays
  within the decoder's limit below the current depth and whose byte strings fit into memory is decoded to
  exactly itself, whatever bytes follow, and those bytes are left unread.
\<close>

theorem bencode_roundtrip:
  assumes "within depth v" "strings_ok v"
  shows "decode (bencode v @ rest) depth = Inr (v, rest)"
  using assms by (rule decode_bencode)

theorem bencode_roundtrip_witness:
  "decode (bencode (BDict [([97], BList [BInt (- 5), BBytes [1, 2]])]) @ [7]) 0
     = Inr (BDict [([97], BList [BInt (- 5), BBytes [1, 2]])], [7])"
  by (rule bencode_roundtrip) (simp_all add: within_def MAX_DEPTH_def bencode_bytes_def show_nat.simps)

text \<open>
  Bounds on decoding hostile input: whatever bytes it reads, the decoder consumes a non-empty prefix of
  them, never nests deeper than \<open>MAX_DEPTH\<close>, and never yields an integer outside 64 bits.
\<close>

theorem decode_bounded:
  assumes "decode input depth = Inr (v, rest)"
  shows "(\<exists>used. used \<noteq> [] \<and> input = used @ rest) \<and> depth + nest v \<le> MAX_DEPTH \<and> ints_ok v"
proof -
  note w = decodes_wellD [OF decode_well_all(1) assms]
  have "length rest < length input" using assms by (rule decode_shorter)
  then show ?thesis using w by (auto simp: within_def)
qed

theorem decode_bounded_witness:
  "(\<exists>used. used \<noteq> [] \<and> str_bytes ''li7eex'' = used @ str_bytes ''x'') \<and> 0 + nest (BList [BInt 7]) \<le> MAX_DEPTH \<and> ints_ok (BList [BInt 7])"
  by (rule decode_bounded) code_simp

text \<open>
  What a parsed \<open>.torrent\<close> guarantees, however it was made: the infohash is the SHA-1 of a contiguous
  run of the file's own bytes that decodes to the info dictionary, never of a re-encoding; the piece length
  is between 1 byte and 64 MiB; every piece hash has 20 bytes; and every file's path, joined to any data
  directory, stays strictly below that directory.
\<close>

theorem torrent_parsed_safe:
  assumes "parse_torrent_file sha1 bs = Inr m"
  shows "(\<exists>pre raw post info. bs = pre @ raw @ post \<and> decode (raw @ post) 0 = Inr (info, post) \<and> tm_infohash m = sha1 raw)
    \<and> 0 < tm_piece_length m \<and> tm_piece_length m \<le> 64 * 1024 * 1024
    \<and> (\<forall>h \<in> set (tm_piece_hashes m). length h = 20)
    \<and> (\<forall>f \<in> set (tm_files m). \<forall>dir. stays_below dir (tf_path f))"
proof -
  obtain pre raw post info where p: "bs = pre @ raw @ post" "decode (raw @ post) 0 = Inr (info, post)"
    "torrent_meta_of (sha1 raw) info = Inr m" using assms by (rule parse_torrent_file_Inr)
  note m = torrent_meta_of_Inr [OF p(3)]
  have len: "0 < tm_piece_length m \<and> tm_piece_length m \<le> 64 * 1024 * 1024"
    using torrent_piece_length_range m unfolding MAX_PIECE_LENGTH_def by blast
  have "\<forall>h \<in> set (tm_piece_hashes m). length h = 20" using torrent_piece_hashes_20 m by blast
  moreover have "\<forall>f \<in> set (tm_files m). \<forall>dir. stays_below dir (tf_path f)"
    using torrent_files_below torrent_path_ok_below m by blast
  ultimately show ?thesis using p(1,2) m len by blast
qed

definition sample_info :: bvalue where
  "sample_info = BDict [(str_bytes ''length'', BInt 3), (str_bytes ''name'', BBytes (str_bytes ''a.txt'')),
     (str_bytes ''piece length'', BInt 16), (str_bytes ''pieces'', BBytes (replicate 20 9))]"

definition sample_meta :: torrent_meta where
  "sample_meta = \<lparr>tm_infohash = take 20 (bencode sample_info), tm_name = ''a.txt'',
     tm_files = [\<lparr>tf_path = ''a.txt'', tf_length = 3\<rparr>], tm_piece_length = 16, tm_piece_hashes = [replicate 20 9]\<rparr>"

theorem torrent_parsed_safe_witness:
  "(\<exists>pre raw post info. bencode (BDict [(str_bytes ''info'', sample_info)]) = pre @ raw @ post
      \<and> decode (raw @ post) 0 = Inr (info, post) \<and> tm_infohash sample_meta = take 20 raw)
    \<and> 0 < tm_piece_length sample_meta \<and> stays_below [''downloads''] ''a.txt''"
proof -
  have "parse_torrent_file (take 20) (bencode (BDict [(str_bytes ''info'', sample_info)])) = Inr sample_meta" by code_simp
  from torrent_parsed_safe [OF this] show ?thesis by (auto simp: sample_meta_def)
qed

text \<open>
  The canonical \<open>.torrent\<close> is understood: for a top-level dictionary with an \<open>info\<close> entry, wherever it
  stands among the entries, the parser reads the metadata of exactly that value, with the SHA-1 of that value's
  encoding as infohash.
\<close>

theorem torrent_infohash:
  assumes "within 0 (BDict d)" "strings_ok (BDict d)" "dict_get (str_bytes ''info'') (BDict d) = Some info"
  shows "parse_torrent_file sha1 (bencode (BDict d)) = torrent_meta_of (sha1 (bencode info)) info"
  using assms by (rule parse_bencode)

theorem torrent_infohash_witness:
  "parse_torrent_file (take 20) (bencode (BDict [(str_bytes ''announce'', BBytes []), (str_bytes ''info'', sample_info)]))
     = torrent_meta_of (take 20 (bencode sample_info)) sample_info"
  by (rule torrent_infohash)
     (simp_all add: within_def MAX_DEPTH_def bencode_bytes_def sample_info_def dict_get_def str_bytes_def show_nat.simps)

end
