(* ===== verification/Bridge.thy ===== *)
theory Bridge
  imports Bencode Downloads
begin

text \<open>
  The BitTorrent bridge (\<open>crates/np2ptp-bridge/src/lib.rs\<close>, \<open>streaming.rs\<close> and \<open>librqbit_source.rs\<close>): piece
  verification in memory and streamed, conversion into the store, publishing, and resolving through the
  network. SHA-1, the torrent sources (the trait \<open>TorrentSource\<close> and the \<open>librqbit\<close> session) and the text
  of I/O errors are parameters.
\<close>

section \<open>Piece verification\<close>

type_synonym sha1 = "bytes \<Rightarrow> bytes"

definition verify_pieces :: "sha1 \<Rightarrow> (string \<times> bytes) list \<Rightarrow> nat \<Rightarrow> bytes list \<Rightarrow> bool" where
  "verify_pieces sha1 files piece_length piece_hashes =
     (if piece_length = 0 then False
      else let data = concat (map snd files) in
        if div_ceil (length data) piece_length \<noteq> length piece_hashes then False
        else list_all (\<lambda>(chunk, expected). sha1 chunk = expected) (zip (chunks_of piece_length data) piece_hashes))"

record piece_verifier =
  pv_piece_length :: nat
  pv_piece_hashes :: "bytes list"
  pv_buf :: bytes
  pv_next_piece :: nat

definition verifier_new :: "nat \<Rightarrow> bytes list \<Rightarrow> piece_verifier" where
  "verifier_new piece_length piece_hashes =
     \<lparr>pv_piece_length = piece_length, pv_piece_hashes = piece_hashes, pv_buf = [], pv_next_piece = 0\<rparr>"

definition hash_and_check :: "sha1 \<Rightarrow> piece_verifier \<Rightarrow> bridge_error + piece_verifier" where
  "hash_and_check sha1 v =
     (if length (pv_piece_hashes v) \<le> pv_next_piece v then Inl PieceVerificationFailed
      else if sha1 (pv_buf v) \<noteq> pv_piece_hashes v ! pv_next_piece v then Inl PieceVerificationFailed
      else Inr (v\<lparr>pv_buf := [], pv_next_piece := pv_next_piece v + 1\<rparr>))"

text \<open>The loop of \<open>feed\<close> ends only because the buffer never exceeds a piece, so it is partial by definition.\<close>

partial_function (option) feed :: "sha1 \<Rightarrow> piece_verifier \<Rightarrow> bytes \<Rightarrow> (bridge_error + piece_verifier) option" where
  [code]: "feed sha1 v data =
     (if data = [] then Some (Inr v)
      else let need = pv_piece_length v - length (pv_buf v); tk = min need (length data);
               v1 = v\<lparr>pv_buf := pv_buf v @ take tk data\<rparr>
        in if length (pv_buf v1) = pv_piece_length v1
           then (case hash_and_check sha1 v1 of Inl e \<Rightarrow> Some (Inl e) | Inr v2 \<Rightarrow> feed sha1 v2 (drop tk data))
           else feed sha1 v1 (drop tk data))"

definition verifier_finish :: "sha1 \<Rightarrow> piece_verifier \<Rightarrow> bridge_error + unit" where
  "verifier_finish sha1 v =
     (case (if pv_buf v \<noteq> [] then hash_and_check sha1 v else Inr v) of
        Inl e \<Rightarrow> Inl e
      | Inr v' \<Rightarrow> if pv_next_piece v' \<noteq> length (pv_piece_hashes v') then Inl PieceVerificationFailed else Inr ())"

definition READ_WINDOW :: nat where "READ_WINDOW = 64 * 1024"

fun feed_windows :: "sha1 \<Rightarrow> piece_verifier \<Rightarrow> bytes list \<Rightarrow> (bridge_error + piece_verifier) option" where
  "feed_windows sha1 v [] = Some (Inr v)"
| "feed_windows sha1 v (w # ws) =
     (case feed sha1 v w of
        Some (Inr v') \<Rightarrow> feed_windows sha1 v' ws
      | r \<Rightarrow> r)"

fun feed_files :: "sha1 \<Rightarrow> (io_error \<Rightarrow> string) \<Rightarrow> fs \<Rightarrow> piece_verifier \<Rightarrow> (string \<times> path) list \<Rightarrow> (bridge_error + piece_verifier) option" where
  "feed_files sha1 io_text f v [] = Some (Inr v)"
| "feed_files sha1 io_text f v ((name, p) # files) =
     (case fs_read f p of
        Inl e \<Rightarrow> Some (Inl (Source (name @ '': '' @ io_text e)))
      | Inr content \<Rightarrow> (case feed_windows sha1 v (chunks_of READ_WINDOW content) of
          Some (Inr v') \<Rightarrow> feed_files sha1 io_text f v' files
        | r \<Rightarrow> r))"

definition verify_pieces_streaming :: "sha1 \<Rightarrow> (io_error \<Rightarrow> string) \<Rightarrow> fs \<Rightarrow> (string \<times> path) list \<Rightarrow> nat \<Rightarrow> bytes list
    \<Rightarrow> (bridge_error + unit) option" where
  "verify_pieces_streaming sha1 io_text f files piece_length piece_hashes =
     (if piece_length = 0 then Some (Inl PieceVerificationFailed)
      else case feed_files sha1 io_text f (verifier_new piece_length piece_hashes) files of
        None \<Rightarrow> None
      | Some (Inl e) \<Rightarrow> Some (Inl e)
      | Some (Inr v) \<Rightarrow> Some (verifier_finish sha1 v))"

section \<open>Converting, publishing and resolving\<close>

record torrent_download =
  td_meta :: torrent_meta
  td_files :: "(string \<times> bytes) list"

text \<open>The trait \<open>TorrentSource\<close>, over a state of its own.\<close>

record 't torrent_source =
  ts_infohash :: "string \<Rightarrow> 't \<Rightarrow> (bridge_error + bytes) \<times> 't"
  ts_metadata :: "string \<Rightarrow> 't \<Rightarrow> (bridge_error + torrent_meta option) \<times> 't"
  ts_fetch :: "string \<Rightarrow> 't \<Rightarrow> (bridge_error + torrent_download) \<times> 't"

record bridge_outcome =
  oc_manifest :: manifest
  oc_infohash :: bytes
  oc_converted :: bool

definition convert :: "crates \<Rightarrow> sha1 \<Rightarrow> 't torrent_source \<Rightarrow> string \<Rightarrow> store \<Rightarrow> fs \<Rightarrow> 't
    \<Rightarrow> (bridge_error + manifest \<times> torrent_meta) \<times> (store \<times> fs) \<times> 't" where
  "convert X sha1 S input st f t =
     (case ts_fetch S input t of
        (Inl e, t') \<Rightarrow> (Inl e, (st, f), t')
      | (Inr dl, t') \<Rightarrow>
          if \<not> verify_pieces sha1 (td_files dl) (unat (tm_piece_length (td_meta dl))) (tm_piece_hashes (td_meta dl))
            then (Inl PieceVerificationFailed, (st, f), t')
          else (case ingest_tree X st f (td_files dl) (Some (tm_name (td_meta dl))) of
              (Inl e, s) \<Rightarrow> (Inl (BridgeStore e), s, t')
            | (Inr m, s) \<Rightarrow> (Inr (m, td_meta dl), s, t')))"

definition publish :: "'n runtime \<Rightarrow> crates \<Rightarrow> manifest codec \<Rightarrow> manifest \<Rightarrow> bytes \<Rightarrow> 'n \<Rightarrow> (bridge_error + unit) \<times> 'n" where
  "publish R X Z m infohash n =
     (case net_provide R Z m n of
        (Inl e, n') \<Rightarrow> (Inl (BridgeNet e), n')
      | (Inr _, n') \<Rightarrow> (case put_mapping R X infohash (m_root m) n' of
          (Inl e, n2) \<Rightarrow> (Inl (BridgeNet e), n2)
        | (Inr _, n2) \<Rightarrow> (Inr (), n2)))"

text \<open>Whether a downloaded manifest passes the re-check, with the store error of the export.\<close>

definition recheck :: "crates \<Rightarrow> sha1 \<Rightarrow> torrent_meta option \<Rightarrow> manifest \<Rightarrow> store \<Rightarrow> fs \<Rightarrow> (store_error + bool) \<times> store" where
  "recheck X sha1 verify m st f =
     (case verify of
        None \<Rightarrow> (Inr True, st)
      | Some meta \<Rightarrow> (case export_tree X st f m of
          (Inl e, st') \<Rightarrow> (Inl e, st')
        | (Inr files, st') \<Rightarrow> (Inr (verify_pieces sha1 files (unat (tm_piece_length meta)) (tm_piece_hashes meta)), st')))"

fun resolve_from :: "'n runtime \<Rightarrow> crates \<Rightarrow> manifest codec \<Rightarrow> (nat \<Rightarrow> nat list) \<Rightarrow> sha1 \<Rightarrow> hash \<Rightarrow> torrent_meta option \<Rightarrow> peer list
    \<Rightarrow> store \<Rightarrow> fs \<Rightarrow> 'n \<Rightarrow> (bridge_error + manifest option) \<times> (store \<times> fs) \<times> 'n" where
  "resolve_from R X Z sched sha1 root verify [] st f n = (Inr None, (st, f), n)"
| "resolve_from R X Z sched sha1 root verify (p # ps) st f n =
     (case net_download R X Z sched root p st f n of
        (Inl e, (st1, f1), n1) \<Rightarrow> resolve_from R X Z sched sha1 root verify ps st1 f1 n1
      | (Inr m, (st1, f1), n1) \<Rightarrow> (case recheck X sha1 verify m st1 f1 of
          (Inl e, st2) \<Rightarrow> (Inl (BridgeStore e), (st2, f1), n1)
        | (Inr ok, st2) \<Rightarrow> if ok then (Inr (Some m), (st2, f1), n1)
                          else resolve_from R X Z sched sha1 root verify ps st2 f1 n1))"

definition resolve :: "'n runtime \<Rightarrow> crates \<Rightarrow> manifest codec \<Rightarrow> (nat \<Rightarrow> nat list) \<Rightarrow> sha1 \<Rightarrow> bytes \<Rightarrow> torrent_meta option
    \<Rightarrow> store \<Rightarrow> fs \<Rightarrow> 'n \<Rightarrow> (bridge_error + manifest option) \<times> (store \<times> fs) \<times> 'n" where
  "resolve R X Z sched sha1 infohash verify st f n =
     (case get_mapping R X infohash n of
        (Inl e, n1) \<Rightarrow> (Inl (BridgeNet e), (st, f), n1)
      | (Inr None, n1) \<Rightarrow> (Inr None, (st, f), n1)
      | (Inr (Some root), n1) \<Rightarrow> (case find_providers R root n1 of
          (Inl e, n2) \<Rightarrow> (Inl (BridgeNet e), (st, f), n2)
        | (Inr ps, n2) \<Rightarrow> resolve_from R X Z sched sha1 root verify ps st f n2))"

definition resolve_or_convert :: "'n runtime \<Rightarrow> crates \<Rightarrow> manifest codec \<Rightarrow> (nat \<Rightarrow> nat list) \<Rightarrow> sha1 \<Rightarrow> 't torrent_source \<Rightarrow> string
    \<Rightarrow> store \<Rightarrow> fs \<Rightarrow> 't \<Rightarrow> 'n \<Rightarrow> (bridge_error + bridge_outcome) \<times> (store \<times> fs) \<times> 't \<times> 'n" where
  "resolve_or_convert R X Z sched sha1 S input st f t n =
     (case ts_metadata S input t of
        (Inl e, t1) \<Rightarrow> (Inl e, (st, f), t1, n)
      | (Inr meta, t1) \<Rightarrow> (case (case meta of Some m \<Rightarrow> (Inr (tm_infohash m), t1) | None \<Rightarrow> ts_infohash S input t1) of
          (Inl e, t2) \<Rightarrow> (Inl e, (st, f), t2, n)
        | (Inr infohash, t2) \<Rightarrow> (case resolve R X Z sched sha1 infohash meta st f n of
            (Inl e, s, n1) \<Rightarrow> (Inl e, s, t2, n1)
          | (Inr (Some m), s, n1) \<Rightarrow> (Inr \<lparr>oc_manifest = m, oc_infohash = infohash, oc_converted = False\<rparr>, s, t2, n1)
          | (Inr None, (st1, f1), n1) \<Rightarrow> (case convert X sha1 S input st1 f1 t2 of
              (Inl e, s, t3) \<Rightarrow> (Inl e, s, t3, n1)
            | (Inr (m, found), s, t3) \<Rightarrow> (case publish R X Z m (tm_infohash found) n1 of
                (Inl e, n2) \<Rightarrow> (Inl e, s, t3, n2)
              | (Inr _, n2) \<Rightarrow> (Inr \<lparr>oc_manifest = m, oc_infohash = tm_infohash found, oc_converted = True\<rparr>, s, t3, n2))))))"

section \<open>Content already on disk\<close>

definition local_files :: "torrent_meta \<Rightarrow> path \<Rightarrow> (string \<times> path) list" where
  "local_files meta data_dir = map (\<lambda>tf. (tf_path tf, path_join data_dir (tf_path tf))) (tm_files meta)"

definition convert_local :: "crates \<Rightarrow> sha1 \<Rightarrow> (io_error \<Rightarrow> string) \<Rightarrow> torrent_meta \<Rightarrow> path \<Rightarrow> bool \<Rightarrow> store \<Rightarrow> fs
    \<Rightarrow> ((bridge_error + manifest) \<times> store \<times> fs) option" where
  "convert_local X sha1 io_text meta data_dir no_copy st f =
     (let files = local_files meta data_dir in
      case verify_pieces_streaming sha1 io_text f files (unat (tm_piece_length meta)) (tm_piece_hashes meta) of
        None \<Rightarrow> None
      | Some (Inl e) \<Rightarrow> Some (Inl e, st, f)
      | Some (Inr _) \<Rightarrow>
          Some (case (if no_copy then ingest_tree_files_no_copy X st f files (Some (tm_name meta))
                      else ingest_tree_files X st f files (Some (tm_name meta))) of
                  (Inl e, s) \<Rightarrow> (Inl (BridgeStore e), s)
                | (Inr m, s) \<Rightarrow> (Inr m, s)))"

definition resolve_or_convert_local :: "'n runtime \<Rightarrow> crates \<Rightarrow> manifest codec \<Rightarrow> (nat \<Rightarrow> nat list) \<Rightarrow> sha1 \<Rightarrow> (io_error \<Rightarrow> string)
    \<Rightarrow> torrent_meta \<Rightarrow> path \<Rightarrow> bool \<Rightarrow> store \<Rightarrow> fs \<Rightarrow> 'n \<Rightarrow> ((bridge_error + bridge_outcome) \<times> (store \<times> fs) \<times> 'n) option" where
  "resolve_or_convert_local R X Z sched sha1 io_text meta data_dir no_copy st f n =
     (case resolve R X Z sched sha1 (tm_infohash meta) (Some meta) st f n of
        (Inl e, s, n1) \<Rightarrow> Some (Inl e, s, n1)
      | (Inr (Some m), s, n1) \<Rightarrow> Some (Inr \<lparr>oc_manifest = m, oc_infohash = tm_infohash meta, oc_converted = False\<rparr>, s, n1)
      | (Inr None, (st1, f1), n1) \<Rightarrow> (case convert_local X sha1 io_text meta data_dir no_copy st1 f1 of
          None \<Rightarrow> None
        | Some (Inl e, s) \<Rightarrow> Some (Inl e, s, n1)
        | Some (Inr m, s) \<Rightarrow> (case publish R X Z m (tm_infohash meta) n1 of
            (Inl e, n2) \<Rightarrow> Some (Inl e, s, n2)
          | (Inr _, n2) \<Rightarrow> Some (Inr \<lparr>oc_manifest = m, oc_infohash = tm_infohash meta, oc_converted = True\<rparr>, s, n2))))"


section \<open>Content fetched over BitTorrent\<close>

text \<open>
  The calls made to \<open>librqbit\<close>: opening a session, reading the input, adding the torrent with its output
  folder (and whether that gives a handle), polling its statistics, and the metainfo it reconstructed. The
  client writes files, so each call may change the file system.
\<close>

record torrent_stats =
  ss_progress_bytes :: u64
  ss_total_bytes :: u64
  ss_errored :: bool
  ss_error :: "string option"
  ss_finished :: bool

record 'q rqbit =
  rq_session :: "path \<Rightarrow> fs \<times> 'q \<Rightarrow> (string + unit) \<times> fs \<times> 'q"
  rq_parse :: "string \<Rightarrow> string + unit"
  rq_add :: "string \<Rightarrow> path \<Rightarrow> fs \<times> 'q \<Rightarrow> (string + bool) \<times> fs \<times> 'q"
  rq_stats :: "fs \<times> 'q \<Rightarrow> torrent_stats \<times> fs \<times> 'q"
  rq_torrent_bytes :: "fs \<times> 'q \<Rightarrow> string + bytes"

definition bridge_download_dir :: "crates \<Rightarrow> sha1 \<Rightarrow> path \<Rightarrow> string \<Rightarrow> path option \<Rightarrow> path" where
  "bridge_download_dir X sha1 root input out_dir =
     (case out_dir of
        Some d \<Rightarrow> d
      | None \<Rightarrow> root @ [''.np2ptp-bridge-downloads'', hex_encode X (sha1 (str_bytes input))])"

text \<open>Polling goes on for as long as the swarm neither finishes nor fails.\<close>

partial_function (option) poll :: "'q rqbit \<Rightarrow> (u64 \<times> u64) list \<Rightarrow> fs \<times> 'q \<Rightarrow> ((bridge_error + unit) \<times> (u64 \<times> u64) list \<times> fs \<times> 'q) option" where
  [code]: "poll Q prog w =
     (case rq_stats Q w of (s, w') \<Rightarrow>
        let prog' = prog @ [(ss_progress_bytes s, ss_total_bytes s)] in
        if ss_errored s then Some (Inl (Source (case ss_error s of Some e \<Rightarrow> e | None \<Rightarrow> ''torrent errored'')), prog', w')
        else if ss_finished s then Some (Inr (), prog', w')
        else poll Q prog' w')"

definition source_call :: "(string + 'a) \<times> 'w \<Rightarrow> (bridge_error + 'a) \<times> 'w" where
  "source_call r = (case r of (Inl e, w) \<Rightarrow> (Inl (Source e), w) | (Inr a, w) \<Rightarrow> (Inr a, w))"

text \<open>Everything up to the reconstructed metainfo: its bytes, the progress reported and the file system.\<close>

definition fetch_torrent :: "crates \<Rightarrow> sha1 \<Rightarrow> (io_error \<Rightarrow> string) \<Rightarrow> 'q rqbit \<Rightarrow> path \<Rightarrow> string \<Rightarrow> path option \<Rightarrow> fs \<Rightarrow> 'q
    \<Rightarrow> ((bridge_error + bytes) \<times> (u64 \<times> u64) list \<times> fs \<times> 'q) option" where
  "fetch_torrent X sha1 io_text Q root input out_dir f q =
     (let download_dir = bridge_download_dir X sha1 root input out_dir;
          session_dir = root @ [''.np2ptp-bridge-librqbit-session'']
      in case fs_create_dir_all f download_dir of
           Inl e \<Rightarrow> Some (Inl (Source (''creating download dir: '' @ io_text e)), [], f, q)
         | Inr f1 \<Rightarrow> (case fs_create_dir_all f1 session_dir of
             Inl e \<Rightarrow> Some (Inl (Source (''creating session dir: '' @ io_text e)), [], f1, q)
           | Inr f2 \<Rightarrow> (case source_call (rq_session Q session_dir (f2, q)) of
               (Inl e, w) \<Rightarrow> Some (Inl e, [], w)
             | (Inr _, w) \<Rightarrow> (case rq_parse Q input of
                 Inl e \<Rightarrow> Some (Inl (Source e), [], w)
               | Inr _ \<Rightarrow> (case source_call (rq_add Q input download_dir w) of
                   (Inl e, w) \<Rightarrow> Some (Inl e, [], w)
                 | (Inr False, w) \<Rightarrow> Some (Inl (Source ''torrent add returned no handle (list-only?)''), [], w)
                 | (Inr True, w) \<Rightarrow> (case poll Q [] w of
                     None \<Rightarrow> None
                   | Some (Inl e, prog, w) \<Rightarrow> Some (Inl e, prog, w)
                   | Some (Inr _, prog, w) \<Rightarrow> Some (source_call (rq_torrent_bytes Q w, prog, w))))))))"

definition resolve_or_convert_remote :: "'n runtime \<Rightarrow> crates \<Rightarrow> manifest codec \<Rightarrow> (nat \<Rightarrow> nat list) \<Rightarrow> sha1 \<Rightarrow> (io_error \<Rightarrow> string)
    \<Rightarrow> 'q rqbit \<Rightarrow> string \<Rightarrow> bool \<Rightarrow> path option \<Rightarrow> store \<Rightarrow> fs \<Rightarrow> 'q \<Rightarrow> 'n
    \<Rightarrow> ((bridge_error + bridge_outcome) \<times> (u64 \<times> u64) list \<times> (store \<times> fs) \<times> 'q \<times> 'n) option" where
  "resolve_or_convert_remote R X Z sched sha1 io_text Q input no_copy out_dir st f q n =
     (case fetch_torrent X sha1 io_text Q (store_root st) input out_dir f q of
        None \<Rightarrow> None
      | Some (Inl e, prog, f', q') \<Rightarrow> Some (Inl e, prog, (st, f'), q', n)
      | Some (Inr torrent_bytes, prog, f', q') \<Rightarrow> (case parse_torrent_file sha1 torrent_bytes of
          Inl e \<Rightarrow> Some (Inl e, prog, (st, f'), q', n)
        | Inr meta \<Rightarrow> (case resolve_or_convert_local R X Z sched sha1 io_text meta
              (bridge_download_dir X sha1 (store_root st) input out_dir) no_copy st f' n of
            None \<Rightarrow> None
          | Some (r, s, n') \<Rightarrow> Some (r, prog, s, q', n'))))"

section \<open>Streaming verification is piece verification\<close>

text \<open>The whole pieces cut off a stream, checked from the hash at index \<open>k\<close> on, and what is left of it.\<close>

function cut_pieces :: "sha1 \<Rightarrow> nat \<Rightarrow> bytes list \<Rightarrow> nat \<Rightarrow> bytes \<Rightarrow> (nat \<times> bytes) option" where
  "cut_pieces sha1 P hs k E =
     (if 0 < P \<and> P \<le> length E then
        (if k < length hs \<and> sha1 (take P E) = hs ! k then cut_pieces sha1 P hs (k + 1) (drop P E) else None)
      else Some (k, E))"
  by pat_completeness auto
termination by (relation "measure (\<lambda>(sha1, P, hs, k, E). length E)") auto

declare cut_pieces.simps [simp del]

lemma cut_pieces_short: "length E < P \<Longrightarrow> cut_pieces sha1 P hs k E = Some (k, E)"
  by (simp add: cut_pieces.simps)

lemma cut_pieces_rest: "cut_pieces sha1 P hs k E = Some (k', b) \<Longrightarrow> 0 < P \<Longrightarrow> length b < P"
proof (induction sha1 P hs k E rule: cut_pieces.induct)
  case (1 sha1 P hs k E)
  then show ?case by (subst (asm) (2) cut_pieces.simps) (auto split: if_splits)
qed

lemma cut_pieces_append: "0 < P \<Longrightarrow> cut_pieces sha1 P hs k (E @ F) = (case cut_pieces sha1 P hs k E of None \<Rightarrow> None | Some (k', b) \<Rightarrow> cut_pieces sha1 P hs k' (b @ F))"
proof (induction sha1 P hs k E rule: cut_pieces.induct)
  case (1 sha1 P hs k E)
  show ?case
  proof (cases "P \<le> length E")
    case True
    then show ?thesis using 1 by (subst cut_pieces.simps, subst (2) cut_pieces.simps) auto
  qed (simp add: cut_pieces_short)
qed

abbreviation fed :: "piece_verifier \<Rightarrow> (nat \<times> bytes) option \<Rightarrow> bridge_error + piece_verifier" where
  "fed v c \<equiv> (case c of None \<Rightarrow> Inl PieceVerificationFailed | Some (k, b) \<Rightarrow> Inr (v\<lparr>pv_buf := b, pv_next_piece := k\<rparr>))"

abbreviation cut_of :: "sha1 \<Rightarrow> piece_verifier \<Rightarrow> bytes \<Rightarrow> (nat \<times> bytes) option" where
  "cut_of sha1 v data \<equiv> cut_pieces sha1 (pv_piece_length v) (pv_piece_hashes v) (pv_next_piece v) (pv_buf v @ data)"

lemma feed_cut: "length (pv_buf v) < pv_piece_length v \<Longrightarrow> feed sha1 v data = Some (fed v (cut_of sha1 v data))"
proof (induction "length data" arbitrary: v data rule: less_induct)
  case less
  let ?P = "pv_piece_length v" and ?b = "pv_buf v"
  show ?case
  proof (cases "data = []")
    case True
    then show ?thesis using less.prems by (simp add: feed.simps cut_pieces_short)
  next
    case False
    show ?thesis
    proof (cases "?P \<le> length (?b @ data)")
      case True
      let ?t = "?P - length ?b"
      have tk: "min (?P - length ?b) (length data) = ?t" and len: "length (?b @ take ?t data) = ?P"
        and t: "take ?P (?b @ data) = ?b @ take ?t data" "drop ?P (?b @ data) = drop ?t data"
        using True less.prems by auto
      let ?v1 = "v\<lparr>pv_buf := ?b @ take ?t data\<rparr>" and ?v2 = "v\<lparr>pv_buf := [], pv_next_piece := pv_next_piece v + 1\<rparr>"
      have shorter: "length (drop ?t data) < length data" using False less.prems by (cases data) auto
      have IH: "feed sha1 ?v2 (drop ?t data) = Some (fed ?v2 (cut_of sha1 ?v2 (drop ?t data)))"
        using less.hyps [OF shorter, of ?v2] less.prems by simp
      have "feed sha1 v data = (case hash_and_check sha1 ?v1 of Inl e \<Rightarrow> Some (Inl e) | Inr v2 \<Rightarrow> feed sha1 v2 (drop ?t data))"
        using False len unfolding feed.simps [of sha1 v data] Let_def tk by simp
      moreover have "cut_of sha1 v data = (if pv_next_piece v < length (pv_piece_hashes v) \<and> sha1 (?b @ take ?t data) = pv_piece_hashes v ! pv_next_piece v
          then cut_of sha1 ?v2 (drop ?t data) else None)"
        using True less.prems t by (subst cut_pieces.simps) simp
      ultimately show ?thesis using IH by (auto simp: hash_and_check_def split: option.splits)
    next
      case short: False
      then have "min (?P - length ?b) (length data) = length data" by simp
      then show ?thesis using False short by (subst feed.simps) (simp add: Let_def cut_pieces_short feed.simps)
    qed
  qed
qed

lemma feed_windows_cut:
  "length (pv_buf v) < pv_piece_length v \<Longrightarrow> feed_windows sha1 v ws = Some (fed v (cut_of sha1 v (concat ws)))"
proof (induction ws arbitrary: v)
  case (Cons w ws)
  have P: "0 < pv_piece_length v" using Cons.prems by simp
  show ?case
  proof (cases "cut_of sha1 v w")
    case None
    then show ?thesis using feed_cut [OF Cons.prems] cut_pieces_append [OF P, of sha1 _ _ "pv_buf v @ w" "concat ws"] by simp
  next
    case (Some kb)
    obtain k b where kb: "kb = (k, b)" by force
    have "length b < pv_piece_length v" using cut_pieces_rest Some kb P by blast
    then have "feed_windows sha1 (v\<lparr>pv_buf := b, pv_next_piece := k\<rparr>) ws
        = Some (fed v (cut_pieces sha1 (pv_piece_length v) (pv_piece_hashes v) k (b @ concat ws)))"
      using Cons.IH [of "v\<lparr>pv_buf := b, pv_next_piece := k\<rparr>"] by (simp cong: option.case_cong)
    then show ?thesis using Some kb feed_cut [OF Cons.prems] cut_pieces_append [OF P, of sha1 _ _ "pv_buf v @ w" "concat ws"] by simp
  qed
qed (simp add: cut_pieces_short)


text \<open>The files on disk hold these contents.\<close>

definition on_disk :: "fs \<Rightarrow> (string \<times> path) list \<Rightarrow> (string \<times> bytes) list \<Rightarrow> bool" where
  "on_disk f files contents \<longleftrightarrow> list_all2 (\<lambda>(name, p) (name', d). name' = name \<and> fs_read f p = Inr d) files contents"

lemma READ_WINDOW_pos: "0 < READ_WINDOW"
  by (simp add: READ_WINDOW_def)

lemma feed_content:
  "length (pv_buf v) < pv_piece_length v \<Longrightarrow> feed_windows sha1 v (chunks_of READ_WINDOW d) = Some (fed v (cut_of sha1 v d))"
  by (simp add: feed_windows_cut concat_chunks_of [OF READ_WINDOW_pos])

lemma feed_files_cut:
  "length (pv_buf v) < pv_piece_length v \<Longrightarrow> on_disk f files contents \<Longrightarrow>
   feed_files sha1 io_text f v files = Some (fed v (cut_of sha1 v (concat (map snd contents))))"
proof (induction files arbitrary: v contents)
  case Nil
  then show ?case by (simp add: on_disk_def cut_pieces_short)
next
  case (Cons fl files)
  obtain name p where fl: "fl = (name, p)" by force
  obtain d contents' where c: "contents = (name, d) # contents'" and rd: "fs_read f p = Inr d" and rest: "on_disk f files contents'"
    using Cons.prems(2) fl by (auto simp: on_disk_def list_all2_Cons1)
  have P: "0 < pv_piece_length v" using Cons.prems(1) by simp
  have w: "feed_windows sha1 v (chunks_of READ_WINDOW d) = Some (fed v (cut_of sha1 v d))"
    using Cons.prems(1) by (rule feed_content)
  have ap: "cut_of sha1 v (concat (map snd contents)) = (case cut_of sha1 v d of None \<Rightarrow> None
      | Some (k', b) \<Rightarrow> cut_pieces sha1 (pv_piece_length v) (pv_piece_hashes v) k' (b @ concat (map snd contents')))"
    using cut_pieces_append [OF P, of sha1 _ _ "pv_buf v @ d"] c by simp
  show ?case
  proof (cases "cut_of sha1 v d")
    case None
    then show ?thesis using w rd fl ap by simp
  next
    case (Some kb)
    obtain k b where kb: "kb = (k, b)" by force
    let ?v = "v\<lparr>pv_buf := b, pv_next_piece := k\<rparr>"
    have "length b < pv_piece_length v" using cut_pieces_rest Some kb P by blast
    then have "feed_files sha1 io_text f ?v files = Some (fed ?v (cut_of sha1 ?v (concat (map snd contents'))))"
      using Cons.IH [of ?v, OF _ rest] by simp
    then show ?thesis using w rd fl ap Some kb by (simp cong: option.case_cong)
  qed
qed

text \<open>The last, possibly short, piece and the count of pieces.\<close>

definition ends_well :: "sha1 \<Rightarrow> bytes list \<Rightarrow> nat \<times> bytes \<Rightarrow> bool" where
  "ends_well sha1 hs kb \<longleftrightarrow> (case kb of (k, b) \<Rightarrow>
     if b = [] then k = length hs else k < length hs \<and> sha1 b = hs ! k \<and> k + 1 = length hs)"

lemma verifier_finish_ends:
  "verifier_finish sha1 v = (if ends_well sha1 (pv_piece_hashes v) (pv_next_piece v, pv_buf v) then Inr () else Inl PieceVerificationFailed)"
  by (auto simp: verifier_finish_def hash_and_check_def ends_well_def)

lemma cut_pieces_map:
  "0 < P \<Longrightarrow> k \<le> length hs \<Longrightarrow>
   (case cut_pieces sha1 P hs k E of None \<Rightarrow> False | Some kb \<Rightarrow> ends_well sha1 hs kb) \<longleftrightarrow> map sha1 (chunks_of P E) = drop k hs"
proof (induction sha1 P hs k E rule: cut_pieces.induct)
  case (1 sha1 P hs k E)
  show ?case
  proof (cases "P \<le> length E")
    case True
    then have E: "E \<noteq> []" using 1 by auto
    have ch: "chunks_of P E = take P E # chunks_of P (drop P E)" using E 1(2) by (rule chunks_of_step)
    show ?thesis
    proof (cases "k < length hs \<and> sha1 (take P E) = hs ! k")
      case match: True
      then have "drop k hs = sha1 (take P E) # drop (k + 1) hs" by (simp add: Cons_nth_drop_Suc)
      then show ?thesis using 1 True match ch by (subst cut_pieces.simps) auto
    next
      case False
      then have "drop k hs \<noteq> sha1 (take P E) # zs" for zs by (metis drop_eq_Nil2 hd_drop_conv_nth list.distinct(1) list.sel(1) not_less)
      then have "map sha1 (chunks_of P E) \<noteq> drop k hs" unfolding ch list.map by metis
      then show ?thesis using 1(2) True False by (subst cut_pieces.simps) auto
    qed
  next
    case short: False
    then have c: "cut_pieces sha1 P hs k E = Some (k, E)" by (simp add: cut_pieces_short)
    have "map sha1 (chunks_of P E) = (if E = [] then [] else [sha1 E])"
      using short 1(2) by (simp add: chunks_of_step)
    moreover have "[sha1 E] = drop k hs \<longleftrightarrow> k < length hs \<and> sha1 E = hs ! k \<and> k + 1 = length hs"
      using 1(3) by (cases "k < length hs") (auto simp: Cons_nth_drop_Suc [symmetric])
    ultimately show ?thesis using c 1(3) by (auto simp: ends_well_def)
  qed
qed

lemma list_all_zip_map: "length xs = length ys \<Longrightarrow> list_all (\<lambda>(x, y). g x = y) (zip xs ys) \<longleftrightarrow> map g xs = ys"
  by (induction xs ys rule: list_induct2) auto

lemma verify_pieces_map: "verify_pieces sha1 files P hs \<longleftrightarrow> 0 < P \<and> map sha1 (chunks_of P (concat (map snd files))) = hs"
proof (cases "P = 0")
  case False
  let ?d = "concat (map snd files)"
  have l: "length (chunks_of P ?d) = div_ceil (length ?d) P" using False length_chunks_of by blast
  show ?thesis
  proof (cases "div_ceil (length ?d) P = length hs")
    case True
    then show ?thesis using False l list_all_zip_map [of "chunks_of P ?d" hs sha1] by (simp add: verify_pieces_def Let_def)
  next
    case ne: False
    then have "map sha1 (chunks_of P ?d) \<noteq> hs" using l by auto
    then show ?thesis using False ne by (simp add: verify_pieces_def Let_def)
  qed
qed (simp add: verify_pieces_def)

lemma streaming_is_verify:
  assumes "on_disk f files contents"
  shows "verify_pieces_streaming sha1 io_text f files P hs
    = Some (if verify_pieces sha1 contents P hs then Inr () else Inl PieceVerificationFailed)"
proof (cases "P = 0")
  case False
  let ?v = "verifier_new P hs"
  have v: "pv_buf ?v = []" "pv_piece_length ?v = P" "pv_piece_hashes ?v = hs" "pv_next_piece ?v = 0" by (simp_all add: verifier_new_def)
  have "feed_files sha1 io_text f ?v files = Some (fed ?v (cut_pieces sha1 P hs 0 (concat (map snd contents))))"
    using feed_files_cut [of ?v, OF _ assms] False v by simp
  moreover have "verify_pieces sha1 contents P hs \<longleftrightarrow>
      (case cut_pieces sha1 P hs 0 (concat (map snd contents)) of None \<Rightarrow> False | Some kb \<Rightarrow> ends_well sha1 hs kb)"
    using cut_pieces_map [of P 0 hs] False by (simp add: verify_pieces_map)
  ultimately show ?thesis using False v
    by (cases "cut_pieces sha1 P hs 0 (concat (map snd contents))") (auto simp: verify_pieces_streaming_def verifier_finish_ends)
qed (simp add: verify_pieces_streaming_def verify_pieces_def)

text \<open>Whatever the files are, verification ends: the partial loop is total on every buffer it meets.\<close>

lemma feed_files_total: "length (pv_buf v) < pv_piece_length v \<Longrightarrow> \<exists>r. feed_files sha1 io_text f v files = Some r"
proof (induction files arbitrary: v)
  case (Cons fl files)
  obtain name p where fl: "fl = (name, p)" by force
  show ?case
  proof (cases "fs_read f p")
    case (Inr d)
    have w: "feed_windows sha1 v (chunks_of READ_WINDOW d) = Some (fed v (cut_of sha1 v d))"
      using Cons.prems by (rule feed_content)
    show ?thesis
    proof (cases "cut_of sha1 v d")
      case (Some kb)
      obtain k b where kb: "kb = (k, b)" by force
      have "length b < pv_piece_length v" using cut_pieces_rest Some kb Cons.prems by (metis gr_zeroI less_nat_zero_code)
      then show ?thesis using Cons.IH [of "v\<lparr>pv_buf := b, pv_next_piece := k\<rparr>"] w Inr fl Some kb by simp
    qed (use w Inr fl in simp)
  qed (simp add: fl)
qed simp

lemma verify_pieces_streaming_total: "\<exists>r. verify_pieces_streaming sha1 io_text f files P hs = Some r"
  using feed_files_total [of "verifier_new P hs" sha1 io_text f files]
  by (auto simp: verify_pieces_streaming_def verifier_new_def split: sum.splits)


section \<open>What conversion and resolution return\<close>

lemma local_files_on_disk:
  "on_disk f files contents \<Longrightarrow> (\<And>p q. p \<in> snd ` set files \<Longrightarrow> p \<noteq> dir @ q) \<Longrightarrow>
   list_all2 (\<lambda>(rel, p) (rel', d). rel' = rel \<and> fs_read f p = Inr d \<and> (\<forall>q. p \<noteq> dir @ q)) files contents"
  unfolding on_disk_def list_all2_iff by (fastforce dest: set_zip_leftD)

lemma convert_Inr:
  assumes "convert X sha1 S input st f t = (Inr (m, meta), (st', f'), t')"
  obtains dl where "ts_fetch S input t = (Inr dl, t')" "td_meta dl = meta"
    "verify_pieces sha1 (td_files dl) (unat (tm_piece_length meta)) (tm_piece_hashes meta)"
    "ingest_tree X st f (td_files dl) (Some (tm_name meta)) = (Inr m, (st', f'))"
  using assms by (auto simp: convert_def split: prod.splits sum.splits if_splits)

lemma ingest_tree_manifest: "ingest_tree X st f files name = (Inr m, s) \<Longrightarrow> m = from_files X files name"
  by (auto simp: ingest_tree_def Let_def split: prod.splits sum.splits)

lemma convert_local_Inr:
  assumes "convert_local X sha1 io_text meta data_dir no_copy st f = Some (Inr m, (st', f'))"
  obtains prog where
    "verify_pieces_streaming sha1 io_text f (local_files meta data_dir) (unat (tm_piece_length meta)) (tm_piece_hashes meta) = Some (Inr ())"
    "ingest_tree_files_impl X st f (local_files meta data_dir) (Some (tm_name meta)) no_copy = (Inr m, prog, st', f')"
proof (cases "verify_pieces_streaming sha1 io_text f (local_files meta data_dir) (unat (tm_piece_length meta)) (tm_piece_hashes meta)")
  case None
  then show ?thesis using assms by (simp add: convert_local_def Let_def)
next
  case (Some r)
  obtain x prog s where i: "ingest_tree_files_impl X st f (local_files meta data_dir) (Some (tm_name meta)) no_copy = (x, prog, s)"
    by (rule prod_cases3)
  show ?thesis
  proof (cases r)
    case (Inl e)
    then show ?thesis using assms Some by (simp add: convert_local_def Let_def)
  next
    case (Inr u)
    then have "x = Inr m" "s = (st', f')" using assms Some i
      by (cases no_copy; cases x; auto simp: convert_local_def Let_def ingest_tree_files_def ingest_tree_files_no_copy_def)+
    then show ?thesis using that Some Inr i by simp
  qed
qed

lemma resolve_from_verified:
  assumes "resolve_from R X Z sched sha1 root (Some meta) ps st f n = (Inr (Some m), (st', f'), n')"
  shows "\<exists>st1 files. export_tree X st1 f' m = (Inr files, st')
    \<and> verify_pieces sha1 files (unat (tm_piece_length meta)) (tm_piece_hashes meta)"
  using assms
proof (induction ps arbitrary: st f n)
  case (Cons p ps)
  obtain r st1 f1 n1 where d: "net_download R X Z sched root p st f n = (r, (st1, f1), n1)" by (metis prod.exhaust)
  show ?case
  proof (cases r)
    case (Inl e)
    then show ?thesis using Cons.IH [of st1 f1 n1] Cons.prems d by simp
  next
    case (Inr m1)
    obtain x st2 where e: "export_tree X st1 f1 m1 = (x, st2)" by force
    show ?thesis
    proof (cases x)
      case (Inl e2)
      then show ?thesis using Cons.prems d Inr e by (simp add: recheck_def)
    next
      case files: (Inr files)
      show ?thesis
      proof (cases "verify_pieces sha1 files (unat (tm_piece_length meta)) (tm_piece_hashes meta)")
        case True
        then have "m1 = m" "st2 = st'" "f1 = f'" using Cons.prems d Inr e files by (simp_all add: recheck_def)
        then show ?thesis using True e files by blast
      next
        case False
        then show ?thesis using Cons.IH [of st2 f1 n1] Cons.prems d Inr e files by (simp add: recheck_def)
      qed
    qed
  qed
qed simp

lemma resolve_verified:
  assumes "resolve R X Z sched sha1 infohash (Some meta) st f n = (Inr (Some m), (st', f'), n')"
  shows "\<exists>st1 files. export_tree X st1 f' m = (Inr files, st')
    \<and> verify_pieces sha1 files (unat (tm_piece_length meta)) (tm_piece_hashes meta)"
  using assms resolve_from_verified by (auto simp: resolve_def split: prod.splits sum.splits option.splits)

lemma convert_local_total: "\<exists>r. convert_local X sha1 io_text meta data_dir no_copy st f = Some r"
proof -
  obtain r where "verify_pieces_streaming sha1 io_text f (local_files meta data_dir) (unat (tm_piece_length meta)) (tm_piece_hashes meta) = Some r"
    using verify_pieces_streaming_total by blast
  then show ?thesis by (cases r) (simp_all add: convert_local_def Let_def del: split_paired_Ex)
qed

lemma resolve_or_convert_local_cases:
  assumes "resolve_or_convert_local R X Z sched sha1 io_text meta data_dir no_copy st f n = Some (Inr oc, (st', f'), n')"
  obtains (hit) m where "resolve R X Z sched sha1 (tm_infohash meta) (Some meta) st f n = (Inr (Some m), (st', f'), n')"
      "oc = \<lparr>oc_manifest = m, oc_infohash = tm_infohash meta, oc_converted = False\<rparr>"
  | (miss) st1 f1 n1 m where "resolve R X Z sched sha1 (tm_infohash meta) (Some meta) st f n = (Inr None, (st1, f1), n1)"
      "convert_local X sha1 io_text meta data_dir no_copy st1 f1 = Some (Inr m, (st', f'))"
      "publish R X Z m (tm_infohash meta) n1 = (Inr (), n')"
      "oc = \<lparr>oc_manifest = m, oc_infohash = tm_infohash meta, oc_converted = True\<rparr>"
proof -
  obtain r st1 f1 n1 where r: "resolve R X Z sched sha1 (tm_infohash meta) (Some meta) st f n = (r, (st1, f1), n1)" by (metis prod.exhaust)
  consider e where "r = Inl e" | m where "r = Inr (Some m)" | "r = Inr None" by (metis option.exhaust sumE)
  then show ?thesis
  proof cases
    case 1
    then show ?thesis using assms r by (simp add: resolve_or_convert_local_def)
  next
    case 2
    then show ?thesis using hit assms r by (simp add: resolve_or_convert_local_def)
  next
    case 3
    obtain x s where c: "convert_local X sha1 io_text meta data_dir no_copy st1 f1 = Some (x, s)"
      using convert_local_total by (metis prod.exhaust)
    then obtain m where x: "x = Inr m" using assms r 3 by (cases x) (simp_all add: resolve_or_convert_local_def)
    obtain y n2 where p: "publish R X Z m (tm_infohash meta) n1 = (y, n2)" by force
    then have y: "y = Inr ()" using assms r 3 c x by (cases y) (simp_all add: resolve_or_convert_local_def)
    show ?thesis using miss [of st1 f1 n1 m] assms r 3 c x p y by (simp add: resolve_or_convert_local_def)
  qed
qed


lemma feed_files_readable: "feed_files sha1 io_text f v files = Some (Inr v') \<Longrightarrow> \<exists>contents. on_disk f files contents"
proof (induction files arbitrary: v)
  case Nil
  then show ?case by (auto simp: on_disk_def)
next
  case (Cons fl files)
  obtain name p where fl: "fl = (name, p)" by force
  obtain d v1 where d: "fs_read f p = Inr d" "feed_files sha1 io_text f v1 files = Some (Inr v')"
    using Cons.prems fl by (auto split: sum.splits option.splits)
  obtain contents where "on_disk f files contents" using Cons.IH [OF d(2)] by blast
  then have "on_disk f (fl # files) ((name, d) # contents)" using d(1) fl by (simp add: on_disk_def)
  then show ?case by blast
qed

lemma streaming_accepts:
  assumes "verify_pieces_streaming sha1 io_text f files P hs = Some (Inr ())"
  shows "\<exists>contents. on_disk f files contents \<and> verify_pieces sha1 contents P hs"
proof -
  obtain v where "feed_files sha1 io_text f (verifier_new P hs) files = Some (Inr v)"
    using assms by (auto simp: verify_pieces_streaming_def split: if_splits option.splits sum.splits)
  then obtain contents where c: "on_disk f files contents" using feed_files_readable by blast
  then show ?thesis using assms streaming_is_verify [OF c] by (auto split: if_splits)
qed

section \<open>Sample torrent\<close>

definition bridge_meta :: torrent_meta where
  "bridge_meta = \<lparr>tm_infohash = [7], tm_name = ''m'', tm_files = [\<lparr>tf_path = ''movie'', tf_length = 5\<rparr>],
     tm_piece_length = 2, tm_piece_hashes = [[1, 2], [3, 4], [5]]\<rparr>"

definition bridge_contents :: "(string \<times> bytes) list" where "bridge_contents = [(''movie'', [1, 2, 3, 4, 5])]"

definition bridge_source :: "unit torrent_source" where
  "bridge_source = \<lparr>ts_infohash = (\<lambda>_ t. (Inr [7], t)), ts_metadata = (\<lambda>_ t. (Inr None, t)),
     ts_fetch = (\<lambda>_ t. (Inr \<lparr>td_meta = bridge_meta, td_files = bridge_contents\<rparr>, t))\<rparr>"

text \<open>A network without mappings that stores every record.\<close>

definition quiet_runtime :: "command option runtime" where
  "quiet_runtime = \<lparr>rt_channel = (\<lambda>n. (0, n)), rt_send = (\<lambda>cmd n. (True, Some cmd)),
     rt_await = (\<lambda>c n. (case n of Some (CmdGetRecord _ _) \<Rightarrow> Some (ReplyRecord None)
       | Some (CmdPutRecord _ _ _) \<Rightarrow> Some (ReplyBool True) | _ \<Rightarrow> None, n))\<rparr>"

definition bridge_run where
  "bridge_run = resolve_or_convert_local quiet_runtime sample_crates tiny_codec (\<lambda>k. [0..<k]) (\<lambda>b. b) (\<lambda>_. ''io'') bridge_meta [] False
     sample_store sample_source_fs None"

definition bridge_convert where
  "bridge_convert = convert sample_crates (\<lambda>b. b) bridge_source ''x'' sample_store sample_fs ()"

definition bridge_convert_local where
  "bridge_convert_local = convert_local sample_crates (\<lambda>b. b) (\<lambda>_. ''io'') bridge_meta [] True sample_store sample_source_fs"

lemma bridge_on_disk: "on_disk sample_source_fs (local_files bridge_meta []) bridge_contents"
  unfolding on_disk_def by code_simp

lemma bridge_stream:
  "verify_pieces_streaming (\<lambda>b. b) io_text sample_source_fs (local_files bridge_meta []) (unat (tm_piece_length bridge_meta)) (tm_piece_hashes bridge_meta)
     = Some (Inr ())"
proof -
  have "verify_pieces (\<lambda>b. b) bridge_contents (unat (tm_piece_length bridge_meta)) (tm_piece_hashes bridge_meta)" by code_simp
  then show ?thesis using streaming_is_verify [OF bridge_on_disk] by simp
qed

lemma bridge_convert_local_ok:
  "\<exists>m s. convert_local sample_crates (\<lambda>b. b) (\<lambda>_. ''io'') bridge_meta [] no_copy sample_store sample_source_fs = Some (Inr m, s)"
proof -
  have "\<not> isl (fst (ingest_tree_files_no_copy sample_crates sample_store sample_source_fs (local_files bridge_meta []) (Some (tm_name bridge_meta))))"
    "\<not> isl (fst (ingest_tree_files sample_crates sample_store sample_source_fs (local_files bridge_meta []) (Some (tm_name bridge_meta))))"
    by code_simp+
  then obtain m s m' s' where
    "ingest_tree_files_no_copy sample_crates sample_store sample_source_fs (local_files bridge_meta []) (Some (tm_name bridge_meta)) = (Inr m, s)"
    "ingest_tree_files sample_crates sample_store sample_source_fs (local_files bridge_meta []) (Some (tm_name bridge_meta)) = (Inr m', s')"
    by (metis prod.collapse sum.collapse(2))
  then show ?thesis by (cases no_copy) (simp_all add: convert_local_def bridge_stream del: split_paired_Ex)
qed

lemma bridge_run_ok: "\<exists>oc s n. bridge_run = Some (Inr oc, s, n) \<and> oc_converted oc"
proof -
  obtain m s where c: "convert_local sample_crates (\<lambda>b. b) (\<lambda>_. ''io'') bridge_meta [] False sample_store sample_source_fs = Some (Inr m, s)"
    using bridge_convert_local_ok by blast
  have r: "resolve quiet_runtime sample_crates tiny_codec (\<lambda>k. [0..<k]) (\<lambda>b. b) (tm_infohash bridge_meta) (Some bridge_meta) sample_store sample_source_fs None
      = (Inr None, (sample_store, sample_source_fs), Some (CmdGetRecord (mapping_key sample_crates (tm_infohash bridge_meta)) 0))"
    by (simp add: resolve_def get_mapping_def get_record_def net_call_def net_send_def quiet_runtime_def)
  obtain n2 where "publish quiet_runtime sample_crates tiny_codec m (tm_infohash bridge_meta) n = (Inr (), n2)" for n
    by (simp add: publish_def net_provide_def to_nptp_def to_bytes_def tiny_codec_def net_send_def put_mapping_def put_record_def net_call_def quiet_runtime_def)
  then show ?thesis using c r by (simp add: bridge_run_def resolve_or_convert_local_def del: split_paired_Ex)
qed

section \<open>Properties\<close>

text \<open>
  C35. Streaming verification is piece verification: for files that can be read, however their bytes fall
  into read windows and pieces, \<open>verify_pieces_streaming\<close> ends and accepts exactly when \<open>verify_pieces\<close>
  accepts the same contents in memory; pieces that span files, a short last piece, missing and surplus
  hashes included. Its only refusal is the verification error.
\<close>

theorem streaming_verifies_same:
  assumes "on_disk f files contents"
  shows "verify_pieces_streaming sha1 io_text f files piece_length piece_hashes
    = Some (if verify_pieces sha1 contents piece_length piece_hashes then Inr () else Inl PieceVerificationFailed)"
  using assms by (rule streaming_is_verify)

theorem streaming_verifies_same_witness:
  "verify_pieces_streaming (\<lambda>b. b) (\<lambda>_. ''io'') sample_source_fs (local_files bridge_meta []) 2 [[1, 2], [3, 4], [5]] = Some (Inr ())
   \<and> verify_pieces_streaming (\<lambda>b. b) (\<lambda>_. ''io'') sample_source_fs (local_files bridge_meta []) 2 [[1, 2], [3, 4], [5], []]
     = Some (Inl PieceVerificationFailed)"
proof -
  have "verify_pieces (\<lambda>b. b) bridge_contents 2 [[1, 2], [3, 4], [5]]" "\<not> verify_pieces (\<lambda>b. b) bridge_contents 2 [[1, 2], [3, 4], [5], []]"
    by code_simp+
  then show ?thesis using streaming_verifies_same [OF bridge_on_disk] by simp
qed



text \<open>
  Converters agree on the content id: a torrent converted in memory through a \<open>TorrentSource\<close> and the same
  files converted from disk, copying or by reference, into whatever stores, give the same manifest, root
  included: the one \<open>from_files\<close> builds in the torrent's file order.
\<close>

theorem converters_agree:
  assumes "default_cdc X" "default_stream X" and "layout_of dir st2"
    and "convert X sha1 S input st1 f1 t = (Inr (m, meta), s1, t')"
    and "ts_fetch S input t = (Inr dl, t')" and "on_disk f2 (local_files meta data_dir) (td_files dl)"
    and "\<And>p q. p \<in> snd ` set (local_files meta data_dir) \<Longrightarrow> p \<noteq> dir @ q"
    and "convert_local X sha1 io_text meta data_dir no_copy st2 f2 = Some (Inr m', s2)"
  shows "m' = m \<and> m = from_files X (td_files dl) (Some (tm_name meta))"
proof -
  obtain st1' f1' where s1: "s1 = (st1', f1')" by force
  obtain st2' f2' where s2: "s2 = (st2', f2')" by force
  have "m = from_files X (td_files dl) (Some (tm_name meta))"
  proof (rule convert_Inr [OF assms(4) [unfolded s1]])
    fix dl'
    assume "ts_fetch S input t = (Inr dl', t')" "ingest_tree X st1 f1 (td_files dl') (Some (tm_name meta)) = (Inr m, st1', f1')"
    then show ?thesis using assms(5) by (auto intro: ingest_tree_manifest)
  qed
  moreover have "m' = from_files X (td_files dl) (Some (tm_name meta))"
    using convert_local_Inr [OF assms(8) [unfolded s2]]
      ingest_tree_files_from_files [OF assms(1,2,3) local_files_on_disk [OF assms(6,7)]] by metis
  ultimately show ?thesis by simp
qed

theorem converters_agree_witness:
  "\<exists>m. fst bridge_convert = Inr (m, bridge_meta) \<and> map_option fst bridge_convert_local = Some (Inr m)"
proof -
  have ok: "\<not> isl (fst bridge_convert)" "snd (projr (fst bridge_convert)) = bridge_meta" by code_simp+
  then obtain m where "fst bridge_convert = Inr (m, bridge_meta)" by (cases "fst bridge_convert") auto
  then obtain s1 where c: "bridge_convert = (Inr (m, bridge_meta), s1, ())" by (metis (full_types) old.unit.exhaust prod.collapse)
  obtain m' s2 where l: "bridge_convert_local = Some (Inr m', s2)" using bridge_convert_local_ok unfolding bridge_convert_local_def by blast
  have lay: "layout_of [''s''] sample_store" using sample_store_inv(1) by (simp add: store_inv_def)
  have out: "p \<noteq> [''s''] @ q" if "p \<in> snd ` set (local_files bridge_meta [])" for p q
  proof -
    have "local_files bridge_meta [] = [(''movie'', [''movie''])]" by code_simp
    then show ?thesis using that by auto
  qed
  have "ts_fetch bridge_source ''x'' () = (Inr \<lparr>td_meta = bridge_meta, td_files = bridge_contents\<rparr>, ())" by (simp add: bridge_source_def)
  from converters_agree [OF default_cdc_sample stream_ok_sample lay c [unfolded bridge_convert_def] this _ out l [unfolded bridge_convert_local_def]]
  have "m' = m" using bridge_on_disk by simp
  then show ?thesis unfolding c l by simp
qed

text \<open>
  Converting from disk ends: whatever the files, the pieces and the network's answers, the partial loops of
  the streamed verification all return, so \<open>resolve_or_convert_local\<close> comes back with an outcome or an error.
\<close>

theorem local_bridge_ends:
  "\<exists>result. resolve_or_convert_local R X Z sched sha1 io_text meta data_dir no_copy st f n = Some result"
proof -
  obtain r st1 f1 n1 where r: "resolve R X Z sched sha1 (tm_infohash meta) (Some meta) st f n = (r, (st1, f1), n1)" by (metis prod.exhaust)
  obtain x s where c: "convert_local X sha1 io_text meta data_dir no_copy st1 f1 = Some (x, s)"
    using convert_local_total by (metis prod.exhaust)
  show ?thesis unfolding resolve_or_convert_local_def r
    by (cases r; cases x) (simp_all add: c split: option.splits prod.splits sum.splits del: split_paired_Ex)
qed

end
