(* ===== verification/Node.thy ===== *)
theory Node
  imports Store_Clients Reputation "HOL-Library.Char_ord"
begin

text \<open>
  The node library (\<open>crates/np2ptp-node/src/lib.rs\<close> and \<open>serve_set.rs\<close>): packing, the client that downloads
  from a \<open>ChunkSource\<close>, reading and writing directory trees, and the registry of manifests a node serves.
  A chunk source is a function over a state of its own. The file-system model has regular files and
  directories only, so the branch that skips symbolic links does not arise.
\<close>

section \<open>Packing and downloading\<close>

datatype node_error =
    NodeStore store_error
  | NodeManifest manifest_error
  | NodeIo io_error
  | InvalidUsage string
  | NodeMissingChunk hash
  | NodeBadChunk nat
  | NodeUnsafePath string

text \<open>The trait \<open>ChunkSource\<close>, and its implementation by another node's store.\<close>

type_synonym 's chunk_source = "hash \<Rightarrow> 's \<Rightarrow> (node_error + bytes option) \<times> 's"

definition source_open :: "crates \<Rightarrow> fs \<Rightarrow> path \<Rightarrow> (node_error + store) \<times> fs" where
  "source_open X f dir = (case store_open X f dir of (Inl e, f') \<Rightarrow> (Inl (NodeStore e), f') | (Inr st, f') \<Rightarrow> (Inr st, f'))"

definition source_fetch :: "crates \<Rightarrow> fs \<Rightarrow> store chunk_source" where
  "source_fetch X f h st = (case get X st f h of (Inl e, st') \<Rightarrow> (Inl (NodeStore e), st') | (Inr b, st') \<Rightarrow> (Inr b, st'))"

definition pack :: "crates \<Rightarrow> bytes \<Rightarrow> string option \<Rightarrow> store \<Rightarrow> fs \<Rightarrow> (node_error + manifest) \<times> store \<times> fs" where
  "pack X data name st f = (case ingest X st f data name of (Inl e, s) \<Rightarrow> (Inl (NodeStore e), s) | (Inr m, s) \<Rightarrow> (Inr m, s))"

record download_report =
  dr_fetched :: nat
  dr_deduped :: nat

fun download_loop :: "crates \<Rightarrow> manifest \<Rightarrow> 's chunk_source \<Rightarrow> nat \<Rightarrow> nat \<Rightarrow> chunk_ref list \<Rightarrow> nat \<Rightarrow> nat \<Rightarrow> (nat \<times> nat) list
    \<Rightarrow> store \<Rightarrow> fs \<Rightarrow> 's \<Rightarrow> (node_error + download_report) \<times> (nat \<times> nat) list \<times> (store \<times> fs) \<times> 's" where
  "download_loop X m src tot i [] fetched deduped prog st f s = (Inr \<lparr>dr_fetched = fetched, dr_deduped = deduped\<rparr>, prog, (st, f), s)"
| "download_loop X m src tot i (c # cs) fetched deduped prog st f s =
     (case has X st f (cref_hash c) of
        (True, st1) \<Rightarrow> download_loop X m src tot (Suc i) cs fetched (deduped + 1) (prog @ [(i + 1, tot)]) st1 f s
      | (False, st1) \<Rightarrow> (case src (cref_hash c) s of
          (Inl e, s1) \<Rightarrow> (Inl e, prog, (st1, f), s1)
        | (Inr None, s1) \<Rightarrow> (Inl (NodeMissingChunk (cref_hash c)), prog, (st1, f), s1)
        | (Inr (Some b), s1) \<Rightarrow>
            if \<not> chunk_hash_ok X m i b then (Inl (NodeBadChunk i), prog, (st1, f), s1)
            else (case put X st1 f b of
                (Inl e, st2, f2) \<Rightarrow> (Inl (NodeStore e), prog, (st2, f2), s1)
              | (Inr _, st2, f2) \<Rightarrow>
                  download_loop X m src tot (Suc i) cs (fetched + 1) deduped (prog @ [(i + 1, tot)]) st2 f2 s1)))"

definition download_with_progress :: "crates \<Rightarrow> manifest \<Rightarrow> 's chunk_source \<Rightarrow> store \<Rightarrow> fs \<Rightarrow> 's
    \<Rightarrow> (node_error + download_report) \<times> (nat \<times> nat) list \<times> (store \<times> fs) \<times> 's" where
  "download_with_progress X m src st f s =
     (if \<not> root_is_consistent X m then (Inl (NodeBadChunk 0), [], (st, f), s)
      else download_loop X m src (length (m_chunks m)) 0 (m_chunks m) 0 0 [] st f s)"

definition download :: "crates \<Rightarrow> manifest \<Rightarrow> 's chunk_source \<Rightarrow> store \<Rightarrow> fs \<Rightarrow> 's \<Rightarrow> (node_error + download_report) \<times> (store \<times> fs) \<times> 's" where
  "download X m src st f s = (case download_with_progress X m src st f s of (r, _, d, s') \<Rightarrow> (r, d, s'))"

section \<open>Directory trees\<close>

text \<open>\<open>path.strip_prefix(base)\<close>, its components joined by slashes.\<close>

definition rel_string :: "path \<Rightarrow> path \<Rightarrow> string" where
  "rel_string base p =
     (let rel = (case strip_prefix base p of Some r \<Rightarrow> r | None \<Rightarrow> p);
          names = map (\<lambda>c. from_utf8_lossy (str_bytes c)) rel
      in concat (case names of [] \<Rightarrow> [] | n # ns \<Rightarrow> n # map (\<lambda>x. ''/'' @ x) ns))"

text \<open>
  The recursive walk of both readers; they differ in what they take of a file. Its termination rests on the
  depth of the directories: each level entered is a directory of the file system, one level deeper.
\<close>

definition depth_left :: "fs \<Rightarrow> path \<Rightarrow> nat" where
  "depth_left f d = Suc (foldr max (map length (fs_dirs f)) 0) - length d"

lemma foldr_max_ge: "x \<in> set xs \<Longrightarrow> x \<le> foldr max xs (0 :: nat)"
  by (induction xs) (auto simp: le_max_iff_disj)

function (sequential) walk :: "fs \<Rightarrow> (path \<Rightarrow> io_error + 'a) \<Rightarrow> path \<Rightarrow> path \<Rightarrow> (string \<times> 'a) list \<Rightarrow> node_error + (string \<times> 'a) list"
  and walk_entries :: "fs \<Rightarrow> (path \<Rightarrow> io_error + 'a) \<Rightarrow> path \<Rightarrow> path \<Rightarrow> (string \<times> bool) list \<Rightarrow> (string \<times> 'a) list
    \<Rightarrow> node_error + (string \<times> 'a) list" where
  "walk f leaf base dir out =
     (case fs_read_dir f dir of Inl e \<Rightarrow> Inl (NodeIo e) | Inr entries \<Rightarrow> walk_entries f leaf base dir entries out)"
| "walk_entries f leaf base dir [] out = Inr out"
| "walk_entries f leaf base dir ((name, True) # entries) out =
     (case walk f leaf base (dir @ [name]) out of Inl e \<Rightarrow> Inl e | Inr out' \<Rightarrow> walk_entries f leaf base dir entries out')"
| "walk_entries f leaf base dir ((name, False) # entries) out =
     (case leaf (dir @ [name]) of
        Inl e \<Rightarrow> Inl (NodeIo e)
      | Inr a \<Rightarrow> walk_entries f leaf base dir entries (out @ [(rel_string base (dir @ [name]), a)]))"
  by pat_completeness auto
termination
proof (relation "measures [\<lambda>x. case x of Inl (f, _, _, dir, _) \<Rightarrow> 2 * depth_left f dir
      | Inr (f, _, _, dir, _, _) \<Rightarrow> max 1 (2 * depth_left f dir - 1),
    \<lambda>x. case x of Inl _ \<Rightarrow> 0 | Inr (_, _, _, _, entries, _) \<Rightarrow> length entries]", goal_cases)
  case (2 f leaf base dir out entries)
  then have "dir \<in> set (fs_dirs f)" by (auto simp: fs_read_dir_def split: if_splits)
  then have "length dir \<le> foldr max (map length (fs_dirs f)) 0" by (intro foldr_max_ge) simp
  then have "0 < depth_left f dir" by (simp add: depth_left_def)
  then show ?case by simp
qed (auto simp: depth_left_def)

definition read_dir_tree :: "fs \<Rightarrow> path \<Rightarrow> node_error + (string \<times> bytes) list" where
  "read_dir_tree f root = (case walk f (fs_read f) root root [] of Inl e \<Rightarrow> Inl e | Inr out \<Rightarrow> Inr (sort_key fst out))"

definition read_dir_paths :: "fs \<Rightarrow> path \<Rightarrow> node_error + (string \<times> path) list" where
  "read_dir_paths f root = (case walk f Inr root root [] of Inl e \<Rightarrow> Inl e | Inr out \<Rightarrow> Inr (sort_key fst out))"

fun write_tree :: "path \<Rightarrow> (string \<times> bytes) list \<Rightarrow> fs \<Rightarrow> (node_error + unit) \<times> fs" where
  "write_tree out_dir [] f = (Inr (), f)"
| "write_tree out_dir ((rel, b) # files) f =
     (if validate_relative_path rel \<noteq> Inr () then (Inl (NodeUnsafePath rel), f)
      else let dest = join_relative out_dir rel in
        case fs_create_dir_all f (butlast dest) of
          Inl e \<Rightarrow> (Inl (NodeIo e), f)
        | Inr f1 \<Rightarrow> (case (if names_directory rel then Inl IsADirectory else fs_write f1 dest b) of
            Inl e \<Rightarrow> (Inl (NodeIo e), f1)
          | Inr f2 \<Rightarrow> write_tree out_dir files f2))"

section \<open>The manifest registry\<close>

definition manifests_dir :: "path \<Rightarrow> path" where
  "manifests_dir store_dir = store_dir @ [''manifests'']"

text \<open>\<open>Path::extension\<close> of a file name.\<close>

definition path_extension :: "string \<Rightarrow> string option" where
  "path_extension n = (case rfind_char CHR ''.'' n of None \<Rightarrow> None | Some i \<Rightarrow> if i = 0 then None else Some (drop (Suc i) n))"

fun read_manifests :: "manifest codec \<Rightarrow> fs \<Rightarrow> path list \<Rightarrow> node_error + manifest list" where
  "read_manifests Z f [] = Inr []"
| "read_manifests Z f (p # ps) =
     (case fs_read f p of Inl e \<Rightarrow> Inl (NodeIo e)
      | Inr b \<Rightarrow> (case from_nptp Z b of Inl e \<Rightarrow> Inl (NodeManifest e)
        | Inr m \<Rightarrow> (case read_manifests Z f ps of Inl e \<Rightarrow> Inl e | Inr ms \<Rightarrow> Inr (m # ms))))"

fun registered :: "manifest codec \<Rightarrow> fs \<Rightarrow> path \<Rightarrow> (string \<times> bool) list \<Rightarrow> manifest list \<times> nat" where
  "registered Z f dir [] = ([], 0)"
| "registered Z f dir ((name, _) # entries) =
     (case registered Z f dir entries of (ms, skipped) \<Rightarrow>
        if path_extension name = Some ''nptp'' then
          (case fs_read f (dir @ [name]) of Inl _ \<Rightarrow> (ms, skipped + 1)
           | Inr b \<Rightarrow> (case from_nptp Z b of Inl _ \<Rightarrow> (ms, skipped + 1) | Inr m \<Rightarrow> (m # ms, skipped)))
        else (ms, skipped))"

definition no_manifests :: "(path \<Rightarrow> string) \<Rightarrow> path \<Rightarrow> nat \<Rightarrow> string" where
  "no_manifests show_path dir skipped = ''serve --all: no registered manifests in '' @ show_path dir
     @ (if 0 < skipped then '' ('' @ show_nat skipped @ '' entries skipped, see warnings above)'' else [])"

definition collect_serve_manifests :: "manifest codec \<Rightarrow> (path \<Rightarrow> string) \<Rightarrow> fs \<Rightarrow> path list \<Rightarrow> bool \<Rightarrow> path \<Rightarrow> node_error + manifest list" where
  "collect_serve_manifests Z show_path f paths all store_dir =
     (if all \<and> paths \<noteq> [] then Inl (InvalidUsage ''serve: --all and explicit paths are mutually exclusive'')
      else if \<not> all then
        (if paths = [] then Inl (InvalidUsage ''serve: no manifest given (pass a .nptp path or --all)'')
         else read_manifests Z f paths)
      else let dir = manifests_dir store_dir;
               r = (case fs_read_dir f dir of Inl _ \<Rightarrow> ([], 0) | Inr entries \<Rightarrow> registered Z f dir entries)
        in if fst r = [] then Inl (InvalidUsage (no_manifests show_path dir (snd r))) else Inr (fst r))"

definition registry_name :: "crates \<Rightarrow> manifest \<Rightarrow> string" where
  "registry_name X m = to_hex X (m_root m) @ ''.nptp''"

definition registry_tmp :: "crates \<Rightarrow> proc \<Rightarrow> nat \<Rightarrow> manifest \<Rightarrow> string" where
  "registry_tmp X pr n m = registry_name X m @ ''.tmp-'' @ show_nat (proc_id pr) @ ''-'' @ show_nat n"

text \<open>\<open>n\<close> is the value the process-wide counter hands out.\<close>

definition register_manifest :: "crates \<Rightarrow> manifest codec \<Rightarrow> proc \<Rightarrow> nat \<Rightarrow> path \<Rightarrow> manifest \<Rightarrow> fs \<Rightarrow> (node_error + unit) \<times> fs" where
  "register_manifest X Z pr n store_dir m f =
     (let dir = manifests_dir store_dir in
      case fs_create_dir_all f dir of
        Inl e \<Rightarrow> (Inl (NodeIo e), f)
      | Inr f1 \<Rightarrow> (case to_nptp Z m of
          Inl e \<Rightarrow> (Inl (NodeManifest e), f1)
        | Inr b \<Rightarrow> (case fs_write f1 (dir @ [registry_tmp X pr n m]) b of
            Inl e \<Rightarrow> (Inl (NodeIo e), f1)
          | Inr f2 \<Rightarrow> (case fs_rename f2 (dir @ [registry_tmp X pr n m]) (dir @ [registry_name X m]) of
              Inl e \<Rightarrow> (Inl (NodeIo e), f2)
            | Inr f3 \<Rightarrow> (Inr (), f3)))))"


section \<open>What a download leaves in the store\<close>

lemma download_loop_grows:
  "download_loop X m src tot i cs fe de prog st f s = (r, prog', (st', f'), s') \<Longrightarrow> grows f f'"
proof (induction cs arbitrary: i fe de prog st f s)
  case (Cons c cs)
  obtain known st1 where h: "has X st f (cref_hash c) = (known, st1)" by force
  show ?case
  proof (cases known)
    case True
    then show ?thesis using Cons h by simp
  next
    case False
    obtain a s1 where a: "src (cref_hash c) s = (a, s1)" by force
    show ?thesis
    proof (cases "\<exists>b. a = Inr (Some b) \<and> chunk_hash_ok X m i b")
      case True
      then obtain b where b: "a = Inr (Some b)" "chunk_hash_ok X m i b" by blast
      obtain p st2 f2 where p: "put X st1 f b = (p, st2, f2)" by (rule prod_cases3)
      have "grows f f2" using p by (rule put_grows)
      moreover have "grows f2 f'" using Cons False h a b p by (cases p) auto
      ultimately show ?thesis by (rule grows_trans)
    next
      case no: False
      then show ?thesis using Cons.prems h False a by (auto split: sum.splits option.splits if_splits)
    qed
  qed
qed simp

definition small_source :: "'s chunk_source \<Rightarrow> bool" where
  "small_source src \<longleftrightarrow> (\<forall>h s b s'. src h s = (Inr (Some b), s') \<longrightarrow> length b < 2 ^ 32)"

text \<open>Every chunk of the list is held under its own hash.\<close>

definition all_held :: "crates \<Rightarrow> store \<Rightarrow> fs \<Rightarrow> chunk_ref list \<Rightarrow> bool" where
  "all_held X st f cs \<longleftrightarrow> (\<forall>c \<in> set cs. \<exists>b. holds X st f (cref_hash c) = Some b \<and> hash_of (blake3 X) b = cref_hash c)"

lemma download_loop_inv:
  assumes X: "hex_ok X" "digest_ok X" and small: "small_source src"
  shows "store_inv X dir st f \<Longrightarrow> fs_fits f' \<Longrightarrow> cs = drop i (m_chunks m) \<Longrightarrow>
    download_loop X m src tot i cs fe de prog st f s = (r, prog', (st', f'), s') \<Longrightarrow> (\<And>e. r \<noteq> Inl (NodeStore e)) \<Longrightarrow>
    store_inv X dir st' f' \<and> holds X st f \<subseteq>\<^sub>m holds X st' f'
    \<and> (\<forall>rep. r = Inr rep \<longrightarrow> all_held X st' f' cs \<and> dr_fetched rep + dr_deduped rep = fe + de + length cs
         \<and> prog' = prog @ map (\<lambda>k. (i + k + 1, tot)) [0..<length cs])"
proof (induction cs arbitrary: i fe de prog st f s)
  case Nil
  then show ?case by (auto simp: all_held_def)
next
  case (Cons c cs)
  note inv = Cons.prems(1) and dl = Cons.prems(4)
  have i: "i < length (m_chunks m)" "m_chunks m ! i = c" "cs = drop (Suc i) (m_chunks m)"
    using Cons.prems(3) by (metis drop_eq_Nil linorder_not_less list.distinct(1), metis Cons_nth_drop_Suc drop_eq_Nil linorder_not_less list.distinct(1) list.sel(1),
      metis drop_Suc list.sel(3) tl_drop)
  have up: "[0..<length (c # cs)] = 0 # map Suc [0..<length cs]" by (simp add: upt_conv_Cons map_Suc_upt del: upt_Suc)
  have step: "(prog @ [(i + 1, tot)]) @ map (\<lambda>k. (Suc i + k + 1, tot)) [0..<length cs] = prog @ map (\<lambda>k. (i + k + 1, tot)) [0..<length (c # cs)]"
    unfolding up by simp
  show ?case
  proof (cases "holds X st f (cref_hash c)")
    case (Some b)
    have "download_loop X m src tot (Suc i) cs fe (de + 1) (prog @ [(i + 1, tot)]) st f s = (r, prog', (st', f'), s')"
      using dl Some has_synced [OF inv] by simp
    note IH = Cons.IH [OF inv Cons.prems(2) i(3) this Cons.prems(5)]
    have "holds X st' f' (cref_hash c) = Some b" using IH Some by (auto simp: map_le_def dom_def)
    then show ?thesis using IH holds_hash [OF inv Some] step by (auto simp: all_held_def)
  next
    case None
    then have h: "has X st f (cref_hash c) = (False, st)" using has_synced [OF inv] by simp
    obtain a s1 where a: "src (cref_hash c) s = (a, s1)" by force
    show ?thesis
    proof (cases "\<exists>b. a = Inr (Some b) \<and> chunk_hash_ok X m i b")
      case True
      then obtain b where b: "a = Inr (Some b)" "chunk_hash_ok X m i b" by blast
      have hb: "hash_of (blake3 X) b = cref_hash c" using b(2) i(1,2) by (simp add: chunk_hash_ok_def nth_opt_def)
      obtain p st2 f2 where p: "put X st f b = (p, st2, f2)" by (rule prod_cases3)
      obtain h2 new where pr: "p = Inr (h2, new)" using dl h a b p Cons.prems(5) by (cases p) auto
      have rest: "download_loop X m src tot (Suc i) cs (fe + 1) de (prog @ [(i + 1, tot)]) st2 f2 s1 = (r, prog', (st', f'), s')"
        using dl h a b p pr by simp
      have fits: "fs_fits f2" "fs_fits f"
        using grows_fits [OF download_loop_grows [OF rest] Cons.prems(2)] grows_fits [OF put_grows [OF p]] by simp_all
      have len: "length b < 2 ^ 32" using small a b(1) unfolding small_source_def by blast
      note ok = put_ok [OF inv X len fits(2,1) p [unfolded pr]]
      note IH = Cons.IH [OF ok(2) Cons.prems(2) i(3) rest Cons.prems(5)]
      have new: "holds X st2 f2 = (holds X st f)(cref_hash c \<mapsto> b)" using ok None hb by simp
      then have "holds X st f \<subseteq>\<^sub>m holds X st2 f2" using None by (auto simp: map_le_def dom_def)
      then have le: "holds X st f \<subseteq>\<^sub>m holds X st' f'" using IH map_le_trans by blast
      have "holds X st' f' (cref_hash c) = Some b" using IH new by (auto simp: map_le_def dom_def)
      then show ?thesis using IH le hb step by (auto simp: all_held_def)
    next
      case no: False
      then have "st' = st \<and> f' = f \<and> (\<exists>e. r = Inl e)" using dl h a by (auto split: sum.splits option.splits if_splits)
      then show ?thesis using inv by auto
    qed
  qed
qed

section \<open>Trees stay below their directory\<close>

abbreviation below :: "path \<Rightarrow> path set" where
  "below out_dir \<equiv> {q. \<exists>ns. ns \<noteq> [] \<and> q = out_dir @ ns}"

lemma write_tree_below: "write_tree out_dir files f = (r, f') \<Longrightarrow> same_except (below out_dir) f f'"
proof (induction files arbitrary: f)
  case (Cons fl files)
  obtain rel b where fl: "fl = (rel, b)" by force
  let ?dest = "join_relative out_dir rel"
  show ?case
  proof (cases "validate_relative_path rel = Inr ()")
    case False
    then show ?thesis using Cons.prems fl by simp
  next
    case True
    then have ns: "?dest \<in> below out_dir" using join_relative_validated validated_pieces(1) by auto
    show ?thesis
    proof (cases "\<exists>f1 f2. fs_create_dir_all f (butlast ?dest) = Inr f1 \<and> \<not> names_directory rel \<and> fs_write f1 ?dest b = Inr f2")
      case False
      then have "f' = f \<or> fs_create_dir_all f (butlast ?dest) = Inr f'"
        using Cons.prems True fl by (auto simp: Let_def split: sum.splits if_splits)
      then show ?thesis using fs_create_dir_all_files by (fastforce simp: same_except_def)
    next
      case ok: True
      then obtain f1 f2 where f12: "fs_create_dir_all f (butlast ?dest) = Inr f1" "\<not> names_directory rel" "fs_write f1 ?dest b = Inr f2" by blast
      have "same_except (below out_dir) f f1" using fs_create_dir_all_files [OF f12(1)] by (simp add: same_except_def)
      moreover have "same_except (below out_dir) f1 f2" using fs_write_file [OF f12(3)] ns by (auto simp: same_except_def)
      moreover have "same_except (below out_dir) f2 f'" using Cons.IH [of f2] Cons.prems True fl f12 by simp
      ultimately show ?thesis by (simp add: same_except_def)
    qed
  qed
qed simp

section \<open>The registry, entry by entry\<close>

lemma rfind_char_last: "c \<notin> set ys \<Longrightarrow> rfind_char c (xs @ c # ys) = Some (length xs)"
proof -
  have none: "c \<notin> set ys \<Longrightarrow> rfind_char c ys = None" for ys by (induction ys) auto
  show "c \<notin> set ys \<Longrightarrow> rfind_char c (xs @ c # ys) = Some (length xs)" by (induction xs) (auto simp: none)
qed

lemma path_extension_last: "xs \<noteq> [] \<Longrightarrow> CHR ''.'' \<notin> set ys \<Longrightarrow> path_extension (xs @ CHR ''.'' # ys) = Some ys"
  by (simp add: path_extension_def rfind_char_last)

lemma show_nat_no_dot: "CHR ''.'' \<notin> set (show_nat n)"
proof
  assume "CHR ''.'' \<in> set (show_nat n)"
  then have "is_digit CHR ''.''" using show_nat_digits [of n] by (simp add: list_all_iff)
  then show False by (simp add: is_digit_def)
qed

lemma to_hex_nonempty: "hex_ok X \<Longrightarrow> wf_hash h \<Longrightarrow> to_hex X h \<noteq> []"
  by (metis hex_ok_def list.size(3) mult_is_0 to_hex_def wf_hash_def zero_neq_numeral)

lemma registry_name_extension: "hex_ok X \<Longrightarrow> wf_hash (m_root m) \<Longrightarrow> path_extension (registry_name X m) = Some ''nptp''"
  using path_extension_last [of "to_hex X (m_root m)" "''nptp''"] to_hex_nonempty by (simp add: registry_name_def)

lemma registry_tmp_extension: "path_extension (registry_tmp X pr n m) \<noteq> Some ''nptp''"
  using path_extension_last [of "registry_name X m" "''tmp-'' @ show_nat (proc_id pr) @ ''-'' @ show_nat n"] show_nat_no_dot
  by (simp add: registry_tmp_def registry_name_def)

lemma registered_mem:
  "(name, d) \<in> set entries \<Longrightarrow> path_extension name = Some ''nptp'' \<Longrightarrow> fs_read f (dir @ [name]) = Inr b \<Longrightarrow> from_nptp Z b = Inr m
   \<Longrightarrow> m \<in> set (fst (registered Z f dir entries))"
  by (induction entries) (auto split: prod.splits sum.splits)

lemma registered_filter:
  "registered Z f dir entries = registered Z f dir (filter (\<lambda>(n, _). path_extension n = Some ''nptp'') entries)"
  by (induction entries) auto

lemma registered_cong:
  "(\<And>n d. (n, d) \<in> set entries \<Longrightarrow> fs_read f (dir @ [n]) = fs_read f' (dir @ [n])) \<Longrightarrow>
    registered Z f dir entries = registered Z f' dir entries"
proof (induction entries)
  case (Cons e entries)
  obtain n d where e: "e = (n, d)" by force
  have "registered Z f dir entries = registered Z f' dir entries" using Cons by auto
  moreover have "fs_read f (dir @ [n]) = fs_read f' (dir @ [n])" using Cons.prems [of n d] e by simp
  ultimately show ?case using e by (simp split: prod.split)
qed simp

lemma fs_rename_file: "fs_rename f p q = Inr f' \<Longrightarrow> p \<noteq> q \<Longrightarrow>
    fs_read f' q = fs_read f p \<and> fs_dirs f' = fs_dirs f \<and> fs_denied f' = fs_denied f \<and> same_except {p, q} f f'
    \<and> hm_contains (fs_files f') q"
  by (auto simp: fs_rename_def fs_read_def fs_open_write_def same_except_def hm_contains_def split: sum.splits option.splits if_splits)

lemma read_dir_files: "fs_read_dir f d = Inr es \<Longrightarrow> hm_contains (fs_files f) (d @ [n]) \<Longrightarrow> (n, False) \<in> set es"
  by (force simp: fs_read_dir_def hm_contains_def hm_get_def map_of_eq_None_iff split: if_splits)

text \<open>A staged file, whatever its bytes, is invisible to \<open>serve --all\<close>.\<close>

lemma staged_not_served:
  assumes w: "fs_write f (dir @ [name]) b = Inr f'" and ext: "path_extension name \<noteq> Some ''nptp''"
    and es: "fs_read_dir f dir = Inr es"
  shows "\<exists>es'. fs_read_dir f' dir = Inr es' \<and> registered Z f' dir es' = registered Z f dir es"
proof -
  let ?served = "\<lambda>(n, _). path_extension n = Some ''nptp''"
  let ?names = "\<lambda>fl. map (\<lambda>p. (last p, False)) (filter (\<lambda>p. p \<noteq> [] \<and> butlast p = dir) fl)"
  have f': "fs_dirs f' = fs_dirs f" "fs_denied f' = fs_denied f" "same_except {dir @ [name]} f f'"
    using fs_write_file [OF w] by simp_all
  have keys: "map fst (fs_files f') = (if dir @ [name] \<in> set (map fst (fs_files f)) then map fst (fs_files f)
      else map fst (fs_files f) @ [dir @ [name]])"
    using w update_keys [of "dir @ [name]" b "fs_files f"] by (auto simp del: set_map simp: fs_write_def hm_insert_def split: option.splits)
  have rd: "fs_read_dir g dir = (if fs_denied g dir then Inl PermissionDenied else if dir \<notin> set (fs_dirs g) then Inl NotFound
      else Inr (?names (map fst (fs_files g)) @ map (\<lambda>p. (last p, True)) (filter (\<lambda>p. p \<noteq> [] \<and> butlast p = dir) (fs_dirs g))))" for g
    by (simp add: fs_read_dir_def filter_map comp_def case_prod_unfold)
  obtain es' where es': "fs_read_dir f' dir = Inr es'" using es unfolding rd f' by (auto split: if_splits)
  have "filter ?served es' = filter ?served es"
    using es es' ext unfolding rd f' keys by (auto split: if_splits)
  moreover have "fs_read f' (dir @ [k]) = fs_read f (dir @ [k])" if "path_extension k = Some ''nptp''" for k
  proof -
    have "k \<noteq> name" using that ext by auto
    then show ?thesis using f' by (simp add: fs_read_def same_except_def)
  qed
  then have "registered Z f' dir (filter ?served es) = registered Z f dir (filter ?served es)"
    by (intro registered_cong) auto
  ultimately show ?thesis using es' registered_filter by metis
qed

text \<open>
  The manifest registry is durable and additive: once \<open>register_manifest\<close> succeeds, \<open>serve --all\<close> on that
  store returns the manifest, along with every manifest another registry entry held before; and at no
  earlier moment of the registration, a crash in the middle of writing the staged file included, does
  \<open>serve --all\<close> see anything but the entries of before.
\<close>

theorem registered_manifest_served:
  assumes X: "hex_ok X" "wf_hash (m_root m)" and Z: "codec_ok Z m"
    and reg: "register_manifest X Z pr n store_dir m f = (Inr (), f')"
  shows "(\<exists>ms. collect_serve_manifests Z show_path f' [] True store_dir = Inr ms \<and> m \<in> set ms
      \<and> (\<forall>name es d b m'. fs_read_dir f (manifests_dir store_dir) = Inr es \<and> (name, d) \<in> set es \<and> path_extension name = Some ''nptp''
          \<and> name \<noteq> registry_name X m \<and> fs_read f (manifests_dir store_dir @ [name]) = Inr b \<and> from_nptp Z b = Inr m' \<longrightarrow> m' \<in> set ms))
    \<and> (\<forall>f1 torn f2. fs_create_dir_all f (manifests_dir store_dir) = Inr f1
          \<and> fs_write f1 (manifests_dir store_dir @ [registry_tmp X pr n m]) torn = Inr f2 \<longrightarrow>
        collect_serve_manifests Z show_path f2 [] True store_dir = collect_serve_manifests Z show_path f1 [] True store_dir)"
proof (intro conjI allI impI)
  let ?dir = "manifests_dir store_dir" and ?tmp = "registry_tmp X pr n m" and ?name = "registry_name X m"
  note ext = registry_name_extension [OF X] and tmp_ext = registry_tmp_extension [of X pr n m]
  have ne: "?tmp \<noteq> ?name" using ext tmp_ext by metis
  obtain b where b: "to_nptp Z m = Inr b" "from_nptp Z b = Inr m" using nptp_container [OF Z] by blast
  from reg b obtain f1 f2 where f12: "fs_create_dir_all f ?dir = Inr f1" "fs_write f1 (?dir @ [?tmp]) b = Inr f2"
      "fs_rename f2 (?dir @ [?tmp]) (?dir @ [?name]) = Inr f'"
    by (auto simp: register_manifest_def Let_def split: sum.splits)
  note c = fs_create_dir_all_files [OF f12(1)] and w = fs_write_file [OF f12(2)]
  have "?dir @ [?tmp] \<noteq> ?dir @ [?name]" using ne by simp
  note r = fs_rename_file [OF f12(3) this]
  have den: "\<not> fs_denied f ?dir" using f12(1) by (auto simp: fs_create_dir_all_def split: if_splits)
  have dir: "?dir \<in> set (fs_dirs f1)" using c by simp
  then obtain es' where es': "fs_read_dir f' ?dir = Inr es'" using den r w c by (auto simp: fs_read_dir_def)
  have "fs_read f2 (?dir @ [?tmp]) = Inr b" using f12(2) w by (auto simp: fs_read_def fs_write_def fs_open_write_def split: option.splits if_splits)
  then have rb: "fs_read f' (?dir @ [?name]) = Inr b" using r by simp
  have mem: "(?name, False) \<in> set es'" using read_dir_files [OF es'] r by simp
  let ?ms = "fst (registered Z f' ?dir es')"
  have m: "m \<in> set ?ms" by (rule registered_mem [OF mem ext rb b(2)])
  have kept: "m' \<in> set ?ms"
    if old: "fs_read_dir f ?dir = Inr es \<and> (name, d) \<in> set es \<and> path_extension name = Some ''nptp''
          \<and> name \<noteq> ?name \<and> fs_read f (?dir @ [name]) = Inr b' \<and> from_nptp Z b' = Inr m'" for name es d b' m'
  proof -
    have "name \<noteq> ?tmp" using old tmp_ext by auto
    then have same: "hm_get (fs_files f') (?dir @ [name]) = hm_get (fs_files f) (?dir @ [name])"
      using r w c old by (auto simp: same_except_def)
    have "?dir @ [name] \<notin> set (prefixes_of ?dir)" by (auto simp: set_prefixes_of)
    then have "fs_read f' (?dir @ [name]) = Inr b'" using old same r w c by (auto simp: fs_read_def split: if_splits)
    moreover have "hm_get (fs_files f') (?dir @ [name]) = Some b'" using same fs_read_Inr old by metis
    then have "(name, False) \<in> set es'" using read_dir_files [OF es'] by (simp add: hm_contains_def)
    ultimately show ?thesis using registered_mem old by blast
  qed
  show "\<exists>ms. collect_serve_manifests Z show_path f' [] True store_dir = Inr ms \<and> m \<in> set ms
      \<and> (\<forall>name es d b m'. fs_read_dir f ?dir = Inr es \<and> (name, d) \<in> set es \<and> path_extension name = Some ''nptp''
          \<and> name \<noteq> ?name \<and> fs_read f (?dir @ [name]) = Inr b \<and> from_nptp Z b = Inr m' \<longrightarrow> m' \<in> set ms)"
    using m kept es' by (intro exI [of _ ?ms]) (auto simp: collect_serve_manifests_def Let_def)
  show "collect_serve_manifests Z show_path g2 [] True store_dir = collect_serve_manifests Z show_path g1 [] True store_dir"
    if g: "fs_create_dir_all f ?dir = Inr g1 \<and> fs_write g1 (?dir @ [?tmp]) torn = Inr g2" for g1 torn g2
  proof -
    have "\<exists>es. fs_read_dir g1 ?dir = Inr es" using g f12(1) dir den c by (auto simp: fs_read_dir_def)
    then show ?thesis using staged_not_served [of g1 ?dir ?tmp torn g2 _ Z] g tmp_ext by (auto simp: collect_serve_manifests_def Let_def)
  qed
qed

definition sample_node_codec :: "manifest codec" where
  "sample_node_codec = \<lparr>serialize = \<lambda>_. Inr [9], deserialize = \<lambda>b. if b = [9] then Inr sample_manifest else Inl ''eof''\<rparr>"

definition sample_registered :: "(node_error + unit) \<times> fs" where
  "sample_registered = register_manifest sample_crates sample_node_codec \<lparr>proc_id = 7, proc_millis = 0\<rparr> 3 [''s''] sample_manifest empty_fs"

theorem registered_manifest_served_witness:
  "\<exists>ms. collect_serve_manifests sample_node_codec (\<lambda>_. []) (snd sample_registered) [] True [''s''] = Inr ms \<and> sample_manifest \<in> set ms"
proof -
  have "fst sample_registered = Inr ()" by code_simp
  then have r: "register_manifest sample_crates sample_node_codec \<lparr>proc_id = 7, proc_millis = 0\<rparr> 3 [''s''] sample_manifest empty_fs
      = (Inr (), snd sample_registered)" unfolding sample_registered_def by (metis prod.collapse)
  have "codec_ok sample_node_codec sample_manifest" by (simp add: codec_ok_def sample_node_codec_def)
  moreover have "wf_hash (m_root sample_manifest)" by code_simp
  ultimately show ?thesis using registered_manifest_served [OF hex_ok_sample _ _ r] by blast
qed

section \<open>The client's guarantees\<close>

text \<open>
  The node client verifies what it downloads: against any chunk source, however it answers, the store
  keeps its invariant and every block it held; a manifest whose root does not match its chunk list is refused
  before anything is asked; and a successful download leaves every chunk of the manifest in the store
  under its own hash, with fetched and deduplicated blocks adding up to the chunk count and one progress
  report per chunk, in order.
\<close>

theorem node_download_verified:
  assumes X: "hex_ok X" "digest_ok X" and inv: "store_inv X dir st f" and small: "small_source src"
    and dl: "download_with_progress X m src st f s = (r, prog, (st', f'), s')" and fits: "fs_fits f'"
    and ok: "\<And>e. r \<noteq> Inl (NodeStore e)"
  shows "store_inv X dir st' f' \<and> holds X st f \<subseteq>\<^sub>m holds X st' f'
    \<and> (\<not> root_is_consistent X m \<longrightarrow> r = Inl (NodeBadChunk 0) \<and> s' = s \<and> f' = f)
    \<and> (\<forall>rep. r = Inr rep \<longrightarrow> root_is_consistent X m \<and> all_held X st' f' (m_chunks m)
         \<and> dr_fetched rep + dr_deduped rep = length (m_chunks m)
         \<and> prog = map (\<lambda>k. (k + 1, length (m_chunks m))) [0..<length (m_chunks m)])"
proof (cases "root_is_consistent X m")
  case True
  then have "download_loop X m src (length (m_chunks m)) 0 (m_chunks m) 0 0 [] st f s = (r, prog, (st', f'), s')"
    using dl by (simp add: download_with_progress_def)
  from download_loop_inv [OF X small inv fits _ this ok] True show ?thesis by simp
next
  case False
  then show ?thesis using dl inv by (auto simp: download_with_progress_def)
qed

definition sample_source :: "unit chunk_source" where
  "sample_source h s = (Inr (if h = hash_of (blake3 sample_crates) [1, 2] then Some [1, 2] else None), s)"

definition sample_single :: manifest where
  "sample_single = from_files sample_crates [(''a'', [1, 2])] None"

definition sample_node_download :: "(node_error + download_report) \<times> (nat \<times> nat) list \<times> (store \<times> fs) \<times> unit" where
  "sample_node_download = download_with_progress sample_crates sample_single sample_source sample_store sample_fs ()"

theorem node_download_verified_witness:
  "all_held sample_crates (fst (fst (snd (snd sample_node_download)))) (snd (fst (snd (snd sample_node_download)))) (m_chunks sample_single)"
proof -
  have "\<not> isl (fst sample_node_download)" by code_simp
  then obtain rep prog st' f' s' where d: "sample_node_download = (Inr rep, prog, (st', f'), s')" by (metis prod.collapse sum.collapse(2))
  have "fs_fits (snd (fst (snd (snd sample_node_download))))" by (rule fs_fits_small) code_simp
  moreover have "small_source sample_source" by (auto simp: small_source_def sample_source_def split: if_splits)
  ultimately show ?thesis
    using node_download_verified [OF hex_ok_sample digest_ok_sample sample_store_inv(1) _ d [unfolded sample_node_download_def]] unfolding d by simp
qed

text \<open>
  \<open>write_tree\<close> is confined to its output directory: whatever the relative paths say, no file outside the
  directory is created or changed, whether the call succeeds or fails half-way.
\<close>

theorem write_tree_confined: "same_except {q. \<exists>ns. ns \<noteq> [] \<and> q = out_dir @ ns} f (snd (write_tree out_dir files f))"
  using write_tree_below [of out_dir files f "fst (write_tree out_dir files f)"] by simp

end
