(* ===== verification/Daemon_Protocol.thy ===== *)
theory Daemon_Protocol
  imports Bridge Node "HOL-Library.Sublist"
begin

text \<open>
  The line protocol of the daemon (\<open>crates/np2ptp-node/src/daemon/proto.rs\<close> and the parts of
  \<open>daemon/mod.rs\<close> that read requests and build events): requests, events as JSON values, the bounded reader
  of standard input, and the throttled progress sink. The \<open>serde_json\<close> parser and printer and the derived
  deserialisers are parameters. An event is the JSON value it prints; \<open>Value::to_string\<close> is applied where a
  line is written.
\<close>

section \<open>JSON values\<close>

datatype json_number = PosInt u64 | NegInt int | Float string

datatype json =
    JNull
  | JBool bool
  | JNumber json_number
  | JString string
  | JArray "json list"
  | JObject "(string \<times> json) list"

definition json_get :: "json \<Rightarrow> string \<Rightarrow> json option" where
  "json_get v k = (case v of JObject m \<Rightarrow> hm_get m k | _ \<Rightarrow> None)"

definition as_u64 :: "json \<Rightarrow> u64 option" where
  "as_u64 v = (case v of JNumber (PosInt n) \<Rightarrow> Some n | _ \<Rightarrow> None)"

definition as_str :: "json \<Rightarrow> string option" where
  "as_str v = (case v of JString s \<Rightarrow> Some s | _ \<Rightarrow> None)"

definition jnum :: "u64 \<Rightarrow> json" where "jnum n = JNumber (PosInt n)"

definition jlen :: "'a list \<Rightarrow> json" where "jlen xs = jnum (of_nat (length xs))"

section \<open>Requests\<close>

datatype daemon_op =
    OpFetch string string
  | OpConvert "string option" "string option" "string option"
  | OpTorrent string "string option"
  | OpProvide string
  | OpUnprovide string
  | OpStatus
  | OpShutdown

record daemon_request =
  rq_id :: u64
  rq_op :: daemon_op

text \<open>An entry of a tracker's answer (\<open>PeerEntry\<close>).\<close>

record peer_entry =
  pe_peer :: string
  pe_addrs :: "string list"
  pe_addr :: "string option"

record json_lib =
  js_parse :: "string \<Rightarrow> string + json"
  js_show :: "json \<Rightarrow> string"
  js_request :: "string \<Rightarrow> string + daemon_request"
  js_peers :: "bytes \<Rightarrow> string + peer_entry list"

definition convert_usage :: string where
  "convert_usage = ''convert requires exactly one of: torrent+data together, or path alone''"

definition parse_request :: "json_lib \<Rightarrow> string \<Rightarrow> string + daemon_request" where
  "parse_request J line =
     (case js_request J line of
        Inl e \<Rightarrow> Inl e
      | Inr req \<Rightarrow> (case rq_op req of
          OpConvert torrent data path \<Rightarrow>
            if (torrent \<noteq> None, data \<noteq> None, path \<noteq> None) \<in> {(True, True, False), (False, False, True)} then Inr req
            else Inl convert_usage
        | _ \<Rightarrow> Inr req))"

section \<open>Events\<close>

definition event_progress :: "u64 \<Rightarrow> string \<Rightarrow> u64 \<Rightarrow> u64 \<Rightarrow> json" where
  "event_progress rid op don tot =
     JObject [(''id'', jnum rid), (''event'', JString ''progress''), (''op'', JString op), (''done'', jnum don), (''total'', jnum tot)]"

text \<open>The fields are inserted after the fixed ones, so a field of the same name would replace one.\<close>

definition event_result :: "u64 \<Rightarrow> json \<Rightarrow> json" where
  "event_result rid flds =
     JObject (foldl (\<lambda>m (k, v). hm_insert k v m) [(''id'', jnum rid), (''event'', JString ''result''), (''ok'', JBool True)]
       (case flds of JObject m \<Rightarrow> m | _ \<Rightarrow> []))"

definition event_error :: "u64 \<Rightarrow> string \<Rightarrow> json" where
  "event_error rid message =
     JObject [(''id'', jnum rid), (''event'', JString ''error''), (''ok'', JBool False), (''message'', JString message)]"

definition event_ready :: "string \<Rightarrow> json" where
  "event_ready version = JObject [(''event'', JString ''ready''), (''version'', JString version)]"

definition event_warn :: "string \<Rightarrow> json" where
  "event_warn message = JObject [(''event'', JString ''warn''), (''message'', JString message)]"

definition raw_id :: "json_lib \<Rightarrow> string \<Rightarrow> u64" where
  "raw_id J line =
     (case js_parse J line of
        Inl _ \<Rightarrow> 0
      | Inr v \<Rightarrow> (case Option.bind (json_get v ''id'') as_u64 of Some n \<Rightarrow> n | None \<Rightarrow> 0))"

text \<open>The request, and what is sent to the channel.\<close>

definition handle_line :: "json_lib \<Rightarrow> string \<Rightarrow> daemon_request option \<times> json list" where
  "handle_line J line =
     (case parse_request J line of Inr req \<Rightarrow> (Some req, []) | Inl e \<Rightarrow> (None, [event_error (raw_id J line) e]))"

definition dial_fallback_value :: "json_lib \<Rightarrow> string \<Rightarrow> json option" where
  "dial_fallback_value J line =
     (case js_parse J line of
        Inl _ \<Rightarrow> None
      | Inr v \<Rightarrow> if Option.bind (json_get v ''cmd'') as_str = Some ''dial'' then Some v else None)"

definition value_id :: "json \<Rightarrow> u64" where
  "value_id v = (case Option.bind (json_get v ''id'') as_u64 of Some n \<Rightarrow> n | None \<Rightarrow> 0)"

text \<open>\<open>Display\<close> of multiaddresses and peer ids, and the parsers, are of the \<open>libp2p\<close> crate.\<close>

record addr_lib =
  ma_text :: "multiaddr \<Rightarrow> string"
  ma_parse :: "string \<Rightarrow> string + multiaddr"
  peer_text :: "peer \<Rightarrow> string"
  peer_parse :: "string \<Rightarrow> peer option"

definition addr_strs_with_peer :: "addr_lib \<Rightarrow> multiaddr list \<Rightarrow> peer \<Rightarrow> string list" where
  "addr_strs_with_peer A addrs p =
     (let suffix = ''/p2p/'' @ peer_text A p in
      map (\<lambda>a. let s = ma_text A a in if strip_suffix suffix s \<noteq> None then s else s @ suffix) addrs)"

definition ready_line :: "json_lib \<Rightarrow> addr_lib \<Rightarrow> string \<Rightarrow> peer \<Rightarrow> string list \<Rightarrow> json" where
  "ready_line J A version p addrs =
     (let base = event_ready version in
      case js_parse J (js_show J base) of
        Inr (JObject obj) \<Rightarrow>
          JObject (hm_insert ''addrs'' (JArray (map JString addrs)) (hm_insert ''peer_id'' (JString (peer_text A p)) obj))
      | _ \<Rightarrow> base)"

section \<open>Progress\<close>

text \<open>In milliseconds. A call of the sink with its clock reading; the state is the instant of the last event.\<close>

definition PROGRESS_INTERVAL :: nat where "PROGRESS_INTERVAL = 100"

definition progress_sender :: "u64 \<Rightarrow> string \<Rightarrow> nat \<Rightarrow> u64 \<Rightarrow> u64 \<Rightarrow> nat option \<Rightarrow> json list \<times> nat option" where
  "progress_sender rid op now don tot prev =
     (let due = (case prev of None \<Rightarrow> True | Some t \<Rightarrow> PROGRESS_INTERVAL \<le> now - t) in
      if tot \<le> don \<or> due then ([event_progress rid op don tot], Some now) else ([], prev))"

fun progress_run :: "u64 \<Rightarrow> string \<Rightarrow> (nat \<times> u64 \<times> u64) list \<Rightarrow> nat option \<Rightarrow> json list" where
  "progress_run rid op [] prev = []"
| "progress_run rid op ((now, don, tot) # calls) prev =
     (case progress_sender rid op now don tot prev of (evs, prev') \<Rightarrow> evs @ progress_run rid op calls prev')"

section \<open>Reading standard input\<close>

definition MAX_LINE_BYTES :: nat where "MAX_LINE_BYTES = 8 * 1024 * 1024"

text \<open>
  \<open>reader.take(lim).read_until(b'\n', buf)\<close>: what is read and what is left. Standard input is the bytes it
  delivers and whether it then fails instead of ending; an error is \<open>None\<close>.
\<close>

definition read_until :: "nat \<Rightarrow> bool \<Rightarrow> bytes \<Rightarrow> (bytes \<times> bytes) option" where
  "read_until lim fails bs =
     (let w = take lim bs; l = takeWhile (\<lambda>b. b \<noteq> 10) w in
      if length l < length w then Some (l @ [10], drop (Suc (length l)) bs)
      else if length w = lim \<or> \<not> fails then Some (w, drop lim bs)
      else None)"

lemma read_until_rest: "read_until lim fails bs = Some (buf, rest) \<Longrightarrow> buf \<noteq> [] \<Longrightarrow> length rest < length bs"
  by (auto simp: read_until_def Let_def split: if_splits)

datatype reader_event = LineRead string | LineTooLong

text \<open>Discarding the rest of an oversized line; \<open>None\<close> when the input ends before the line does.\<close>

function skip_line :: "bool \<Rightarrow> bytes \<Rightarrow> bytes option" where
  "skip_line fails bs =
     (case read_until MAX_LINE_BYTES fails bs of
        None \<Rightarrow> None
      | Some (skip, rest) \<Rightarrow> if skip = [] then None else if last skip = 10 then Some rest else skip_line fails rest)"
  by pat_completeness auto
termination
  by (relation "measure (\<lambda>(fails, bs). length bs)") (auto dest: read_until_rest)

declare skip_line.simps [simp del]

lemma skip_line_shorter: "skip_line fails bs = Some rest \<Longrightarrow> length rest < length bs"
proof (induction fails bs arbitrary: rest rule: skip_line.induct)
  case (1 fails bs)
  note eq = "1.prems" [unfolded skip_line.simps [of fails bs]]
  then obtain skip rest' where r: "read_until MAX_LINE_BYTES fails bs = Some (skip, rest')" "skip \<noteq> []"
    by (auto split: option.splits prod.splits if_splits)
  have "length rest' < length bs" by (rule read_until_rest [OF r])
  moreover have "rest = rest' \<or> skip_line fails rest' = Some rest \<and> last skip \<noteq> 10" using eq r by (auto split: if_splits)
  ultimately show ?case using "1.IH" [of "(skip, rest')" skip rest' rest] r by fastforce
qed

text \<open>What the reader thread sends while the daemon runs: lines to the main loop, overflow errors to the output.\<close>

function reader_loop :: "bool \<Rightarrow> bytes \<Rightarrow> reader_event list" where
  "reader_loop fails bs =
     (case read_until (MAX_LINE_BYTES + 1) fails bs of
        None \<Rightarrow> []
      | Some (buf, rest) \<Rightarrow>
          if buf = [] then []
          else if MAX_LINE_BYTES < length buf \<and> last buf \<noteq> 10
          then LineTooLong # (case skip_line fails rest of None \<Rightarrow> [] | Some rest' \<Rightarrow> reader_loop fails rest')
          else LineRead (from_utf8_lossy buf) # reader_loop fails rest)"
  by pat_completeness auto
termination
  by (relation "measure (\<lambda>(fails, bs). length bs)") (auto dest!: read_until_rest skip_line_shorter)

declare reader_loop.simps [simp del]

definition overflow_message :: string where
  "overflow_message = ''request line exceeds '' @ show_nat MAX_LINE_BYTES @ '' bytes '' @ [CHR 0xE2, CHR 0x80, CHR 0x94] @ '' dropped''"

text \<open>One turn of the main loop on a line: what is sent at once and the task that is spawned.\<close>

datatype daemon_task = TaskDial json | TaskExec u64 daemon_op

fun task_id :: "daemon_task \<Rightarrow> u64" where
  "task_id (TaskDial v) = value_id v"
| "task_id (TaskExec rid _) = rid"

definition on_line :: "json_lib \<Rightarrow> string \<Rightarrow> json list \<times> daemon_task option" where
  "on_line J raw =
     (let line = str_trim raw in
      if line = [] then ([], None)
      else case dial_fallback_value J line of
        Some v \<Rightarrow> ([], Some (TaskDial v))
      | None \<Rightarrow> (case handle_line J line of
          (Some req, evs) \<Rightarrow> (evs, Some (TaskExec (rq_id req) (rq_op req)))
        | (None, evs) \<Rightarrow> (evs, None)))"

section \<open>The reader finds the lines\<close>

text \<open>Specification: the terminated lines of the input, without their terminator, and what follows the last one.\<close>

fun stream_lines :: "bytes \<Rightarrow> bytes list \<times> bytes" where
  "stream_lines [] = ([], [])"
| "stream_lines (b # bs) = (case stream_lines bs of (ls, r) \<Rightarrow>
     if b = 10 then ([] # ls, r) else (case ls of [] \<Rightarrow> ([], b # r) | l # ls' \<Rightarrow> ((b # l) # ls', r)))"

lemma stream_lines_unterminated: "10 \<notin> set bs \<Longrightarrow> stream_lines bs = ([], bs)"
  by (induction bs) auto

lemma stream_lines_line: "10 \<notin> set l \<Longrightarrow> stream_lines (l @ 10 # rest) = (l # fst (stream_lines rest), snd (stream_lines rest))"
  by (induction l) (auto split: prod.split)

lemma takeWhile_nl: "10 \<notin> set l \<Longrightarrow> takeWhile (\<lambda>b. b \<noteq> 10) (l @ (10 :: u8) # rest) = l"
  by (induction l) auto

lemma takeWhile_all: "10 \<notin> set l \<Longrightarrow> takeWhile (\<lambda>b. b \<noteq> (10 :: u8)) l = l"
  by (induction l) auto

lemma read_until_line: "10 \<notin> set l \<Longrightarrow> length l < lim \<Longrightarrow> read_until lim fails (l @ 10 # rest) = Some (l @ [10], rest)"
  using takeWhile_nl [of l "take (lim - Suc (length l)) rest"]
  by (simp add: read_until_def Let_def take_Cons')

lemma read_until_full: "10 \<notin> set (take lim bs) \<Longrightarrow> lim \<le> length bs \<Longrightarrow> read_until lim fails bs = Some (take lim bs, drop lim bs)"
  by (simp add: read_until_def Let_def takeWhile_all)

lemma read_until_end: "10 \<notin> set bs \<Longrightarrow> length bs < lim \<Longrightarrow> read_until lim fails bs = (if fails then None else Some (bs, []))"
  by (simp add: read_until_def Let_def takeWhile_all)

lemma max_line_pos: "0 < MAX_LINE_BYTES"
  by (simp add: MAX_LINE_BYTES_def)

lemma skip_line_full:
  assumes "10 \<notin> set (take MAX_LINE_BYTES bs)" and "MAX_LINE_BYTES \<le> length bs"
  shows "skip_line fails bs = skip_line fails (drop MAX_LINE_BYTES bs)"
proof -
  have "take MAX_LINE_BYTES bs \<noteq> []" using assms(2) max_line_pos by auto
  moreover from this have "last (take MAX_LINE_BYTES bs) \<noteq> 10" using assms(1) last_in_set by metis
  ultimately show ?thesis using read_until_full [OF assms] by (simp add: skip_line.simps [of fails bs])
qed

lemma skip_line_line: "10 \<notin> set l \<Longrightarrow> skip_line fails (l @ 10 # rest) = Some rest"
proof (induction l rule: length_induct)
  case (1 l)
  show ?case
  proof (cases "length l < MAX_LINE_BYTES")
    case True
    then show ?thesis using read_until_line [OF "1.prems" True] by (simp add: skip_line.simps [of fails "l @ 10 # rest"])
  next
    case False
    then have "take MAX_LINE_BYTES (l @ 10 # rest) = take MAX_LINE_BYTES l" "drop MAX_LINE_BYTES (l @ 10 # rest) = drop MAX_LINE_BYTES l @ 10 # rest"
      by simp_all
    moreover have "10 \<notin> set (take MAX_LINE_BYTES l)" "10 \<notin> set (drop MAX_LINE_BYTES l)"
      using "1.prems" in_set_takeD in_set_dropD by fast+
    moreover have "length (drop MAX_LINE_BYTES l) < length l" using False max_line_pos by simp
    ultimately show ?thesis using "1.IH" skip_line_full [of "l @ 10 # rest" fails] False by (metis append_Cons length_append linorder_not_less trans_le_add1)
  qed
qed

lemma skip_line_end: "10 \<notin> set l \<Longrightarrow> skip_line fails l = None"
proof (induction l rule: length_induct)
  case (1 l)
  show ?case
  proof (cases "length l < MAX_LINE_BYTES")
    case True
    have "l \<noteq> [] \<Longrightarrow> last l \<noteq> 10" using "1.prems" last_in_set by metis
    moreover have "skip_line fails [] = None" using read_until_end [of "[]" MAX_LINE_BYTES fails] max_line_pos
      by (auto simp: skip_line.simps [of fails "[]"])
    ultimately show ?thesis using read_until_end [OF "1.prems" True] by (auto simp: skip_line.simps [of fails l])
  next
    case False
    moreover have "10 \<notin> set (take MAX_LINE_BYTES l)" "10 \<notin> set (drop MAX_LINE_BYTES l)"
      using "1.prems" in_set_takeD in_set_dropD by fast+
    moreover have "length (drop MAX_LINE_BYTES l) < length l" using False max_line_pos by simp
    ultimately show ?thesis using "1.IH" skip_line_full [of l fails] by simp
  qed
qed

lemma read_until_long:
  assumes "10 \<notin> set l" and "MAX_LINE_BYTES < length l"
  obtains buf l' where "l = buf @ l'" "10 \<notin> set l'" "buf \<noteq> []" "last buf \<noteq> 10" "length buf = MAX_LINE_BYTES + 1"
    "\<And>rest. read_until (MAX_LINE_BYTES + 1) fails (l @ rest) = Some (buf, l' @ rest)"
proof
  let ?buf = "take (MAX_LINE_BYTES + 1) l"
  show "l = ?buf @ drop (MAX_LINE_BYTES + 1) l" by simp
  have set: "10 \<notin> set ?buf" "10 \<notin> set (drop (MAX_LINE_BYTES + 1) l)" using assms(1) in_set_takeD in_set_dropD by fast+
  show "10 \<notin> set (drop (MAX_LINE_BYTES + 1) l)" by (rule set)
  show ne: "?buf \<noteq> []" using assms(2) by auto
  show "last ?buf \<noteq> 10" using set ne last_in_set by metis
  show len: "length ?buf = MAX_LINE_BYTES + 1" using assms(2) by simp
  show "read_until (MAX_LINE_BYTES + 1) fails (l @ rest) = Some (?buf, drop (MAX_LINE_BYTES + 1) l @ rest)" for rest
    using read_until_full [of "MAX_LINE_BYTES + 1" "l @ rest" fails] set(1) assms(2) by simp
qed

definition line_event :: "bytes \<Rightarrow> reader_event" where
  "line_event l = (if length l \<le> MAX_LINE_BYTES then LineRead (from_utf8_lossy (l @ [10])) else LineTooLong)"

definition tail_events :: "bool \<Rightarrow> bytes \<Rightarrow> reader_event list" where
  "tail_events fails r =
     (if r = [] then [] else if MAX_LINE_BYTES < length r then [LineTooLong] else if fails then [] else [LineRead (from_utf8_lossy r)])"

lemma reader_loop_line:
  assumes "10 \<notin> set l"
  shows "reader_loop fails (l @ 10 # rest) = line_event l # reader_loop fails rest"
proof (cases "length l \<le> MAX_LINE_BYTES")
  case True
  then show ?thesis using read_until_line [OF assms, of "MAX_LINE_BYTES + 1" fails rest]
    by (simp add: reader_loop.simps [of fails "l @ 10 # rest"] line_event_def)
next
  case False
  then obtain buf l' where b: "l = buf @ l'" "10 \<notin> set l'" "buf \<noteq> []" "last buf \<noteq> 10" "length buf = MAX_LINE_BYTES + 1"
    "\<And>rest. read_until (MAX_LINE_BYTES + 1) fails (l @ rest) = Some (buf, l' @ rest)"
    using read_until_long [OF assms] by (metis not_le)
  show ?thesis using skip_line_line [OF b(2)] False b(3-5) b(6) [of "10 # rest"]
    by (simp add: reader_loop.simps [of fails "l @ 10 # rest"] line_event_def)
qed

lemma reader_loop_tail:
  assumes "10 \<notin> set r"
  shows "reader_loop fails r = tail_events fails r"
proof (cases "length r \<le> MAX_LINE_BYTES")
  case True
  have "reader_loop b [] = []" for b
    using read_until_end [of "[]" "MAX_LINE_BYTES + 1" b] by (simp add: reader_loop.simps [of b "[]"])
  then show ?thesis using read_until_end [OF assms, of "MAX_LINE_BYTES + 1" fails] True
    by (simp add: reader_loop.simps [of fails r] tail_events_def)
next
  case False
  then obtain buf l' where b: "r = buf @ l'" "10 \<notin> set l'" "buf \<noteq> []" "last buf \<noteq> 10" "length buf = MAX_LINE_BYTES + 1"
    "\<And>rest. read_until (MAX_LINE_BYTES + 1) fails (r @ rest) = Some (buf, l' @ rest)"
    using read_until_long [OF assms] by (metis not_le)
  show ?thesis using skip_line_end [OF b(2)] b(3-5) b(6) [of "[]"] False by (auto simp: reader_loop.simps [of fails r] tail_events_def)
qed

text \<open>
  C37. The bounded reader cuts standard input exactly at its line ends: for every input, ended or failing,
  each line of at most \<open>MAX_LINE_BYTES\<close> bytes reaches the main loop whole, each longer line is reported
  once and skipped entirely, so the next request starts on a real line boundary, and an unterminated
  last line is delivered when the input ends (and dropped when it fails).
\<close>

theorem stdin_framed:
  "reader_loop fails bs = map line_event (fst (stream_lines bs)) @ tail_events fails (snd (stream_lines bs))"
proof (induction bs rule: length_induct)
  case (1 bs)
  show ?case
  proof (cases "10 \<in> set bs")
    case True
    then obtain l rest where bs: "bs = l @ 10 # rest" "10 \<notin> set l" by (meson split_list_first)
    then show ?thesis using 1 [rule_format, of rest] by (simp add: reader_loop_line stream_lines_line)
  next
    case False
    then show ?thesis by (simp add: reader_loop_tail stream_lines_unterminated)
  qed
qed

section \<open>Progress is throttled\<close>

lemma progress_run_selects:
  assumes "sorted (map fst calls)" and "\<And>c. c \<in> set calls \<Longrightarrow> t \<le> fst c \<and> fst c \<le> e" and "t \<le> e"
  shows "\<exists>sel. subseq sel calls \<and> progress_run rid op calls (Some t) = map (\<lambda>(_, don, tot). event_progress rid op don tot) sel
    \<and> filter (\<lambda>(_, don, tot). tot \<le> don) sel = filter (\<lambda>(_, don, tot). tot \<le> don) calls
    \<and> PROGRESS_INTERVAL * length (filter (\<lambda>(_, don, tot). don < tot) sel) \<le> e - t"
  using assms
proof (induction calls arbitrary: t)
  case (Cons c calls)
  obtain now don tot where c: "c = (now, don, tot)" by (rule prod_cases3)
  have b: "t \<le> now" "now \<le> e" "\<And>x. x \<in> set calls \<Longrightarrow> now \<le> fst x \<and> fst x \<le> e"
    using Cons.prems(1) Cons.prems(2) [of c] Cons.prems(2) c by auto
  show ?case
  proof (cases "tot \<le> don \<or> PROGRESS_INTERVAL \<le> now - t")
    case True
    from Cons.IH [of now] Cons.prems b obtain sel where sel: "subseq sel calls"
      "progress_run rid op calls (Some now) = map (\<lambda>(_, don, tot). event_progress rid op don tot) sel"
      "filter (\<lambda>(_, don, tot). tot \<le> don) sel = filter (\<lambda>(_, don, tot). tot \<le> don) calls"
      "PROGRESS_INTERVAL * length (filter (\<lambda>(_, don, tot). don < tot) sel) \<le> e - now" by auto
    have "PROGRESS_INTERVAL * length (filter (\<lambda>(_, don, tot). don < tot) (c # sel)) \<le> e - t"
      using sel(4) b True c by (auto simp: not_le [symmetric] algebra_simps)
    then show ?thesis using sel True c by (intro exI [of _ "c # sel"]) (auto simp: progress_sender_def)
  next
    case False
    from Cons.IH [of t] Cons.prems b obtain sel where sel: "subseq sel calls"
      "progress_run rid op calls (Some t) = map (\<lambda>(_, don, tot). event_progress rid op don tot) sel"
      "filter (\<lambda>(_, don, tot). tot \<le> don) sel = filter (\<lambda>(_, don, tot). tot \<le> don) calls"
      "PROGRESS_INTERVAL * length (filter (\<lambda>(_, don, tot). don < tot) sel) \<le> e - t" by fastforce
    then show ?thesis using False c by (intro exI [of _ sel]) (auto simp: progress_sender_def)
  qed
qed simp

text \<open>
  Progress is throttled and completion is never lost: on a clock that does not run backwards, the events
  of an operation are those of a subsequence of its progress calls that contains every completion call, and
  a run of progress calls lasting \<open>T\<close> milliseconds sends at most \<open>T / 100 + 1\<close> events that are not completions,
  however many calls there are.
\<close>

theorem progress_throttled:
  assumes "sorted (map fst calls)" and "calls \<noteq> []"
  shows "\<exists>sel. subseq sel calls \<and> progress_run rid op calls None = map (\<lambda>(_, don, tot). event_progress rid op don tot) sel
    \<and> filter (\<lambda>(_, don, tot). tot \<le> don) sel = filter (\<lambda>(_, don, tot). tot \<le> don) calls
    \<and> length (filter (\<lambda>(_, don, tot). don < tot) sel) \<le> (fst (last calls) - fst (hd calls)) div 100 + 1"
proof -
  obtain c cs where calls: "calls = c # cs" using assms(2) by (cases calls) auto
  obtain now don tot where c: "c = (now, don, tot)" by (rule prod_cases3)
  let ?e = "fst (last calls)"
  have e: "fst x \<le> ?e" if "x \<in> set calls" for x
  proof -
    have "sorted (map fst (butlast calls @ [last calls]))" "x \<in> set (butlast calls @ [last calls])" using assms that by simp_all
    then show ?thesis by (auto simp: sorted_append)
  qed
  from progress_run_selects [of cs now ?e rid op] assms(1) calls c e obtain sel where sel: "subseq sel cs"
    "progress_run rid op cs (Some now) = map (\<lambda>(_, don, tot). event_progress rid op don tot) sel"
    "filter (\<lambda>(_, don, tot). tot \<le> don) sel = filter (\<lambda>(_, don, tot). tot \<le> don) cs"
    "PROGRESS_INTERVAL * length (filter (\<lambda>(_, don, tot). don < tot) sel) \<le> ?e - now" by fastforce
  have "length (filter (\<lambda>(_, don, tot). don < tot) sel) \<le> (?e - now) div 100"
    using sel(4) by (simp add: PROGRESS_INTERVAL_def less_eq_div_iff_mult_less_eq mult.commute)
  then have "length (filter (\<lambda>(_, don, tot). don < tot) (c # sel)) \<le> (?e - fst (hd calls)) div 100 + 1" using calls c by auto
  then show ?thesis using sel calls c by (intro exI [of _ "c # sel"]) (auto simp: progress_sender_def)
qed

theorem progress_throttled_witness:
  "length (progress_run 5 ''fetch'' [(0, 0, 3), (10, 1, 3), (20, 2, 3), (30, 3, 3)] None) = 2
   \<and> (\<exists>sel :: (nat \<times> u64 \<times> u64) list. progress_run 5 ''fetch'' [(0, 0, 3), (10, 1, 3), (20, 2, 3), (30, 3, 3)] None
        = map (\<lambda>(_, don, tot). event_progress 5 ''fetch'' don tot) sel)"
proof
  show "length (progress_run 5 ''fetch'' [(0, 0, 3), (10, 1, 3), (20, 2, 3), (30, 3, 3)] None) = 2" by code_simp
  have "sorted (map fst [(0 :: nat, 0 :: u64, 3 :: u64), (10, 1, 3), (20, 2, 3), (30, 3, 3)])" by simp
  from progress_throttled [OF this list.simps(3), of 5 "''fetch''"]
  show "\<exists>sel :: (nat \<times> u64 \<times> u64) list. progress_run 5 ''fetch'' [(0, 0, 3), (10, 1, 3), (20, 2, 3), (30, 3, 3)] None
        = map (\<lambda>(_, don, tot). event_progress 5 ''fetch'' don tot) sel" by blast
qed

end
