(* ===== verification/Daemon.thy ===== *)
theory Daemon
  imports Daemon_Protocol Downloads
begin

text \<open>
  The daemon (\<open>crates/np2ptp-node/src/daemon/mod.rs\<close>): the operations a request starts, over the node's
  store, file system, network handle and registry, and the daemon as a transition system of lines, tasks
  and events. The HTTP client, the clock, the path resolution of the operating system and the error texts
  (\<open>Display\<close>) are parameters; so is \<open>librqbit\<close>, absent in a build without the feature.
\<close>

section \<open>The daemon's environment and state\<close>

text \<open>
  \<open>de_now k\<close> is the \<open>k\<close>-th reading of the clock, in milliseconds; \<open>de_sleep\<close> is what the network does meanwhile.
  An HTTP response that passed \<open>error_for_status\<close> is its body in chunks and the error that ends it, if any.
\<close>

record ('n, 'q) daemon_env =
  de_rt :: "'n runtime"
  de_peer :: peer
  de_crates :: crates
  de_manifest :: "manifest codec"
  de_sched :: "nat \<Rightarrow> nat list"
  de_sha1 :: sha1
  de_json :: json_lib
  de_addr :: addr_lib
  de_rqbit :: "'q rqbit option"
  de_proc :: proc
  de_path :: "string \<Rightarrow> path"
  de_show_path :: "path \<Rightarrow> string"
  de_store_dir :: path
  de_tracker :: string
  de_now :: "nat \<Rightarrow> nat"
  de_sleep :: "nat \<Rightarrow> 'n \<Rightarrow> 'n"
  de_http_get :: "string \<Rightarrow> 'n \<Rightarrow> (string + bytes list \<times> string option) \<times> 'n"
  de_http_post :: "string \<Rightarrow> json \<Rightarrow> 'n \<Rightarrow> (string + unit) \<times> 'n"
  de_io_text :: "io_error \<Rightarrow> string"
  de_hex_text :: "from_hex_error \<Rightarrow> string"
  de_store_text :: "store_error \<Rightarrow> string"
  de_manifest_text :: "manifest_error \<Rightarrow> string"
  de_net_text :: "net_error \<Rightarrow> string"
  de_bridge_text :: "bridge_error \<Rightarrow> string"
  de_node_text :: "node_error \<Rightarrow> string"

text \<open>\<open>ds_sent\<close> is what an operation has sent to the output channel so far.\<close>

record ('n, 'q) daemon_state =
  ds_store :: store
  ds_fs :: fs
  ds_net :: 'n
  ds_rqbit :: 'q
  ds_announces :: "(hash, nat) hmap"
  ds_handles :: nat
  ds_aborted :: "nat list"
  ds_shutdown :: bool
  ds_counter :: nat
  ds_clock :: nat
  ds_sent :: "json list"

definition send :: "json list \<Rightarrow> ('n, 'q) daemon_state \<Rightarrow> ('n, 'q) daemon_state" where
  "send evs s = s\<lparr>ds_sent := ds_sent s @ evs\<rparr>"

definition err_text :: "('e \<Rightarrow> string) \<Rightarrow> 'e + 'a \<Rightarrow> string + 'a" where
  "err_text t r = (case r of Inl e \<Rightarrow> Inl (t e) | Inr a \<Rightarrow> Inr a)"

definition read_clock :: "('n, 'q) daemon_env \<Rightarrow> ('n, 'q) daemon_state \<Rightarrow> nat \<times> ('n, 'q) daemon_state" where
  "read_clock D s = (de_now D (ds_clock s), s\<lparr>ds_clock := Suc (ds_clock s)\<rparr>)"

definition report :: "('n, 'q) daemon_env \<Rightarrow> u64 \<Rightarrow> string \<Rightarrow> u64 \<Rightarrow> u64 \<Rightarrow> nat option \<Rightarrow> ('n, 'q) daemon_state \<Rightarrow> nat option \<times> ('n, 'q) daemon_state" where
  "report D rid op don tot prev s =
     (case read_clock D s of (now, s1) \<Rightarrow> case progress_sender rid op now don tot prev of (evs, prev') \<Rightarrow> (prev', send evs s1))"

fun report_all :: "('n, 'q) daemon_env \<Rightarrow> u64 \<Rightarrow> string \<Rightarrow> (u64 \<times> u64) list \<Rightarrow> nat option \<Rightarrow> ('n, 'q) daemon_state \<Rightarrow> ('n, 'q) daemon_state" where
  "report_all D rid op [] prev s = s"
| "report_all D rid op ((don, tot) # calls) prev s =
     (case report D rid op don tot prev s of (prev', s') \<Rightarrow> report_all D rid op calls prev' s')"

definition u64_pairs :: "(nat \<times> nat) list \<Rightarrow> (u64 \<times> u64) list" where
  "u64_pairs = map (\<lambda>(a, b). (of_nat a, of_nat b))"

section \<open>The tracker client\<close>

definition TRACKER_MAX_BODY :: nat where "TRACKER_MAX_BODY = 4 * 1024 * 1024"

fun read_body :: "bytes list \<Rightarrow> string option \<Rightarrow> bytes \<Rightarrow> string + bytes" where
  "read_body [] err body = (case err of Some e \<Rightarrow> Inl e | None \<Rightarrow> Inr body)"
| "read_body (c # cs) err body =
     (if TRACKER_MAX_BODY < length body + length c
      then Inl (''tracker response exceeds '' @ show_nat TRACKER_MAX_BODY @ '' bytes'')
      else read_body cs err (body @ c))"

definition entry_addrs :: "addr_lib \<Rightarrow> peer_entry \<Rightarrow> multiaddr list" where
  "entry_addrs A entry =
     (let ok = \<lambda>a. case ma_parse A a of Inl _ \<Rightarrow> [] | Inr m \<Rightarrow> [m] in
      concat (map ok (pe_addrs entry)) @ (case pe_addr entry of None \<Rightarrow> [] | Some a \<Rightarrow> ok a))"

fun tracker_candidates :: "addr_lib \<Rightarrow> peer_entry list \<Rightarrow> (peer \<times> multiaddr list) list" where
  "tracker_candidates A [] = []"
| "tracker_candidates A (entry # entries) =
     (case peer_parse A (pe_peer entry) of
        None \<Rightarrow> tracker_candidates A entries
      | Some p \<Rightarrow> (if entry_addrs A entry = [] then [] else [(p, entry_addrs A entry)]) @ tracker_candidates A entries)"

definition tracker_get_peers :: "('n, 'q) daemon_env \<Rightarrow> hash \<Rightarrow> 'n \<Rightarrow> (string + (peer \<times> multiaddr list) list) \<times> 'n" where
  "tracker_get_peers D cid n =
     (case de_http_get D (de_tracker D @ ''/peers?cid='' @ to_hex (de_crates D) cid) n of
        (Inl e, n') \<Rightarrow> (Inl e, n')
      | (Inr (chunks, err), n') \<Rightarrow>
          (case read_body chunks err [] of
             Inl e \<Rightarrow> Inl e
           | Inr body \<Rightarrow> (case js_peers (de_json D) body of
               Inl e \<Rightarrow> Inl e
             | Inr entries \<Rightarrow> Inr (tracker_candidates (de_addr D) entries)), n'))"

definition tracker_announce :: "('n, 'q) daemon_env \<Rightarrow> hash \<Rightarrow> peer \<Rightarrow> multiaddr list \<Rightarrow> 'n \<Rightarrow> (string + unit) \<times> 'n" where
  "tracker_announce D cid p addrs n =
     de_http_post D (de_tracker D @ ''/announce'')
       (JObject [(''cid'', JString (to_hex (de_crates D) cid)), (''peer'', JString (peer_text (de_addr D) p)),
          (''addrs'', JArray (map JString (addr_strs_with_peer (de_addr D) addrs p)))]) n"

section \<open>Fetch\<close>

definition SCHEME_PREFIX :: string where "SCHEME_PREFIX = ''np2ptp:''"

definition fetch_root :: "('n, 'q) daemon_env \<Rightarrow> fs \<Rightarrow> string \<Rightarrow> string + hash" where
  "fetch_root D f u =
     (case strip_prefix SCHEME_PREFIX u of
        Some hex \<Rightarrow> err_text (de_hex_text D) (from_hex (de_crates D) hex)
      | None \<Rightarrow> (case fs_read f (de_path D u) of
          Inl e \<Rightarrow> Inl (de_io_text D e)
        | Inr b \<Rightarrow> (case from_nptp (de_manifest D) b of Inl e \<Rightarrow> Inl (de_manifest_text D e) | Inr m \<Rightarrow> Inr (m_root m))))"

text \<open>\<open>add_peer\<close>, then \<open>dial\<close>, for every address of every candidate; their results are dropped.\<close>

definition connect_to :: "('n, 'q) daemon_env \<Rightarrow> (peer \<times> multiaddr list) list \<Rightarrow> 'n \<Rightarrow> 'n" where
  "connect_to D candidates n =
     foldl (\<lambda>n (p, addrs). foldl (\<lambda>n a. snd (net_dial (de_rt D) a (snd (net_add_peer (de_rt D) p a n)))) n addrs) n candidates"

definition discover :: "('n, 'q) daemon_env \<Rightarrow> hash \<Rightarrow> ('n, 'q) daemon_state \<Rightarrow> peer list \<times> ('n, 'q) daemon_state" where
  "discover D root s =
     (case tracker_get_peers D root (ds_net s) of
        (Inr candidates, n) \<Rightarrow> (map fst candidates, s\<lparr>ds_net := connect_to D candidates n\<rparr>)
      | (Inl e, n) \<Rightarrow> ([], send [event_warn (''tracker lookup failed: '' @ e)] (s\<lparr>ds_net := n\<rparr>)))"

definition connected_or_none :: "('n, 'q) daemon_env \<Rightarrow> 'n \<Rightarrow> peer list \<times> 'n" where
  "connected_or_none D n = (case connected_peers (de_rt D) n of (Inl _, n') \<Rightarrow> ([], n') | (Inr ps, n') \<Rightarrow> (ps, n'))"

definition settled :: "peer list \<Rightarrow> peer list \<Rightarrow> bool" where
  "settled discovered connected =
     (if discovered = [] then connected \<noteq> []
      else if list_ex (\<lambda>p. p \<in> set connected) discovered then True
      else connected \<noteq> [])"

fun settle :: "('n, 'q) daemon_env \<Rightarrow> peer list \<Rightarrow> nat \<Rightarrow> peer list \<Rightarrow> 'n \<Rightarrow> peer list \<times> 'n" where
  "settle D discovered 0 connected n = (connected, n)"
| "settle D discovered (Suc k) connected n =
     (if settled discovered connected then (connected, n)
      else case connected_or_none D (de_sleep D 50 n) of (connected', n') \<Rightarrow> settle D discovered k connected' n')"

definition fetch_providers :: "peer list \<Rightarrow> peer list \<Rightarrow> peer list" where
  "fetch_providers discovered connected = foldl (\<lambda>ps p. if p \<in> set ps then ps else ps @ [p]) discovered connected"

text \<open>The progress callback of the download: a completion is passed on once per operation.\<close>

fun fetch_progress :: "('n, 'q) daemon_env \<Rightarrow> u64 \<Rightarrow> (nat \<times> nat) list \<Rightarrow> bool \<Rightarrow> nat option \<Rightarrow> ('n, 'q) daemon_state
    \<Rightarrow> bool \<times> nat option \<times> ('n, 'q) daemon_state" where
  "fetch_progress D rid [] sent_complete prev s = (sent_complete, prev, s)"
| "fetch_progress D rid ((don, tot) # calls) sent_complete prev s =
     (if don = tot \<and> 0 < tot \<and> sent_complete then fetch_progress D rid calls sent_complete prev s
      else case report D rid ''fetch'' (of_nat don) (of_nat tot) prev s of (prev', s') \<Rightarrow>
        fetch_progress D rid calls (sent_complete \<or> don = tot \<and> 0 < tot) prev' s')"

definition attempt_download :: "('n, 'q) daemon_env \<Rightarrow> u64 \<Rightarrow> hash \<Rightarrow> peer list \<Rightarrow> bool \<Rightarrow> nat option \<Rightarrow> ('n, 'q) daemon_state
    \<Rightarrow> (net_error + manifest) \<times> bool \<times> nat option \<times> ('n, 'q) daemon_state" where
  "attempt_download D rid root providers sent_complete prev s =
     (case download_multi_with_progress (de_rt D) (de_crates D) (de_manifest D) (de_sched D) root providers (ds_store s) (ds_fs s) (ds_net s) of
        (r, (st', f', prog), n') \<Rightarrow> (r, fetch_progress D rid prog sent_complete prev (s\<lparr>ds_store := st', ds_fs := f', ds_net := n'\<rparr>)))"

fun fetch_attempts :: "('n, 'q) daemon_env \<Rightarrow> u64 \<Rightarrow> hash \<Rightarrow> peer list \<Rightarrow> nat \<Rightarrow> nat \<Rightarrow> nat \<Rightarrow> string \<Rightarrow> bool \<Rightarrow> nat option
    \<Rightarrow> ('n, 'q) daemon_state \<Rightarrow> (string + manifest) \<times> ('n, 'q) daemon_state" where
  "fetch_attempts D rid root providers deadline 0 attempt last_err sent_complete prev s = (Inl last_err, s)"
| "fetch_attempts D rid root providers deadline (Suc left) attempt last_err sent_complete prev s =
     (let (late, s1) = (if 0 < attempt then case read_clock D s of (now, s') \<Rightarrow> (deadline \<le> now, s') else (False, s)) in
      if late then (Inl last_err, s1)
      else
        let s2 = (if 0 < attempt then s1\<lparr>ds_net := de_sleep D (50 * 2 ^ (attempt - 1)) (ds_net s1)\<rparr> else s1) in
        case attempt_download D rid root providers sent_complete prev s2 of
          (Inr m, _, _, s3) \<Rightarrow> (Inr m, s3)
        | (Inl e, sent_complete', prev', s3) \<Rightarrow>
            fetch_attempts D rid root providers deadline left (Suc attempt) (de_net_text D e) sent_complete' prev' s3)"

definition looks_like_tree :: "manifest \<Rightarrow> bool" where
  "looks_like_tree m = (1 < length (m_files m) \<or> (case m_files m of [] \<Rightarrow> False | e # _ \<Rightarrow> CHR ''/'' \<in> set (fe_path e)))"

text \<open>\<open>Store::export_to_with_progress\<close> into a file that was created empty, each chunk written as it is verified.\<close>

fun file_loop :: "crates \<Rightarrow> manifest \<Rightarrow> path \<Rightarrow> nat \<Rightarrow> nat \<Rightarrow> chunk_ref list \<Rightarrow> (nat \<times> nat) list \<Rightarrow> store \<Rightarrow> fs
    \<Rightarrow> (store_error + unit) \<times> (nat \<times> nat) list \<times> store \<times> fs" where
  "file_loop X m dest tot i [] prog st f = (Inr (), prog, st, f)"
| "file_loop X m dest tot i (cref # crefs) prog st f =
     (case export_chunk X st f m i cref of
        (Inl e, st') \<Rightarrow> (Inl e, prog, st', f)
      | (Inr b, st') \<Rightarrow> (case handle_append f dest b of
          Inl e \<Rightarrow> (Inl (Io e), prog, st', f)
        | Inr f' \<Rightarrow> file_loop X m dest tot (Suc i) crefs (prog @ [(i + 1, tot)]) st' f'))"

definition export_to_file :: "crates \<Rightarrow> store \<Rightarrow> fs \<Rightarrow> manifest \<Rightarrow> path \<Rightarrow> (store_error + unit) \<times> (nat \<times> nat) list \<times> store \<times> fs" where
  "export_to_file X st f m dest =
     (if \<not> root_is_consistent X m then (Inl (Corrupt (m_root m)), [], st, f)
      else file_loop X m dest (length (m_chunks m)) 0 (m_chunks m) [] st f)"

definition write_output_to :: "('n, 'q) daemon_env \<Rightarrow> manifest \<Rightarrow> string \<Rightarrow> store \<Rightarrow> fs \<Rightarrow> (string + string) \<times> (nat \<times> nat) list \<times> store \<times> fs" where
  "write_output_to D m out st f =
     (if looks_like_tree m then
        (case export_tree_to_dir_with_progress (de_crates D) st f m (de_path D out) of
           (Inl e, s) \<Rightarrow> (Inl (de_store_text D e), s)
         | (Inr _, s) \<Rightarrow> (Inr (out @ ''/ ('' @ show_nat (length (m_files m)) @ '' files)''), s))
      else (case create_file f (de_path D out) out of
          Inl e \<Rightarrow> (Inl (de_io_text D e), [], st, f)
        | Inr f1 \<Rightarrow> (case export_to_file (de_crates D) st f1 m (de_path D out) of
            (Inl e, s) \<Rightarrow> (Inl (de_store_text D e), s)
          | (Inr _, s) \<Rightarrow> (Inr out, s))))"

definition no_peers :: string where
  "no_peers = ''no peers to fetch from: none on the tracker for this content, and none connected (dial one first)''"

definition fetch_export :: "('n, 'q) daemon_env \<Rightarrow> u64 \<Rightarrow> manifest \<Rightarrow> string \<Rightarrow> ('n, 'q) daemon_state \<Rightarrow> (string + json) \<times> ('n, 'q) daemon_state" where
  "fetch_export D rid m out s =
     (case write_output_to D m out (ds_store s) (ds_fs s) of (r, prog, st', f') \<Rightarrow>
        (case r of
           Inl e \<Rightarrow> Inl e
         | Inr dest \<Rightarrow> Inr (JObject [(''root'', JString (uri (de_crates D) m)), (''path'', JString dest), (''bytes_total'', jnum (m_total_size m))]),
         report_all D rid ''fetch'' (u64_pairs prog) None (s\<lparr>ds_store := st', ds_fs := f'\<rparr>)))"

definition run_fetch :: "('n, 'q) daemon_env \<Rightarrow> u64 \<Rightarrow> string \<Rightarrow> string \<Rightarrow> ('n, 'q) daemon_state \<Rightarrow> (string + json) \<times> ('n, 'q) daemon_state" where
  "run_fetch D rid u out s =
     (case fetch_root D (ds_fs s) u of
        Inl e \<Rightarrow> (Inl e, s)
      | Inr root \<Rightarrow> (case discover D root s of (discovered, s1) \<Rightarrow>
          case connected_or_none D (ds_net s1) of (connected0, n1) \<Rightarrow>
          case settle D discovered 60 connected0 n1 of (connected, n2) \<Rightarrow>
          let s2 = s1\<lparr>ds_net := n2\<rparr>; providers = fetch_providers discovered connected in
          if providers = [] then (Inl no_peers, s2)
          else case read_clock D s2 of (now, s3) \<Rightarrow>
            (case fetch_attempts D rid root providers (now + 20000) 5 0 [] False None s3 of
               (Inl e, s4) \<Rightarrow> (Inl e, s4)
             | (Inr m, s4) \<Rightarrow> fetch_export D rid m out s4)))"

section \<open>Convert and torrent\<close>

definition fs_is_dir :: "fs \<Rightarrow> path \<Rightarrow> io_error + bool" where
  "fs_is_dir f p =
     (if fs_denied f p then Inl PermissionDenied
      else if p \<in> set (fs_dirs f) then Inr True
      else if hm_contains (fs_files f) p then Inr False else Inl NotFound)"

text \<open>\<open>Path::file_name\<close>.\<close>

definition path_file_name :: "string \<Rightarrow> string option" where
  "path_file_name s = (if path_components s = [] then None else case last (path_components s) of Normal n \<Rightarrow> Some n | _ \<Rightarrow> None)"

definition hex_digit :: "nat \<Rightarrow> char" where
  "hex_digit d = (if d < 10 then char_of (48 + d) else char_of (87 + d))"

definition daemon_hex_encode :: "bytes \<Rightarrow> string" where
  "daemon_hex_encode bs = concat (map (\<lambda>b. [hex_digit (unat b div 16), hex_digit (unat b mod 16)]) bs)"

text \<open>\<open>register_manifest\<close> with the counter of the process.\<close>

definition register :: "('n, 'q) daemon_env \<Rightarrow> manifest \<Rightarrow> ('n, 'q) daemon_state \<Rightarrow> (string + unit) \<times> ('n, 'q) daemon_state" where
  "register D m s =
     (case register_manifest (de_crates D) (de_manifest D) (de_proc D) (ds_counter s) (de_store_dir D) m (ds_fs s) of
        (r, f') \<Rightarrow> (err_text (de_node_text D) r, s\<lparr>ds_fs := f', ds_counter := Suc (ds_counter s)\<rparr>))"

definition convert_files :: "('n, 'q) daemon_env \<Rightarrow> fs \<Rightarrow> string \<Rightarrow> string + (string \<times> path) list" where
  "convert_files D f p =
     (case fs_is_dir f (de_path D p) of
        Inl e \<Rightarrow> Inl (de_io_text D e)
      | Inr True \<Rightarrow> (case read_dir_paths f (de_path D p) of
          Inl e \<Rightarrow> Inl (de_node_text D e)
        | Inr files \<Rightarrow> if files = [] then Inl (''convert: directory '' @ p @ '' contains no files'') else Inr files)
      | Inr False \<Rightarrow> Inr [(case path_file_name p of Some n \<Rightarrow> n | None \<Rightarrow> ''data'', de_path D p)])"

definition convert_torrent :: "('n, 'q) daemon_env \<Rightarrow> string \<Rightarrow> string \<Rightarrow> ('n, 'q) daemon_state \<Rightarrow> ((string + json) \<times> ('n, 'q) daemon_state) option" where
  "convert_torrent D torrent_path data_dir s =
     (case fs_read (ds_fs s) (de_path D torrent_path) of
        Inl e \<Rightarrow> Some (Inl (de_io_text D e), s)
      | Inr b \<Rightarrow> (case parse_torrent_file (de_sha1 D) b of
          Inl e \<Rightarrow> Some (Inl (de_bridge_text D e), s)
        | Inr meta \<Rightarrow> (case resolve_or_convert_local (de_rt D) (de_crates D) (de_manifest D) (de_sched D) (de_sha1 D) (de_io_text D)
              meta (de_path D data_dir) False (ds_store s) (ds_fs s) (ds_net s) of
            None \<Rightarrow> None
          | Some (Inl e, (st', f'), n') \<Rightarrow> Some (Inl (de_bridge_text D e), s\<lparr>ds_store := st', ds_fs := f', ds_net := n'\<rparr>)
          | Some (Inr oc, (st', f'), n') \<Rightarrow>
              (case register D (oc_manifest oc) (s\<lparr>ds_store := st', ds_fs := f', ds_net := n'\<rparr>) of
                 (Inl e, s') \<Rightarrow> Some (Inl e, s')
               | (Inr _, s') \<Rightarrow> Some (Inr (JObject [(''root'', JString (uri (de_crates D) (oc_manifest oc))), (''converted'', JBool (oc_converted oc)),
                   (''infohash'', JString (daemon_hex_encode (oc_infohash oc))), (''files_total'', jlen (m_files (oc_manifest oc))),
                   (''chunks_total'', jlen (m_chunks (oc_manifest oc))), (''bytes_total'', jnum (m_total_size (oc_manifest oc)))]), s')))))"

definition convert_path :: "('n, 'q) daemon_env \<Rightarrow> u64 \<Rightarrow> string \<Rightarrow> ('n, 'q) daemon_state \<Rightarrow> (string + json) \<times> ('n, 'q) daemon_state" where
  "convert_path D rid p s =
     (case convert_files D (ds_fs s) p of
        Inl e \<Rightarrow> (Inl e, s)
      | Inr files \<Rightarrow>
          (case ingest_tree_files_no_copy_with_progress (de_crates D) (ds_store s) (ds_fs s) files (path_file_name p) of
             (r, prog, st', f') \<Rightarrow>
               let s1 = report_all D rid ''convert'' (map (\<lambda>(don, tot, _). (don, tot)) prog) None (s\<lparr>ds_store := st', ds_fs := f'\<rparr>);
                   chunks_new = filter (\<lambda>(_, _, is_new). is_new) prog in
               (case r of
                  Inl e \<Rightarrow> (Inl (de_store_text D e), s1)
                | Inr m \<Rightarrow> (case register D m s1 of
                    (Inl e, s2) \<Rightarrow> (Inl e, s2)
                  | (Inr _, s2) \<Rightarrow> (Inr (JObject [(''root'', JString (uri (de_crates D) m)), (''chunks_total'', jlen (m_chunks m)),
                      (''chunks_new'', jlen chunks_new), (''bytes_total'', jnum (m_total_size m))]), s2)))))"

definition run_convert :: "('n, 'q) daemon_env \<Rightarrow> u64 \<Rightarrow> string option \<Rightarrow> string option \<Rightarrow> string option \<Rightarrow> ('n, 'q) daemon_state
    \<Rightarrow> ((string + json) \<times> ('n, 'q) daemon_state) option" where
  "run_convert D rid torrent data p s =
     (case (torrent, data, p) of
        (Some torrent_path, Some data_dir, None) \<Rightarrow> convert_torrent D torrent_path data_dir s
      | (None, None, Some p) \<Rightarrow> Some (convert_path D rid p s)
      | _ \<Rightarrow> Some (Inl convert_usage, s))"

definition no_librqbit :: string where
  "no_librqbit = ''torrent: this daemon build lacks the 'librqbit' feature (rebuild with `cargo build --features librqbit`); ''
     @ ''use 'convert' with torrent+data for content you've already downloaded''"

definition run_torrent :: "('n, 'q) daemon_env \<Rightarrow> u64 \<Rightarrow> string \<Rightarrow> string option \<Rightarrow> ('n, 'q) daemon_state
    \<Rightarrow> ((string + json) \<times> ('n, 'q) daemon_state) option" where
  "run_torrent D rid input out s =
     (case de_rqbit D of
        None \<Rightarrow> Some (Inl no_librqbit, s)
      | Some Q \<Rightarrow> (case resolve_or_convert_remote (de_rt D) (de_crates D) (de_manifest D) (de_sched D) (de_sha1 D) (de_io_text D) Q input False
            (map_option (de_path D) out) (ds_store s) (ds_fs s) (ds_rqbit s) (ds_net s) of
          None \<Rightarrow> None
        | Some (r, prog, (st', f'), q', n') \<Rightarrow>
            Some (case r of
                Inl e \<Rightarrow> Inl (de_bridge_text D e)
              | Inr oc \<Rightarrow> Inr (JObject [(''root'', JString (uri (de_crates D) (oc_manifest oc))), (''converted'', JBool (oc_converted oc)),
                  (''files_total'', jlen (m_files (oc_manifest oc))), (''chunks_total'', jlen (m_chunks (oc_manifest oc))),
                  (''bytes_total'', jnum (m_total_size (oc_manifest oc)))]),
              report_all D rid ''torrent'' prog None (s\<lparr>ds_store := st', ds_fs := f', ds_rqbit := q', ds_net := n'\<rparr>))))"

section \<open>Provide, unprovide, status\<close>

definition registry_path :: "('n, 'q) daemon_env \<Rightarrow> hash \<Rightarrow> path" where
  "registry_path D root = (de_store_dir D @ [''manifests'']) @ [to_hex (de_crates D) root @ ''.nptp'']"

definition not_registered :: "('n, 'q) daemon_env \<Rightarrow> string \<Rightarrow> path \<Rightarrow> io_error \<Rightarrow> string" where
  "not_registered D target p e = ''provide '' @ target @ '': no manifest registered at '' @ de_show_path D p @ '' ('' @ de_io_text D e @ '') ''
     @ [CHR 0xE2, CHR 0x80, CHR 0x94] @ '' convert it, or provide it once by .nptp path, first''"

definition load_provide_manifest :: "('n, 'q) daemon_env \<Rightarrow> fs \<Rightarrow> string \<Rightarrow> string + manifest" where
  "load_provide_manifest D f target =
     (case strip_prefix SCHEME_PREFIX target of
        None \<Rightarrow> (case fs_read f (de_path D target) of
          Inl e \<Rightarrow> Inl (de_io_text D e)
        | Inr b \<Rightarrow> err_text (de_manifest_text D) (from_nptp (de_manifest D) b))
      | Some hex \<Rightarrow> (case from_hex (de_crates D) hex of
          Inl e \<Rightarrow> Inl (de_hex_text D e)
        | Inr root \<Rightarrow> (case fs_read f (registry_path D root) of
            Inl e \<Rightarrow> Inl (not_registered D target (registry_path D root) e)
          | Inr b \<Rightarrow> err_text (de_manifest_text D) (from_nptp (de_manifest D) b))))"

definition run_provide :: "('n, 'q) daemon_env \<Rightarrow> string \<Rightarrow> ('n, 'q) daemon_state \<Rightarrow> (string + json) \<times> ('n, 'q) daemon_state" where
  "run_provide D nptp s =
     (case load_provide_manifest D (ds_fs s) nptp of
        Inl e \<Rightarrow> (Inl e, s)
      | Inr m \<Rightarrow> (case net_provide (de_rt D) (de_manifest D) m (ds_net s) of
          (Inl e, n') \<Rightarrow> (Inl (de_net_text D e), s\<lparr>ds_net := n'\<rparr>)
        | (Inr _, n') \<Rightarrow> (case register D m (s\<lparr>ds_net := n'\<rparr>) of
            (Inl e, s') \<Rightarrow> (Inl e, s')
          | (Inr _, s') \<Rightarrow>
              (Inr (JObject [(''root'', JString (uri (de_crates D) m)), (''files_total'', jlen (m_files m)), (''chunks_total'', jlen (m_chunks m))]),
               s'\<lparr>ds_announces := hm_insert (m_root m) (ds_handles s') (ds_announces s'), ds_handles := Suc (ds_handles s'),
                  ds_aborted := ds_aborted s' @ (case hm_get (ds_announces s') (m_root m) of Some old \<Rightarrow> [old] | None \<Rightarrow> [])\<rparr>))))"

definition run_unprovide :: "('n, 'q) daemon_env \<Rightarrow> string \<Rightarrow> ('n, 'q) daemon_state \<Rightarrow> (string + json) \<times> ('n, 'q) daemon_state" where
  "run_unprovide D root s =
     (case from_hex (de_crates D) (case strip_prefix SCHEME_PREFIX root of Some hex \<Rightarrow> hex | None \<Rightarrow> root) of
        Inl e \<Rightarrow> (Inl (de_hex_text D e), s)
      | Inr h \<Rightarrow>
          let s1 = s\<lparr>ds_announces := hm_remove h (ds_announces s),
                     ds_aborted := ds_aborted s @ (case hm_get (ds_announces s) h of Some old \<Rightarrow> [old] | None \<Rightarrow> [])\<rparr> in
          (case net_unprovide (de_rt D) h (ds_net s1) of
             (Inl e, n') \<Rightarrow> (Inl (de_net_text D e), s1\<lparr>ds_net := n'\<rparr>)
           | (Inr _, n') \<Rightarrow>
               (Inr (JObject [(''root'', JString (SCHEME_PREFIX @ to_hex (de_crates D) h))]),
                (case fs_remove_file (ds_fs s1) (registry_path D h) of
                   Inr f' \<Rightarrow> s1\<lparr>ds_net := n', ds_fs := f'\<rparr>
                 | Inl NotFound \<Rightarrow> s1\<lparr>ds_net := n'\<rparr>
                 | Inl e \<Rightarrow> send [event_warn (''could not remove '' @ de_show_path D (registry_path D h) @ '': '' @ de_io_text D e)] (s1\<lparr>ds_net := n'\<rparr>)))))"

definition run_status :: "('n, 'q) daemon_env \<Rightarrow> ('n, 'q) daemon_state \<Rightarrow> (string + json) \<times> ('n, 'q) daemon_state" where
  "run_status D s =
     (case connected_peers (de_rt D) (ds_net s) of
        (Inl e, n1) \<Rightarrow> (Inl (de_net_text D e), s\<lparr>ds_net := n1\<rparr>)
      | (Inr peers, n1) \<Rightarrow> (case net_ledger_totals (de_rt D) n1 of
          (Inl e, n2) \<Rightarrow> (Inl (de_net_text D e), s\<lparr>ds_net := n2\<rparr>)
        | (Inr ledger, n2) \<Rightarrow> (case net_listeners (de_rt D) n2 of (l, n3) \<Rightarrow>
            let listeners = (case l of Inl _ \<Rightarrow> [] | Inr addrs \<Rightarrow> addrs) in
            (Inr (JObject [(''peers'', jlen peers), (''peer_id'', JString (peer_text (de_addr D) (de_peer D))),
               (''addrs'', JArray (map JString (addr_strs_with_peer (de_addr D) listeners (de_peer D)))),
               (''provided'', JArray (map (\<lambda>(h, _). JString (SCHEME_PREFIX @ to_hex (de_crates D) h)) (ds_announces s))),
               (''ledger'', JObject [(''served_to_us'', jnum (ct_served_to_us ledger)), (''we_served'', jnum (ct_we_served ledger)),
                  (''credited_by_receipts'', jnum (ct_credited ledger))])]), s\<lparr>ds_net := n3\<rparr>))))"

text \<open>One turn of a root's announce loop; the interval between turns is the clock's.\<close>

definition ANNOUNCE_WARN_INTERVAL :: nat where "ANNOUNCE_WARN_INTERVAL = 600 * 1000"

definition announce_failed :: "('n, 'q) daemon_env \<Rightarrow> hash \<Rightarrow> string \<Rightarrow> string" where
  "announce_failed D root e = ''tracker announce for np2ptp:'' @ to_hex (de_crates D) root @ '' failed: '' @ e
     @ '' (still provided locally, but peers may not find it)''"

definition announce_turn :: "('n, 'q) daemon_env \<Rightarrow> hash \<Rightarrow> nat option \<Rightarrow> ('n, 'q) daemon_state \<Rightarrow> nat option \<times> ('n, 'q) daemon_state" where
  "announce_turn D root last_warn s =
     (case net_listeners (de_rt D) (ds_net s) of (l, n1) \<Rightarrow> case net_external_addresses (de_rt D) n1 of (x, n2) \<Rightarrow>
      let addrs = foldl (\<lambda>as ext. if ext \<in> set as then as else as @ [ext])
            (case l of Inl _ \<Rightarrow> [] | Inr as \<Rightarrow> as) (case x of Inl _ \<Rightarrow> [] | Inr exts \<Rightarrow> exts) in
      case tracker_announce D root (de_peer D) addrs n2 of
        (Inr _, n3) \<Rightarrow> (last_warn, s\<lparr>ds_net := n3\<rparr>)
      | (Inl e, n3) \<Rightarrow> (case read_clock D (s\<lparr>ds_net := n3\<rparr>) of (now, s1) \<Rightarrow>
          if (case last_warn of None \<Rightarrow> True | Some t \<Rightarrow> ANNOUNCE_WARN_INTERVAL \<le> now - t)
          then (Some now, send [event_warn (announce_failed D root e)] s1) else (last_warn, s1)))"

section \<open>Running a request\<close>

definition run_op :: "('n, 'q) daemon_env \<Rightarrow> u64 \<Rightarrow> daemon_op \<Rightarrow> ('n, 'q) daemon_state \<Rightarrow> ((string + json) \<times> ('n, 'q) daemon_state) option" where
  "run_op D rid op s =
     (case op of
        OpFetch u out \<Rightarrow> Some (run_fetch D rid u out s)
      | OpConvert torrent data p \<Rightarrow> run_convert D rid torrent data p s
      | OpTorrent input out \<Rightarrow> run_torrent D rid input out s
      | OpProvide nptp \<Rightarrow> Some (run_provide D nptp s)
      | OpUnprovide root \<Rightarrow> Some (run_unprovide D root s)
      | OpStatus \<Rightarrow> Some (run_status D s)
      | OpShutdown \<Rightarrow> Some (Inr (JObject []), s\<lparr>ds_shutdown := True\<rparr>))"

text \<open>The terminal event of an operation; \<open>None\<close> stands for a panic of its task.\<close>

definition outcome :: "u64 \<Rightarrow> (string + json) option \<Rightarrow> json" where
  "outcome rid r =
     (case r of
        Some (Inr flds) \<Rightarrow> event_result rid flds
      | Some (Inl e) \<Rightarrow> event_error rid e
      | None \<Rightarrow> event_error rid ''internal error'')"

definition execute :: "('n, 'q) daemon_env \<Rightarrow> u64 \<Rightarrow> daemon_op \<Rightarrow> ('n, 'q) daemon_state \<Rightarrow> ('n, 'q) daemon_state option" where
  "execute D rid op s = (case run_op D rid op s of None \<Rightarrow> None | Some (r, s') \<Rightarrow> Some (send [outcome rid (Some r)] s'))"

definition dispatch_dial :: "('n, 'q) daemon_env \<Rightarrow> json \<Rightarrow> ('n, 'q) daemon_state \<Rightarrow> ('n, 'q) daemon_state" where
  "dispatch_dial D v s =
     (case Option.bind (json_get v ''addr'') as_str of
        None \<Rightarrow> send [event_error (value_id v) ''dial requires a string \"addr\" (multiaddr)''] s
      | Some addr \<Rightarrow> (case ma_parse (de_addr D) addr of
          Inl e \<Rightarrow> send [event_error (value_id v) e] s
        | Inr ma \<Rightarrow> (case net_dial (de_rt D) ma (ds_net s) of
            (Inr _, n') \<Rightarrow> send [event_result (value_id v) (JObject [(''addr'', JString addr)])] (s\<lparr>ds_net := n'\<rparr>)
          | (Inl e, n') \<Rightarrow> send [event_error (value_id v) (de_net_text D e)] (s\<lparr>ds_net := n'\<rparr>))))"

definition run_task :: "('n, 'q) daemon_env \<Rightarrow> daemon_task \<Rightarrow> ('n, 'q) daemon_state \<Rightarrow> ('n, 'q) daemon_state option" where
  "run_task D t s = (case t of TaskDial v \<Rightarrow> Some (dispatch_dial D v s) | TaskExec rid op \<Rightarrow> execute D rid op s)"

section \<open>Starting\<close>

definition DEFAULT_LISTEN :: string where "DEFAULT_LISTEN = ''/ip4/0.0.0.0/udp/0/quic-v1''"

definition LISTEN_ADDR_POLLS :: nat where "LISTEN_ADDR_POLLS = 40"

fun listen_addrs :: "('n, 'q) daemon_env \<Rightarrow> nat \<Rightarrow> 'n \<Rightarrow> string list \<times> 'n" where
  "listen_addrs D 0 n = ([], n)"
| "listen_addrs D (Suc k) n =
     (case net_listeners (de_rt D) n of
        (Inr (a # as), n') \<Rightarrow> (addr_strs_with_peer (de_addr D) (a # as) (de_peer D), n')
      | (_, n') \<Rightarrow> listen_addrs D k (de_sleep D 50 n'))"

text \<open>
  From the spawned network on: listen, dial the relay, say \<open>ready\<close>. \<open>debug\<close> is the \<open>Debug\<close> format of a string.
  An error ends the daemon before it is ready.
\<close>

definition dial_relay :: "('n, 'q) daemon_env \<Rightarrow> (string \<Rightarrow> string) \<Rightarrow> string option \<Rightarrow> ('n, 'q) daemon_state \<Rightarrow> ('n, 'q) daemon_state" where
  "dial_relay D debug relay s =
     (case relay of
        None \<Rightarrow> s
      | Some r \<Rightarrow> (case ma_parse (de_addr D) r of
          Inl e \<Rightarrow> send [event_warn (''invalid relay address '' @ debug r @ '': '' @ e)] s
        | Inr addr \<Rightarrow> (case net_dial (de_rt D) addr (ds_net s) of
            (Inl e, n') \<Rightarrow> send [event_warn (''relay dial failed: '' @ de_net_text D e)] (s\<lparr>ds_net := n'\<rparr>)
          | (Inr _, n') \<Rightarrow> s\<lparr>ds_net := n'\<rparr>)))"

definition start_daemon :: "('n, 'q) daemon_env \<Rightarrow> (string \<Rightarrow> string) \<Rightarrow> string option \<Rightarrow> string \<Rightarrow> ('n, 'q) daemon_state
    \<Rightarrow> (string + unit) \<times> ('n, 'q) daemon_state" where
  "start_daemon D debug relay version s =
     (case ma_parse (de_addr D) DEFAULT_LISTEN of
        Inl e \<Rightarrow> (Inl e, s)
      | Inr addr \<Rightarrow> (case net_listen (de_rt D) addr (ds_net s) of
          (Inl e, n1) \<Rightarrow> (Inl (de_net_text D e), s\<lparr>ds_net := n1\<rparr>)
        | (Inr _, n1) \<Rightarrow> (let s1 = dial_relay D debug relay (s\<lparr>ds_net := n1\<rparr>) in
            case listen_addrs D LISTEN_ADDR_POLLS (ds_net s1) of (addrs, n2) \<Rightarrow>
              (Inr (), send [ready_line (de_json D) (de_addr D) version (de_peer D) addrs] (s1\<lparr>ds_net := n2\<rparr>)))))"

section \<open>The daemon as a transition system\<close>

text \<open>
  The main loop, the reader thread and the spawned tasks. A line starts a task; a task takes effect when it
  runs, in any order, and the events it sent reach the output one at a time, interleaved with those of other
  tasks. A task that panics has sent some events before, none of them terminal, and its guard sends the
  terminal one; it may leave the shared state in any condition. \<open>dm_asked\<close> records the id each non-empty
  line is to be answered under; \<open>dm_out\<close> is the output after \<open>ready\<close>.
\<close>

record ('n, 'q) daemon =
  dm_state :: "('n, 'q) daemon_state"
  dm_input :: "reader_event list"
  dm_waiting :: "daemon_task list"
  dm_running :: "(u64 \<times> json list) list"
  dm_out :: "json list"
  dm_open :: bool
  dm_asked :: "u64 list"

definition terminal :: "json \<Rightarrow> bool" where
  "terminal v = (json_get v ''event'' \<in> {Some (JString ''result''), Some (JString ''error'')})"

definition answers :: "u64 \<Rightarrow> json \<Rightarrow> bool" where
  "answers rid v = (terminal v \<and> json_get v ''id'' = Some (jnum rid))"

definition line_id :: "json_lib \<Rightarrow> string \<Rightarrow> u64" where
  "line_id J line =
     (case dial_fallback_value J line of
        Some v \<Rightarrow> value_id v
      | None \<Rightarrow> (case parse_request J line of Inr req \<Rightarrow> rq_id req | Inl _ \<Rightarrow> raw_id J line))"

definition line_ids :: "json_lib \<Rightarrow> string \<Rightarrow> u64 list" where
  "line_ids J raw = (if str_trim raw = [] then [] else [line_id J (str_trim raw)])"

definition task_list :: "daemon_task option \<Rightarrow> daemon_task list" where
  "task_list t = (case t of None \<Rightarrow> [] | Some t \<Rightarrow> [t])"

inductive daemon_step :: "('n, 'q) daemon_env \<Rightarrow> ('n, 'q) daemon \<Rightarrow> ('n, 'q) daemon \<Rightarrow> bool" for D :: "('n, 'q) daemon_env" where
  line: "dm_open d \<Longrightarrow> dm_input d = LineRead l # rest \<Longrightarrow> on_line (de_json D) l = (evs, t) \<Longrightarrow>
    daemon_step D d (d\<lparr>dm_input := rest, dm_out := dm_out d @ evs, dm_waiting := dm_waiting d @ task_list t,
      dm_asked := dm_asked d @ line_ids (de_json D) l\<rparr>)"
| overflow: "dm_input d = LineTooLong # rest \<Longrightarrow>
    daemon_step D d (d\<lparr>dm_input := rest, dm_out := dm_out d @ [event_error 0 overflow_message], dm_asked := dm_asked d @ [0]\<rparr>)"
| run: "dm_waiting d = ts @ t # ts' \<Longrightarrow> run_task D t ((dm_state d)\<lparr>ds_sent := []\<rparr>) = Some s' \<Longrightarrow>
    daemon_step D d (d\<lparr>dm_waiting := ts @ ts', dm_state := s', dm_running := dm_running d @ [(task_id t, ds_sent s')]\<rparr>)"
| panic: "dm_waiting d = ts @ t # ts' \<Longrightarrow> list_all (\<lambda>e. \<not> terminal e) evs \<Longrightarrow>
    daemon_step D d (d\<lparr>dm_waiting := ts @ ts', dm_state := s', dm_running := dm_running d @ [(task_id t, evs @ [outcome (task_id t) None])]\<rparr>)"
| emit: "dm_running d = rs @ (rid, e # es) # rs' \<Longrightarrow>
    daemon_step D d (d\<lparr>dm_running := rs @ (if es = [] then [] else [(rid, es)]) @ rs', dm_out := dm_out d @ [e]\<rparr>)"
| stop: "ds_shutdown (dm_state d) \<or> dm_input d = [] \<Longrightarrow> daemon_step D d (d\<lparr>dm_open := False\<rparr>)"

inductive daemon_run :: "('n, 'q) daemon_env \<Rightarrow> ('n, 'q) daemon_state \<Rightarrow> reader_event list \<Rightarrow> ('n, 'q) daemon \<Rightarrow> bool"
  for D :: "('n, 'q) daemon_env" and s0 :: "('n, 'q) daemon_state" and input :: "reader_event list" where
  start: "daemon_run D s0 input \<lparr>dm_state = s0, dm_input = input, dm_waiting = [], dm_running = [], dm_out = [], dm_open = True, dm_asked = []\<rparr>"
| step: "daemon_run D s0 input d \<Longrightarrow> daemon_step D d d' \<Longrightarrow> daemon_run D s0 input d'"

section \<open>Every request is answered once\<close>

definition quiet :: "('n, 'q) daemon_state \<Rightarrow> ('n, 'q) daemon_state \<Rightarrow> bool" where
  "quiet s s' \<longleftrightarrow> (\<exists>evs. ds_sent s' = ds_sent s @ evs \<and> list_all (\<lambda>e. \<not> terminal e) evs)"

lemma quiet_same: "ds_sent s' = ds_sent s \<Longrightarrow> quiet s s'"
  by (simp add: quiet_def)

lemma quiet_trans [trans]: "quiet a b \<Longrightarrow> quiet b c \<Longrightarrow> quiet a c"
  by (auto simp: quiet_def)

lemma quiet_send: "list_all (\<lambda>e. \<not> terminal e) evs \<Longrightarrow> quiet s (send evs s)"
  by (simp add: quiet_def send_def)

lemma not_terminal [simp]: "\<not> terminal (event_warn w)" "\<not> terminal (event_progress rid op don tot)"
  by (simp_all add: terminal_def event_warn_def event_progress_def json_get_def hm_get_def)

lemma quiet_report: "report D rid op don tot prev s = (prev', s') \<Longrightarrow> quiet s s'"
  by (auto simp: report_def read_clock_def progress_sender_def Let_def quiet_def send_def split: if_splits option.splits)

lemma quiet_report_all: "quiet s (report_all D rid op calls prev s)"
proof (induction calls arbitrary: prev s)
  case (Cons c calls)
  then show ?case by (cases c) (auto split: prod.split intro: quiet_trans quiet_report)
qed (simp add: quiet_same)

lemma quiet_fetch_progress: "fetch_progress D rid calls sc prev s = (sc', prev', s') \<Longrightarrow> quiet s s'"
proof (induction calls arbitrary: sc prev s)
  case (Cons c calls)
  then show ?case by (cases c) (auto split: prod.splits if_splits intro: quiet_trans quiet_report)
qed (simp add: quiet_same)

lemma quiet_update: "quiet (s\<lparr>ds_store := st, ds_fs := f, ds_net := n\<rparr>) s' \<Longrightarrow> quiet s s'"
  "quiet (s\<lparr>ds_store := st, ds_fs := f\<rparr>) s' \<Longrightarrow> quiet s s'" "quiet (s\<lparr>ds_net := n\<rparr>) s' \<Longrightarrow> quiet s s'"
  "quiet (s\<lparr>ds_store := st, ds_fs := f, ds_rqbit := q, ds_net := n\<rparr>) s' \<Longrightarrow> quiet s s'"
  by (simp_all add: quiet_def)

lemma quiet_attempt: "attempt_download D rid root ps sc prev s = (r, sc', prev', s') \<Longrightarrow> quiet s s'"
  by (auto simp: attempt_download_def split: prod.splits dest!: quiet_fetch_progress intro: quiet_update)

lemma quiet_attempts: "fetch_attempts D rid root ps dl k a e sc prev s = (r, s') \<Longrightarrow> quiet s s'"
proof (induction k arbitrary: a e sc prev s)
  case (Suc k)
  let ?c = "if 0 < a then case read_clock D s of (now, s') \<Rightarrow> (dl \<le> now, s') else (False, s)"
  obtain late s1 where c: "?c = (late, s1)" by force
  then have q1: "quiet s s1" by (auto simp: read_clock_def quiet_def split: if_splits)
  show ?case
  proof (cases late)
    case True
    then show ?thesis using Suc.prems c q1 by simp
  next
    case False
    define s2 where "s2 = (if 0 < a then s1\<lparr>ds_net := de_sleep D (50 * 2 ^ (a - 1)) (ds_net s1)\<rparr> else s1)"
    have q2: "quiet s1 s2" by (simp add: s2_def quiet_same)
    obtain x sc' prev' s3 where x: "attempt_download D rid root ps sc prev s2 = (x, sc', prev', s3)" by (metis prod_cases4)
    have "s' = s3 \<or> (\<exists>e'. fetch_attempts D rid root ps dl k (Suc a) e' sc' prev' s3 = (r, s'))"
      using Suc.prems c False x by (cases x) (auto simp: s2_def [symmetric])
    then have "quiet s3 s'" using Suc.IH by (auto simp: quiet_same)
    then show ?thesis using q1 q2 quiet_attempt [OF x] quiet_trans by blast
  qed
qed (simp add: quiet_same)

lemma quiet_discover: "discover D root s = (ps, s') \<Longrightarrow> quiet s s'"
  by (auto simp: discover_def quiet_def send_def split: prod.splits sum.splits)

lemma quiet_fetch_export: "fetch_export D rid m out s = (r, s') \<Longrightarrow> quiet s s'"
  by (auto simp: fetch_export_def split: prod.splits intro: quiet_update quiet_report_all)

lemma quiet_run_fetch: "run_fetch D rid u out s = (r, s') \<Longrightarrow> quiet s s'"
proof -
  assume run: "run_fetch D rid u out s = (r, s')"
  show ?thesis
  proof (cases "fetch_root D (ds_fs s) u")
    case (Inl e)
    then show ?thesis using run by (simp add: run_fetch_def quiet_same)
  next
    case (Inr root)
    obtain disc s1 where d: "discover D root s = (disc, s1)" by force
    obtain c0 n1 where c: "connected_or_none D (ds_net s1) = (c0, n1)" by force
    obtain conn n2 where st: "settle D disc 60 c0 n1 = (conn, n2)" by force
    define s2 where "s2 = s1\<lparr>ds_net := n2\<rparr>"
    have q2: "quiet s s2" using quiet_discover [OF d] by (simp add: s2_def quiet_def)
    obtain now s3 where k: "read_clock D s2 = (now, s3)" by force
    have q3: "quiet s2 s3" using k by (auto simp: read_clock_def quiet_def)
    obtain x s4 where x: "fetch_attempts D rid root (fetch_providers disc conn) (now + 20000) 5 0 [] False None s3 = (x, s4)" by force
    have "s' = s2 \<or> s' = s4 \<or> (\<exists>m. fetch_export D rid m out s4 = (r, s'))"
      using run Inr d c st k x by (cases x) (auto simp: run_fetch_def Let_def s2_def [symmetric] split: if_splits)
    then show ?thesis using q2 q3 quiet_attempts [OF x] quiet_fetch_export quiet_trans by blast
  qed
qed

lemma quiet_register: "register D m s = (r, s') \<Longrightarrow> quiet s s'"
  by (auto simp: register_def quiet_def split: prod.splits)

lemma quiet_convert_path: "convert_path D rid p s = (r, s') \<Longrightarrow> quiet s s'"
proof -
  assume run: "convert_path D rid p s = (r, s')"
  show ?thesis
  proof (cases "convert_files D (ds_fs s) p")
    case (Inl e)
    then show ?thesis using run by (simp add: convert_path_def quiet_same)
  next
    case (Inr files)
    obtain x prog st f where x: "ingest_tree_files_no_copy_with_progress (de_crates D) (ds_store s) (ds_fs s) files (path_file_name p) = (x, prog, st, f)"
      by (metis prod_cases4)
    define s1 where "s1 = report_all D rid ''convert'' (map (\<lambda>(don, tot, _). (don, tot)) prog) None (s\<lparr>ds_store := st, ds_fs := f\<rparr>)"
    have "quiet s s1" unfolding s1_def by (rule quiet_update, rule quiet_report_all)
    moreover have "s' = s1 \<or> (\<exists>m y. register D m s1 = (y, s'))"
      using run Inr x by (auto simp: convert_path_def Let_def s1_def [symmetric] split: sum.splits prod.splits)
    ultimately show ?thesis using quiet_register quiet_trans by blast
  qed
qed

lemma quiet_convert_torrent: "convert_torrent D tp dd s = Some (r, s') \<Longrightarrow> quiet s s'"
  by (auto simp: convert_torrent_def quiet_same split: sum.splits option.splits prod.splits intro: quiet_update dest!: quiet_register)

lemma quiet_run_op: "run_op D rid op s = Some (r, s') \<Longrightarrow> quiet s s'"
proof (cases op)
  case (OpConvert torrent data p)
  moreover assume "run_op D rid op s = Some (r, s')"
  ultimately have "run_convert D rid torrent data p s = Some (r, s')" by (simp add: run_op_def)
  then show ?thesis
    by (auto simp: run_convert_def quiet_same split: option.splits intro: quiet_convert_path quiet_convert_torrent)
next
  case (OpTorrent input out)
  moreover assume "run_op D rid op s = Some (r, s')"
  ultimately have "run_torrent D rid input out s = Some (r, s')" by (simp add: run_op_def)
  then show ?thesis
    by (auto simp: run_torrent_def quiet_same split: option.splits prod.splits intro: quiet_update quiet_report_all)
next
  case (OpProvide nptp)
  moreover assume "run_op D rid op s = Some (r, s')"
  ultimately have "run_provide D nptp s = (r, s')" by (simp add: run_op_def)
  then show ?thesis
    by (auto simp: run_provide_def register_def quiet_same split: sum.splits prod.splits)
next
  case (OpUnprovide root)
  moreover assume "run_op D rid op s = Some (r, s')"
  ultimately have "run_unprovide D root s = (r, s')" by (simp add: run_op_def)
  then show ?thesis
    by (auto simp: run_unprovide_def Let_def quiet_def send_def split: sum.splits prod.splits io_error.splits)
next
  case OpStatus
  moreover assume "run_op D rid op s = Some (r, s')"
  ultimately have "run_status D s = (r, s')" by (simp add: run_op_def)
  then show ?thesis
    by (auto simp: run_status_def Let_def quiet_same split: sum.splits prod.splits)
qed (auto simp: run_op_def quiet_same intro: quiet_run_fetch)

text \<open>No operation's result uses a reserved field name, so the id and the kind of its event stay.\<close>

definition plain_fields :: "json \<Rightarrow> bool" where
  "plain_fields v = (case v of JObject m \<Rightarrow> list_all (\<lambda>(k, _). k \<notin> {''id'', ''event'', ''ok''}) m | _ \<Rightarrow> False)"

lemma run_op_fields: "run_op D rid op s = Some (Inr flds, s') \<Longrightarrow> plain_fields flds"
  by (auto simp: run_op_def run_fetch_def fetch_export_def run_convert_def convert_torrent_def convert_path_def run_torrent_def
      run_provide_def run_unprovide_def run_status_def Let_def plain_fields_def
      split: daemon_op.splits sum.splits prod.splits option.splits if_splits)

lemma event_result_get:
  assumes "plain_fields flds" and "k \<in> {''id'', ''event'', ''ok''}"
  shows "json_get (event_result rid flds) k = hm_get [(''id'', jnum rid), (''event'', JString ''result''), (''ok'', JBool True)] k"
proof -
  have "list_all (\<lambda>(k', _). k' \<noteq> k) m \<Longrightarrow> hm_get (foldl (\<lambda>m (k, v). hm_insert k v m) m0 m) k = hm_get m0 k" for m :: "(string \<times> json) list" and m0
    by (induction m arbitrary: m0) auto
  moreover obtain m where "flds = JObject m" "list_all (\<lambda>(k', _). k' \<noteq> k) m"
    using assms by (auto simp: plain_fields_def list_all_iff split: json.splits)
  ultimately show ?thesis by (simp add: event_result_def json_get_def)
qed

lemma outcome_answers: "(\<And>flds. r = Some (Inr flds) \<Longrightarrow> plain_fields flds) \<Longrightarrow> answers rid' (outcome rid r) \<longleftrightarrow> rid' = rid"
  by (auto simp: answers_def terminal_def outcome_def event_result_get split: option.split sum.split)
     (auto simp: event_error_def json_get_def hm_get_def jnum_def)

lemma answers_error [simp]: "answers rid' (event_error rid e) \<longleftrightarrow> rid' = rid"
  by (auto simp: answers_def terminal_def event_error_def json_get_def hm_get_def jnum_def)

lemma answers_terminal: "\<not> terminal e \<Longrightarrow> \<not> answers rid e"
  by (simp add: answers_def)

text \<open>What a task sends: events that are not terminal, then the one answer to its id.\<close>

definition one_answer :: "u64 \<Rightarrow> json list \<Rightarrow> bool" where
  "one_answer rid evs \<longleftrightarrow> evs \<noteq> [] \<and> list_all (\<lambda>e. \<not> terminal e) (butlast evs) \<and> (\<forall>rid'. answers rid' (last evs) \<longleftrightarrow> rid' = rid)"

lemma run_task_answers:
  assumes "run_task D t (s\<lparr>ds_sent := []\<rparr>) = Some s'"
  shows "one_answer (task_id t) (ds_sent s')"
proof (cases t)
  case (TaskExec rid op)
  then obtain r s1 where r: "run_op D rid op (s\<lparr>ds_sent := []\<rparr>) = Some (r, s1)" and s': "s' = send [outcome rid (Some r)] s1"
    using assms by (auto simp: run_task_def execute_def split: option.splits)
  from quiet_run_op [OF r] have "list_all (\<lambda>e. \<not> terminal e) (ds_sent s1)" by (auto simp: quiet_def)
  moreover have "answers rid' (outcome rid (Some r)) \<longleftrightarrow> rid' = rid" for rid'
    using run_op_fields [of D rid op] r by (intro outcome_answers) auto
  ultimately show ?thesis using s' TaskExec by (simp add: one_answer_def send_def)
next
  case (TaskDial v)
  have "answers rid' (event_result (value_id v) (JObject [(''addr'', JString a)])) \<longleftrightarrow> rid' = value_id v" for a rid'
    using outcome_answers [of "Some (Inr (JObject [(''addr'', JString a)]))" rid' "value_id v"] by (simp add: outcome_def plain_fields_def)
  then show ?thesis using assms TaskDial
    by (auto simp: run_task_def dispatch_dial_def one_answer_def send_def split: option.splits sum.splits prod.splits)
qed

lemma on_line_ids:
  "on_line J l = (evs, t) \<Longrightarrow>
    length (filter (answers rid) evs) + length (filter (\<lambda>t. task_id t = rid) (task_list t)) = length (filter (\<lambda>i. i = rid) (line_ids J l))"
proof -
  assume on: "on_line J l = (evs, t)"
  show ?thesis
  proof (cases "str_trim l = []")
    case True
    then show ?thesis using on by (auto simp: on_line_def line_ids_def task_list_def)
  next
    case ne: False
    show ?thesis
    proof (cases "dial_fallback_value J (str_trim l)")
      case (Some v)
      then show ?thesis using on ne by (auto simp: on_line_def line_ids_def line_id_def task_list_def)
    next
      case None
      then show ?thesis using on ne
        by (cases "parse_request J (str_trim l)") (auto simp: on_line_def line_ids_def line_id_def handle_line_def task_list_def)
    qed
  qed
qed

lemma one_answer_last: "one_answer rid [e] \<Longrightarrow> answers rid' e \<longleftrightarrow> rid' = rid"
  by (simp add: one_answer_def)

lemma one_answer_more: "one_answer rid (e # es) \<Longrightarrow> es \<noteq> [] \<Longrightarrow> \<not> answers rid' e \<and> one_answer rid es"
  by (simp add: one_answer_def answers_terminal)

definition balanced :: "('n, 'q) daemon \<Rightarrow> bool" where
  "balanced d \<longleftrightarrow> list_all (\<lambda>(rid, es). one_answer rid es) (dm_running d)
     \<and> (\<forall>rid. length (filter (answers rid) (dm_out d)) + length (filter (\<lambda>t. task_id t = rid) (dm_waiting d))
          + length (filter (\<lambda>(i, _). i = rid) (dm_running d)) = length (filter (\<lambda>i. i = rid) (dm_asked d)))"

lemma balanced_start:
  assumes bal: "balanced d" and w: "dm_waiting d = ts @ t # ts'" and one: "one_answer (task_id t) evs"
  shows "balanced (d\<lparr>dm_waiting := ts @ ts', dm_state := s', dm_running := dm_running d @ [(task_id t, evs)]\<rparr>)"
proof -
  have "length (filter (answers rid) (dm_out d)) + length (filter (\<lambda>t. task_id t = rid) (ts @ ts'))
      + length (filter (\<lambda>(i, _). i = rid) (dm_running d @ [(task_id t, evs)])) = length (filter (\<lambda>i. i = rid) (dm_asked d))" for rid
    using bal [unfolded balanced_def, THEN conjunct2, rule_format, of rid] w by (simp split: if_splits)
  then show ?thesis using bal one by (simp add: balanced_def)
qed

lemma daemon_step_balanced:
  assumes "daemon_step D d d'" and bal: "balanced d"
  shows "balanced d'"
  using assms(1)
proof cases
  case (line l rest evs t)
  have "length (filter (answers rid) (dm_out d @ evs)) + length (filter (\<lambda>t. task_id t = rid) (dm_waiting d @ task_list t))
      + length (filter (\<lambda>(i, _). i = rid) (dm_running d)) = length (filter (\<lambda>i. i = rid) (dm_asked d @ line_ids (de_json D) l))" for rid
    using bal [unfolded balanced_def, THEN conjunct2, rule_format, of rid] on_line_ids [OF line(4), of rid] by simp
  then show ?thesis using bal line(1) by (simp add: balanced_def)
next
  case (run ts t ts' s')
  show ?thesis unfolding run(1) by (rule balanced_start [OF bal run(2) run_task_answers [OF run(3)]])
next
  case (panic ts t ts' evs s')
  then have "one_answer (task_id t) (evs @ [outcome (task_id t) None])" by (simp add: one_answer_def outcome_def)
  then show ?thesis unfolding panic(1) by (rule balanced_start [OF bal panic(2)])
next
  case (emit rs rid e es rs')
  then have one: "one_answer rid (e # es)" using bal by (simp add: balanced_def)
  then have "list_all (\<lambda>(rid, es). one_answer rid es) (rs @ (if es = [] then [] else [(rid, es)]) @ rs')"
    using bal emit(2) one_answer_more [OF one] by (auto simp: balanced_def)
  moreover have "length (filter (answers rid') (dm_out d @ [e])) + length (filter (\<lambda>t. task_id t = rid') (dm_waiting d))
      + length (filter (\<lambda>(i, _). i = rid') (rs @ (if es = [] then [] else [(rid, es)]) @ rs')) = length (filter (\<lambda>i. i = rid') (dm_asked d))" for rid'
  proof -
    have "answers rid' e \<longleftrightarrow> es = [] \<and> rid' = rid" using one_answer_last one_answer_more one by blast
    then show ?thesis using bal [unfolded balanced_def, THEN conjunct2, rule_format, of rid'] emit(2) by (simp split: if_splits)
  qed
  ultimately show ?thesis unfolding emit(1) by (simp add: balanced_def)
qed (use bal in \<open>auto simp: balanced_def\<close>)

lemma daemon_run_balanced: "daemon_run D s0 input d \<Longrightarrow> balanced d"
proof (induction rule: daemon_run.induct)
  case start
  then show ?case by (simp add: balanced_def)
next
  case (step d d')
  then show ?case using daemon_step_balanced by blast
qed

text \<open>
  C18. Every request is answered exactly once: in every run of the daemon, whatever the lines, the order in which
  tasks run and their events interleave, and even when tasks panic, the terminal events sent under an id,
  the tasks that still owe one, and the requests received under that id balance. Once no task is left, each
  id has received exactly as many results or errors as it made requests, malformed lines included.
\<close>

theorem daemon_answers_once:
  assumes "daemon_run D s0 input d"
  shows "length (filter (answers rid) (dm_out d)) + length (filter (\<lambda>t. task_id t = rid) (dm_waiting d))
      + length (filter (\<lambda>(i, _). i = rid) (dm_running d)) = length (filter (\<lambda>i. i = rid) (dm_asked d))"
  using daemon_run_balanced [OF assms] by (simp add: balanced_def)

section \<open>Convert, provide, unprovide\<close>

text \<open>A root is a digest.\<close>

lemma next_level_wf: "digest32 b \<Longrightarrow> list_all wf_hash hs \<Longrightarrow> list_all wf_hash (next_level b hs)"
  by (induction b hs rule: next_level.induct) (auto simp: node_hash_def wf_hash_def digest32_def)

lemma levels_from_wf: "digest32 b \<Longrightarrow> cur \<noteq> [] \<Longrightarrow> list_all wf_hash cur \<Longrightarrow> last (levels_from b cur) \<noteq> [] \<and> list_all wf_hash (last (levels_from b cur))"
proof (induction b cur rule: levels_from.induct)
  case (1 b cur)
  show ?case
  proof (cases "length cur > 1")
    case True
    then have ne: "next_level b cur \<noteq> []" using length_next_level [of b cur] by auto
    moreover have "levels_from b (next_level b cur) \<noteq> []" by (subst levels_from.simps) simp
    ultimately show ?thesis using 1 True next_level_wf [of b cur] by (simp add: levels_from.simps [of b cur])
  next
    case False
    then show ?thesis using 1 by (simp add: levels_from.simps [of b cur])
  qed
qed

lemma merkle_root_wf: "digest32 b \<Longrightarrow> wf_hash (merkle_root b hs)"
proof (cases "hs = []")
  case True
  then show "digest32 b \<Longrightarrow> ?thesis" by (simp add: merkle_root_def wf_hash_def digest32_def)
next
  case False
  assume b: "digest32 b"
  then have "list_all wf_hash (map (leaf_hash b) hs)" by (simp add: list_all_iff leaf_hash_def wf_hash_def digest32_def)
  then show ?thesis using levels_from_wf [OF b, of "map (leaf_hash b) hs"] False
    by (simp add: merkle_root_def build_levels_def list_all_length)
qed

definition codec_inverse :: "'a codec \<Rightarrow> bool" where
  "codec_inverse Z \<longleftrightarrow> (\<forall>a b. serialize Z a = Inr b \<longrightarrow> deserialize Z b = Inr a)"

lemma SCHEME_PREFIX_uri: "uri X m = SCHEME_PREFIX @ to_hex X (m_root m)"
  by (simp add: uri_def URI_SCHEME_def SCHEME_PREFIX_def)

lemma register_then_load:
  assumes reg: "register D m s = (Inr (), s')" and X: "hex_ok (de_crates D)" "wf_hash (m_root m)" and Z: "codec_inverse (de_manifest D)"
  shows "load_provide_manifest D (ds_fs s') (uri (de_crates D) m) = Inr m"
proof -
  let ?dir = "manifests_dir (de_store_dir D)" and ?tmp = "registry_tmp (de_crates D) (de_proc D) (ds_counter s) m"
    and ?name = "registry_name (de_crates D) m"
  obtain b f1 f2 where b: "to_nptp (de_manifest D) m = Inr b" and f12: "fs_create_dir_all (ds_fs s) ?dir = Inr f1"
      "fs_write f1 (?dir @ [?tmp]) b = Inr f2" "fs_rename f2 (?dir @ [?tmp]) (?dir @ [?name]) = Inr (ds_fs s')"
    using reg by (auto simp: register_def register_manifest_def err_text_def Let_def split: sum.splits)
  have "?tmp \<noteq> ?name" using registry_name_extension [OF X] registry_tmp_extension by metis
  then have "fs_read (ds_fs s') (?dir @ [?name]) = fs_read f2 (?dir @ [?tmp])" using fs_rename_file [OF f12(3)] by simp
  also have "\<dots> = Inr b" using f12(2) by (auto simp: fs_read_def fs_write_def fs_open_write_def split: option.splits if_splits)
  finally have rd: "fs_read (ds_fs s') (registry_path D (m_root m)) = Inr b"
    by (simp add: registry_path_def manifests_dir_def registry_name_def)
  have "codec_ok (de_manifest D) m" using b Z by (auto simp: codec_inverse_def codec_ok_def to_nptp_def to_bytes_def split: sum.splits)
  then have "from_nptp (de_manifest D) b = Inr m" using nptp_container b by fastforce
  then show ?thesis using rd from_hex_to_hex [OF X] by (simp add: load_provide_manifest_def SCHEME_PREFIX_uri err_text_def)
qed

text \<open>
  C38. Converting and providing close into a loop: when \<open>convert\<close> packs a path and answers, the root it hands
  back names a manifest that \<open>provide\<close> finds in the registry; and when \<open>provide\<close> of that root then answers, the
  root is announced.
\<close>

theorem convert_then_provide:
  assumes X: "hex_ok (de_crates D)" "digest_ok (de_crates D)" and Z: "codec_inverse (de_manifest D)"
    and conv: "run_convert D rid None None (Some p) s = Some (Inr flds, s')"
  shows "\<exists>m. json_get flds ''root'' = Some (JString (uri (de_crates D) m)) \<and> load_provide_manifest D (ds_fs s') (uri (de_crates D) m) = Inr m
    \<and> (\<forall>flds' s''. run_provide D (uri (de_crates D) m) s' = (Inr flds', s'') \<longrightarrow>
         json_get flds' ''root'' = json_get flds ''root'' \<and> m_root m \<in> dom (hm_get (ds_announces s'')))"
proof -
  obtain files m prog st f s1 where
      ing: "ingest_tree_files_no_copy_with_progress (de_crates D) (ds_store s) (ds_fs s) files (path_file_name p) = (Inr m, prog, st, f)"
    and reg: "register D m s1 = (Inr (), s')" and root: "json_get flds ''root'' = Some (JString (uri (de_crates D) m))"
    using conv by (auto simp: run_convert_def convert_path_def Let_def json_get_def hm_get_def split: sum.splits prod.splits)
  have "m_root m = merkle_root (blake3 (de_crates D)) (map cref_hash (m_chunks m))"
    using ing by (auto simp: ingest_tree_files_no_copy_with_progress_def ingest_tree_files_impl_def split: sum.splits prod.splits)
  then have "wf_hash (m_root m)" using merkle_root_wf X(2) by simp
  note load = register_then_load [OF reg X(1) this Z]
  moreover have "json_get flds' ''root'' = json_get flds ''root'' \<and> m_root m \<in> dom (hm_get (ds_announces s''))"
    if "run_provide D (uri (de_crates D) m) s' = (Inr flds', s'')" for flds' s''
    using that load root by (auto simp: run_provide_def json_get_def hm_get_def [of "_ # _"] split: sum.splits prod.splits)
  ultimately show ?thesis using root by blast
qed


section \<open>Fetch\<close>

lemma quiet_fs: "ds_fs (report_all D rid op calls prev s) = ds_fs s"
proof (induction calls arbitrary: prev s)
  case (Cons c calls)
  then show ?case by (cases c) (auto simp: report_def read_clock_def send_def split: prod.splits)
qed simp

lemma attempts_manifest:
  "fetch_attempts D rid root ps dl k a e sc prev s = (Inr m, s') \<Longrightarrow> m_root m = root \<and> root_is_consistent (de_crates D) m \<and> validate m = Inr ()"
proof (induction k arbitrary: a e sc prev s)
  case (Suc k)
  obtain late s1 where c: "(if 0 < a then case read_clock D s of (now, s') \<Rightarrow> (dl \<le> now, s') else (False, s)) = (late, s1)" by force
  define s2 where "s2 = (if 0 < a then s1\<lparr>ds_net := de_sleep D (50 * 2 ^ (a - 1)) (ds_net s1)\<rparr> else s1)"
  obtain x sc' prev' s3 where x: "attempt_download D rid root ps sc prev s2 = (x, sc', prev', s3)" by (metis prod_cases4)
  have "x = Inr m \<or> (\<exists>e'. fetch_attempts D rid root ps dl k (Suc a) e' sc' prev' s3 = (Inr m, s'))"
    using Suc.prems c x by (cases x) (auto simp: s2_def [symmetric] split: if_splits)
  moreover have "\<exists>n n' e. first_manifest (de_rt D) (de_crates D) (de_manifest D) root ps e n = (Inr m, n')" if "x = Inr m"
    using x that by (auto simp: attempt_download_def download_multi_with_progress_def Let_def split: prod.splits sum.splits if_splits option.splits)
  ultimately show ?case using Suc.IH first_manifest_ok by metis
qed simp

lemma file_loop_content:
  "file_loop X m dest tot i cs prog st f = (Inr (), prog', st', f') \<Longrightarrow> cs = drop i (m_chunks m) \<Longrightarrow>
    \<exists>bs. map (hash_of (blake3 X)) bs = map cref_hash cs \<and> file_content f' dest = file_content f dest @ concat bs
      \<and> (hm_contains (fs_files f) dest \<longrightarrow> hm_contains (fs_files f') dest)"
proof (induction cs arbitrary: i prog st f)
  case (Cons c cs)
  have i: "i < length (m_chunks m)" "m_chunks m ! i = c" "cs = drop (Suc i) (m_chunks m)"
    using Cons.prems(2) by (metis drop_eq_Nil linorder_not_less list.distinct(1), metis Cons_nth_drop_Suc drop_eq_Nil linorder_not_less list.distinct(1) list.sel(1),
      metis drop_Suc list.sel(3) tl_drop)
  obtain b st1 f1 where b: "export_chunk X st f m i c = (Inr b, st1)" "handle_append f dest b = Inr f1"
      "file_loop X m dest tot (Suc i) cs (prog @ [(i + 1, tot)]) st1 f1 = (Inr (), prog', st', f')"
    using Cons.prems(1) by (auto split: prod.splits sum.splits)
  have "chunk_hash_ok X m i b" using b(1) by (auto simp: export_chunk_def split: prod.splits sum.splits option.splits if_splits)
  then have hb: "hash_of (blake3 X) b = cref_hash c" using i by (simp add: chunk_hash_ok_def nth_opt_def)
  have f1: "file_content f1 dest = file_content f dest @ b" "hm_contains (fs_files f1) dest"
    using b(2) by (auto simp: handle_append_def file_content_def hm_contains_def split: if_splits)
  from Cons.IH [OF b(3) i(3)] obtain bs where bs: "map (hash_of (blake3 X)) bs = map cref_hash cs"
      "file_content f' dest = file_content f1 dest @ concat bs" "hm_contains (fs_files f') dest" using f1(2) by blast
  then show ?case using f1 hb by (intro exI [of _ "b # bs"]) simp
qed auto

lemma write_output_content:
  assumes w: "write_output_to D m out st f = (Inr dest, prog, st', f')" and single: "\<not> looks_like_tree m"
  shows "\<exists>bs. map (hash_of (blake3 (de_crates D))) bs = chunk_hashes m \<and> hm_get (fs_files f') (de_path D out) = Some (concat bs)"
proof -
  obtain f1 where f1: "create_file f (de_path D out) out = Inr f1" "export_to_file (de_crates D) st f1 m (de_path D out) = (Inr (), prog, st', f')"
    using w single by (auto simp: write_output_to_def split: sum.splits prod.splits if_splits)
  have "hm_get (fs_files f1) (de_path D out) = Some []" using f1(1) fs_write_file by (fastforce simp: create_file_def split: if_splits)
  then have empty: "file_content f1 (de_path D out) = []" "hm_contains (fs_files f1) (de_path D out)" by (simp_all add: file_content_def hm_contains_def)
  have "file_loop (de_crates D) m (de_path D out) (length (m_chunks m)) 0 (m_chunks m) [] st f1 = (Inr (), prog, st', f')"
    using f1(2) by (auto simp: export_to_file_def split: if_splits)
  from file_loop_content [OF this] empty show ?thesis by (auto simp: chunk_hashes_def file_content_def hm_contains_def split: option.splits)
qed

text \<open>
  What the daemon fetches is what was asked for: when \<open>fetch\<close> answers with a result, whatever the tracker
  and the peers said and however many attempts it took, the answer names the requested root, a valid
  manifest with that root was downloaded, and for a single file the output file holds exactly its content:
  bytes whose chunk hashes are the ones the root commits to.
\<close>

theorem fetch_verified:
  assumes run: "run_fetch D rid u out s = (Inr flds, s')"
  shows "\<exists>root m. fetch_root D (ds_fs s) u = Inr root \<and> m_root m = root \<and> root_is_consistent (de_crates D) m \<and> validate m = Inr ()
    \<and> json_get flds ''root'' = Some (JString (uri (de_crates D) m))
    \<and> (\<not> looks_like_tree m \<longrightarrow> (\<exists>bs. map (hash_of (blake3 (de_crates D))) bs = chunk_hashes m
         \<and> hm_get (fs_files (ds_fs s')) (de_path D out) = Some (concat bs)))"
proof -
  obtain root ps dl k e sc prev s3 m s4 where root: "fetch_root D (ds_fs s) u = Inr root"
    and att: "fetch_attempts D rid root ps dl k 0 e sc prev s3 = (Inr m, s4)" and ex: "fetch_export D rid m out s4 = (Inr flds, s')"
    using run by (auto simp: run_fetch_def Let_def split: sum.splits prod.splits if_splits)
  obtain dest prog st f where w: "write_output_to D m out (ds_store s4) (ds_fs s4) = (Inr dest, prog, st, f)"
    and s': "ds_fs s' = f" and flds: "json_get flds ''root'' = Some (JString (uri (de_crates D) m))"
    using ex by (auto simp: fetch_export_def quiet_fs json_get_def hm_get_def split: prod.splits sum.splits)
  show ?thesis using root attempts_manifest [OF att] s' flds write_output_content [OF w] by blast
qed

text \<open>
  Every operation of the daemon returns, fetches against dead peers and conversions of any torrent included,
  so its request gets its terminal event; the one that may wait for ever is a BitTorrent download.
\<close>

theorem daemon_op_returns: "(\<exists>input out. op = OpTorrent input out \<and> de_rqbit D \<noteq> None) \<or> (\<exists>r s'. run_op D rid op s = Some (r, s'))"
proof -
  have conv: "\<exists>r s'. convert_torrent D tp dd s = Some (r, s')" for tp dd
  proof (cases "fs_read (ds_fs s) (de_path D tp)")
    case (Inr b)
    show ?thesis
    proof (cases "parse_torrent_file (de_sha1 D) b")
      case meta: (Inr meta)
      obtain x st f n where "resolve_or_convert_local (de_rt D) (de_crates D) (de_manifest D) (de_sched D) (de_sha1 D) (de_io_text D)
              meta (de_path D dd) False (ds_store s) (ds_fs s) (ds_net s) = Some (x, (st, f), n)"
        using local_bridge_ends by (metis prod.exhaust)
      then show ?thesis using Inr meta by (cases x) (auto simp: convert_torrent_def split: prod.split sum.split)
    qed (simp add: convert_torrent_def Inr)
  qed (simp add: convert_torrent_def)
  show ?thesis
  proof (cases op)
    case (OpConvert torrent data p)
    then show ?thesis using conv by (auto simp: run_op_def run_convert_def split: option.splits intro: prod.exhaust [of "convert_path D rid _ s"])
  next
    case (OpTorrent input out)
    then show ?thesis by (cases "de_rqbit D") (auto simp: run_op_def run_torrent_def)
  qed (auto simp: run_op_def intro: prod.exhaust)
qed

section \<open>A small daemon\<close>

definition sample_json :: json_lib where
  "sample_json = \<lparr>js_parse = (\<lambda>_. Inl ''no''), js_show = (\<lambda>_. []),
     js_request = (\<lambda>l. if l = ''s'' then Inr \<lparr>rq_id = 4, rq_op = OpShutdown\<rparr> else Inl ''bad''),
     js_peers = (\<lambda>_. Inr [\<lparr>pe_peer = ''p'', pe_addrs = [''a''], pe_addr = None\<rparr>])\<rparr>"

definition sample_addr :: addr_lib where
  "sample_addr = \<lparr>ma_text = (\<lambda>_. ''a''), ma_parse = (\<lambda>_. Inr [OtherProtocol ''a'']), peer_text = (\<lambda>_. ''p''), peer_parse = (\<lambda>_. Some [1])\<rparr>"

definition sample_denv :: "'n runtime \<Rightarrow> manifest codec \<Rightarrow> ('n, unit) daemon_env" where
  "sample_denv R Z = \<lparr>de_rt = R, de_peer = [7], de_crates = sample_crates, de_manifest = Z, de_sched = (\<lambda>k. [0..<k]), de_sha1 = (\<lambda>b. b),
     de_json = sample_json, de_addr = sample_addr, de_rqbit = None, de_proc = \<lparr>proc_id = 7, proc_millis = 0\<rparr>, de_path = (\<lambda>s. [s]), de_show_path = concat,
     de_store_dir = [''s''], de_tracker = ''t'', de_now = (\<lambda>k. k), de_sleep = (\<lambda>_ n. n), de_http_get = (\<lambda>_ n. (Inr ([[0]], None), n)),
     de_http_post = (\<lambda>_ _ n. (Inr (), n)), de_io_text = (\<lambda>_. ''io''), de_hex_text = (\<lambda>_. ''hex''), de_store_text = (\<lambda>_. ''store''),
     de_manifest_text = (\<lambda>_. ''manifest''), de_net_text = (\<lambda>_. ''net''), de_bridge_text = (\<lambda>_. ''bridge''), de_node_text = (\<lambda>_. ''node'')\<rparr>"

definition sample_dstate :: "fs \<Rightarrow> 'n \<Rightarrow> ('n, unit) daemon_state" where
  "sample_dstate f n = \<lparr>ds_store = sample_store, ds_fs = f, ds_net = n, ds_rqbit = (), ds_announces = [], ds_handles = 0, ds_aborted = [],
     ds_shutdown = False, ds_counter = 0, ds_clock = 0, ds_sent = []\<rparr>"

theorem daemon_answers_once_witness:
  "\<exists>d. daemon_run (sample_denv quiet_runtime tiny_codec) (sample_dstate sample_fs None) [LineRead ''s''] d
     \<and> dm_asked d = [4] \<and> dm_waiting d = [] \<and> dm_running d = [] \<and> length (filter (answers 4) (dm_out d)) = 1"
proof -
  let ?D = "sample_denv quiet_runtime tiny_codec" and ?s = "sample_dstate sample_fs None"
  let ?s' = "send [event_result 4 (JObject [])] (?s\<lparr>ds_shutdown := True\<rparr>)"
  let ?d0 = "\<lparr>dm_state = ?s, dm_input = [LineRead ''s''], dm_waiting = [], dm_running = [], dm_out = [], dm_open = True, dm_asked = []\<rparr>"
  let ?d1 = "?d0\<lparr>dm_input := [], dm_waiting := [TaskExec 4 OpShutdown], dm_asked := [4]\<rparr>"
  let ?d2 = "?d1\<lparr>dm_waiting := [], dm_state := ?s', dm_running := [(4, [event_result 4 (JObject [])])]\<rparr>"
  let ?d3 = "?d2\<lparr>dm_running := [], dm_out := [event_result 4 (JObject [])]\<rparr>"
  have "daemon_run ?D ?s [LineRead ''s''] ?d0" by (rule daemon_run.start)
  moreover have "on_line sample_json ''s'' = ([], Some (TaskExec 4 OpShutdown))" "line_ids sample_json ''s'' = [4]" by code_simp+
  then have "daemon_step ?D ?d0 ?d1"
    using daemon_step.line [of ?d0 "''s''" "[]" ?D "[]" "Some (TaskExec 4 OpShutdown)"] by (simp add: sample_denv_def task_list_def)
  ultimately have "daemon_run ?D ?s [LineRead ''s''] ?d1" by (rule daemon_run.step)
  moreover have "daemon_step ?D ?d1 ?d2"
    using daemon_step.run [of ?d1 "[]" "TaskExec 4 OpShutdown" "[]" ?D ?s']
    by (simp add: run_task_def execute_def run_op_def outcome_def send_def sample_dstate_def)
  ultimately have "daemon_run ?D ?s [LineRead ''s''] ?d2" by (rule daemon_run.step)
  moreover have "daemon_step ?D ?d2 ?d3"
    using daemon_step.emit [of ?d2 "[]" 4 "event_result 4 (JObject [])" "[]" "[]" ?D] by simp
  ultimately have r: "daemon_run ?D ?s [LineRead ''s''] ?d3" by (rule daemon_run.step)
  from daemon_answers_once [OF r, of 4] r show ?thesis by (intro exI [of _ ?d3]) simp
qed

definition conv_manifest :: manifest where
  "conv_manifest = from_files sample_crates [(''movie'', [1, 2, 3, 4, 5])] (Some ''movie'')"

definition conv_codec :: "manifest codec" where
  "conv_codec = \<lparr>serialize = (\<lambda>m. if m = conv_manifest then Inr [9] else Inl ''no''),
     deserialize = (\<lambda>b. if b = [9] then Inr conv_manifest else Inl ''eof'')\<rparr>"

definition sample_convert :: "((string + json) \<times> (command option, unit) daemon_state) option" where
  "sample_convert = run_convert (sample_denv quiet_runtime conv_codec) 1 None None (Some ''movie'') (sample_dstate sample_source_fs None)"

theorem convert_then_provide_witness:
  "\<exists>m flds s'. sample_convert = Some (Inr flds, s') \<and> load_provide_manifest (sample_denv quiet_runtime conv_codec) (ds_fs s') (uri sample_crates m) = Inr m"
proof -
  have "case sample_convert of Some (Inr _, _) \<Rightarrow> True | _ \<Rightarrow> False" by code_simp
  then obtain flds s' where c: "sample_convert = Some (Inr flds, s')" by (auto split: option.splits sum.splits)
  have "codec_inverse conv_codec" by (auto simp: codec_inverse_def conv_codec_def split: if_splits)
  then show ?thesis using convert_then_provide [OF _ _ _ c [unfolded sample_convert_def]] hex_ok_sample digest_ok_sample c
    by (auto simp: sample_denv_def)
qed

definition sample_unprovide :: "(string + json) \<times> (command option, unit) daemon_state" where
  "sample_unprovide = run_unprovide (sample_denv quiet_runtime conv_codec) (to_hex sample_crates sample_hash)
     ((sample_dstate sample_fs None)\<lparr>ds_announces := [(sample_hash, 3)]\<rparr>)"


abbreviation tiny_denv :: "((peer \<times> request) option, unit) daemon_env" where
  "tiny_denv \<equiv> sample_denv (table_runtime tiny_answer) tiny_codec"

abbreviation tiny_dstate :: "((peer \<times> request) option, unit) daemon_state" where
  "tiny_dstate \<equiv> sample_dstate sample_fs None"

definition sample_attempt where
  "sample_attempt = attempt_download tiny_denv 2 (m_root tiny_manifest) [[1]] False None (tiny_dstate\<lparr>ds_clock := 1\<rparr>)"

definition sample_export where
  "sample_export = fetch_export tiny_denv 2 tiny_manifest ''out'' (snd (snd (snd sample_attempt)))"

lemma sample_attempt_result: "fst sample_attempt = Inr tiny_manifest"
  by code_simp

lemma sample_export_result: "\<not> isl (fst sample_export)"
  by code_simp

lemma sample_discover: "discover tiny_denv root tiny_dstate = ([[1]], tiny_dstate)"
  by (simp add: discover_def tracker_get_peers_def TRACKER_MAX_BODY_def sample_denv_def sample_json_def sample_addr_def entry_addrs_def sample_dstate_def
      connect_to_def net_add_peer_def net_dial_def net_send_def unit_call_def net_call_def table_runtime_def)

lemma sample_connected: "connected_or_none tiny_denv None = ([], None)"
  by (simp add: connected_or_none_def sample_denv_def connected_peers_def peers_call_def net_call_def net_send_def table_runtime_def)

lemma sample_settle: "settle tiny_denv [[1]] k [] None = ([], None)"
proof (induction k)
  case (Suc k)
  have "de_sleep tiny_denv 50 None = None" by (simp add: sample_denv_def)
  then show ?case using Suc sample_connected by (simp add: settled_def)
qed simp

definition sample_fetch :: "(string + json) \<times> ((peer \<times> request) option, unit) daemon_state" where
  "sample_fetch = run_fetch tiny_denv 2 (uri sample_crates tiny_manifest) ''out'' tiny_dstate"

lemma sample_fetch_export: "sample_fetch = sample_export"
proof -
  have root: "fetch_root tiny_denv (ds_fs tiny_dstate) (uri sample_crates tiny_manifest) = Inr (m_root tiny_manifest)" by code_simp
  obtain sc prev s4 where att: "sample_attempt = (Inr tiny_manifest, sc, prev, s4)" using sample_attempt_result by (metis prod.collapse)
  have "fetch_attempts tiny_denv 2 (m_root tiny_manifest) [[1]] dl (Suc 4) 0 [] False None (tiny_dstate\<lparr>ds_clock := 1\<rparr>) = (Inr tiny_manifest, s4)" for dl
    using att unfolding sample_attempt_def fetch_attempts.simps by simp
  then have five: "fetch_attempts tiny_denv 2 (m_root tiny_manifest) [[1]] dl 5 0 [] False None (tiny_dstate\<lparr>ds_clock := 1\<rparr>) = (Inr tiny_manifest, s4)" for dl
    by (simp add: numeral_eq_Suc)
  have net: "ds_net tiny_dstate = None" "tiny_dstate\<lparr>ds_net := None\<rparr> = tiny_dstate" "ds_clock tiny_dstate = 0" by (simp_all add: sample_dstate_def)
  show ?thesis unfolding sample_fetch_def sample_export_def run_fetch_def
    by (simp add: root sample_discover net sample_connected sample_settle fetch_providers_def read_clock_def five [unfolded One_nat_def] att)
qed

theorem fetch_verified_witness:
  "\<exists>flds s' m. sample_fetch = (Inr flds, s') \<and> m_root m = m_root tiny_manifest \<and> root_is_consistent sample_crates m"
proof -
  obtain flds s' where c: "sample_fetch = (Inr flds, s')" using sample_export_result sample_fetch_export by (metis prod.collapse sum.collapse(2))
  have "fetch_root tiny_denv sample_fs (uri sample_crates tiny_manifest) = Inr (m_root tiny_manifest)" by code_simp
  with fetch_verified [OF c [unfolded sample_fetch_def]] show ?thesis using c by (auto simp: sample_denv_def sample_dstate_def)
qed

end
