(* ===== verification/Cli.thy ===== *)
theory Cli
  imports Daemon
begin

text \<open>
  The command line (\<open>crates/np2ptp-node/src/main.rs\<close>) and the tracker client of the binary
  (\<open>crates/np2ptp-node/src/tracker.rs\<close>): argument parsing, packing, inspecting, copying between stores,
  fetching, bridging a torrent, and the start of a server. A command returns an error text or nothing, and
  changes the file system and the standard output. Environment variables, random bytes and the spawned network
  are parameters; what goes to standard error is left out.
\<close>

section \<open>Environment and output\<close>

datatype cli_line = JsonLine json | TextLine string

record ('n, 'q, 'd) cli_env =
  ce_node :: "('n, 'q) daemon_env"
  ce_var :: "string \<Rightarrow> string option"
  ce_random :: "string + bytes"
  ce_spawn :: "store \<Rightarrow> fs \<Rightarrow> bytes option \<Rightarrow> (net_error + 'n) \<times> fs"
  ce_raptorq :: "'d raptorq"
  ce_http_get :: "string \<Rightarrow> 'n \<Rightarrow> (string + bytes) \<times> 'n"
  ce_debug :: "string \<Rightarrow> string"

record cli =
  cl_fs :: fs
  cl_clock :: nat
  cl_out :: "cli_line list"

definition say :: "cli_line list \<Rightarrow> cli \<Rightarrow> cli" where
  "say ls s = s\<lparr>cl_out := cl_out s @ ls\<rparr>"

definition cli_now :: "('n, 'q) daemon_env \<Rightarrow> cli \<Rightarrow> nat \<times> cli" where
  "cli_now D s = (de_now D (cl_clock s), s\<lparr>cl_clock := Suc (cl_clock s)\<rparr>)"

definition text_lines :: "string list \<Rightarrow> cli_line list" where
  "text_lines = map TextLine"

definition DASH :: string where "DASH = [CHR 0xE2, CHR 0x80, CHR 0x94]"

definition shown :: "'a::len word \<Rightarrow> string" where "shown w = show_nat (unat w)"

definition DEFAULT_STORE :: string where "DEFAULT_STORE = ''.np2ptp-store''"

definition DEFAULT_RELAY :: string where
  "DEFAULT_RELAY = ''/ip4/163.176.3.43/udp/4001/quic-v1/p2p/12D3KooWCDtHFj8yc5Qi8bQf5DesahNdHcJbVgh6QGaCmrAas5iC''"

definition default_relay :: "('n, 'q, 'd) cli_env \<Rightarrow> string" where
  "default_relay C = (case ce_var C ''NP2PTP_RELAY'' of Some v \<Rightarrow> v | None \<Rightarrow> DEFAULT_RELAY)"

definition DEFAULT_TRACKER :: string where "DEFAULT_TRACKER = ''https://nptp.bogotec.uk''"

definition default_tracker :: "('n, 'q, 'd) cli_env \<Rightarrow> string" where
  "default_tracker C = (case ce_var C ''NP2PTP_TRACKER'' of Some v \<Rightarrow> v | None \<Rightarrow> DEFAULT_TRACKER)"

section \<open>Arguments\<close>

fun parse_loop :: "string list \<Rightarrow> string list \<Rightarrow> string list \<Rightarrow> (string, string) hmap \<Rightarrow> string list \<times> (string, string) hmap" where
  "parse_loop value_flags [] positionals flags = (positionals, flags)"
| "parse_loop value_flags (a # args) positionals flags =
     (case strip_prefix ''--'' a of
        Some name \<Rightarrow>
          if a \<in> set value_flags \<and> args \<noteq> []
          then parse_loop value_flags (tl args) positionals (hm_insert name (hd args) flags)
          else parse_loop value_flags args positionals (hm_insert name [] flags)
      | None \<Rightarrow> parse_loop value_flags args (positionals @ [a]) flags)"

definition parse :: "string list \<Rightarrow> string list \<Rightarrow> string list \<times> (string, string) hmap" where
  "parse args value_flags = parse_loop value_flags args [] []"

definition flag_or :: "(string, string) hmap \<Rightarrow> string \<Rightarrow> string \<Rightarrow> string" where
  "flag_or flags k d = (case hm_get flags k of Some v \<Rightarrow> v | None \<Rightarrow> d)"

section \<open>Progress\<close>

text \<open>The progress closures of the commands: silent without \<open>--json\<close>, else throttled like the daemon's.\<close>

fun cli_progress :: "('n, 'q) daemon_env \<Rightarrow> (u64 \<Rightarrow> u64 \<Rightarrow> json) \<Rightarrow> bool \<Rightarrow> (u64 \<times> u64) list \<Rightarrow> nat \<Rightarrow> cli \<Rightarrow> nat \<times> cli" where
  "cli_progress D mk json [] prev s = (prev, s)"
| "cli_progress D mk json ((don, tot) # calls) prev s =
     (if \<not> json then cli_progress D mk json calls prev s
      else case cli_now D s of (now, s1) \<Rightarrow>
        if don = tot \<or> 100 \<le> now - prev then cli_progress D mk json calls now (say [JsonLine (mk don tot)] s1)
        else cli_progress D mk json calls prev s1)"

definition bytes_progress :: "string \<Rightarrow> u64 \<Rightarrow> u64 \<Rightarrow> json" where
  "bytes_progress op don tot =
     JObject [(''event'', JString ''progress''), (''op'', JString op), (''bytes_done'', jnum don), (''bytes_total'', jnum tot)]"

definition chunks_progress :: "string \<Rightarrow> string \<Rightarrow> u64 \<Rightarrow> u64 \<Rightarrow> json" where
  "chunks_progress op phase don tot =
     JObject [(''event'', JString ''progress''), (''op'', JString op), (''phase'', JString phase), (''chunks_done'', jnum don), (''chunks_total'', jnum tot)]"

section \<open>Pack\<close>

definition pack_files :: "('n, 'q) daemon_env \<Rightarrow> fs \<Rightarrow> string \<Rightarrow> string option \<Rightarrow> string + (string \<times> path) list" where
  "pack_files D f input name =
     (case fs_is_dir f (de_path D input) of
        Inl e \<Rightarrow> Inl (de_io_text D e)
      | Inr True \<Rightarrow> (case read_dir_paths f (de_path D input) of
          Inl e \<Rightarrow> Inl (de_node_text D e)
        | Inr files \<Rightarrow> if files = [] then Inl (''pack: directory '' @ input @ '' contains no files'') else Inr files)
      | Inr False \<Rightarrow>
          Inr [(case name of Some n \<Rightarrow> n | None \<Rightarrow> (case path_file_name input of Some n \<Rightarrow> n | None \<Rightarrow> ''data''), de_path D input)])"

definition pack_ingest :: "('n, 'q) daemon_env \<Rightarrow> bool \<Rightarrow> string \<Rightarrow> string option \<Rightarrow> store \<Rightarrow> fs \<Rightarrow> (string + manifest) \<times> progress \<times> store \<times> fs" where
  "pack_ingest D no_copy input name st f =
     (case pack_files D f input name of
        Inl e \<Rightarrow> (Inl e, [], st, f)
      | Inr files \<Rightarrow>
          (case (if no_copy then ingest_tree_files_no_copy_with_progress (de_crates D) st f files name
                 else ingest_tree_files_with_progress (de_crates D) st f files name) of
             (r, s) \<Rightarrow> (err_text (de_store_text D) r, s)))"

text \<open>The manifest is staged in a temporary file and renamed into place.\<close>

definition nptp_tmp :: "('n, 'q) daemon_env \<Rightarrow> string \<Rightarrow> string" where
  "nptp_tmp D out = out @ ''.tmp-'' @ show_nat (proc_id (de_proc D))"

definition write_nptp :: "('n, 'q) daemon_env \<Rightarrow> manifest \<Rightarrow> string \<Rightarrow> fs \<Rightarrow> (string + unit) \<times> fs" where
  "write_nptp D m out f =
     (case to_nptp (de_manifest D) m of
        Inl e \<Rightarrow> (Inl (de_manifest_text D e), f)
      | Inr b \<Rightarrow> (case fs_write f (de_path D (nptp_tmp D out)) b of
          Inl e \<Rightarrow> (Inl (de_io_text D e), f)
        | Inr f1 \<Rightarrow> (case (if names_directory out then Inl IsADirectory else fs_rename f1 (de_path D (nptp_tmp D out)) (de_path D out)) of
            Inl e \<Rightarrow> (Inl (de_io_text D e), f1)
          | Inr f2 \<Rightarrow> (Inr (), f2))))"

definition pack_report :: "('n, 'q) daemon_env \<Rightarrow> bool \<Rightarrow> bool \<Rightarrow> string \<Rightarrow> string \<Rightarrow> string \<Rightarrow> manifest \<Rightarrow> progress \<Rightarrow> cli_line list" where
  "pack_report D json no_copy input out store_dir m prog =
     (if json then
        [JsonLine (JObject [(''event'', JString ''result''), (''op'', JString ''pack''), (''root'', JString (uri (de_crates D) m)),
           (''chunks_total'', jlen (m_chunks m)), (''chunks_new'', jlen (filter (\<lambda>(_, _, is_new). is_new) prog)), (''bytes_total'', jnum (m_total_size m))])]
      else text_lines
        ([''packed '' @ input @ '' ('' @ shown (m_total_size m) @ '' bytes) -> '' @ out,
          ''  files: '' @ show_nat (length (m_files m)) @ ''   chunks: '' @ show_nat (length (m_chunks m)) @ ''   store: '' @ store_dir]
         @ (if no_copy then [''  (--no-copy: chunks reference '' @ input @ '' in place '' @ DASH @ '' keep it there and unchanged)''] else [])
         @ [''  link:  '' @ uri (de_crates D) m]))"

definition cmd_pack :: "('n, 'q, 'd) cli_env \<Rightarrow> string list \<Rightarrow> cli \<Rightarrow> (string + unit) \<times> cli" where
  "cmd_pack C args s =
     (let D = ce_node C; (pos, flags) = parse args [''--out'', ''--store'', ''--name''] in
      case pos of
        [] \<Rightarrow> (Inl ''pack: missing <input> file or directory'', s)
      | input # _ \<Rightarrow>
          let store_dir = flag_or flags ''store'' DEFAULT_STORE; no_copy = hm_contains flags ''no-copy''; json = hm_contains flags ''json'';
              name = (case hm_get flags ''name'' of Some n \<Rightarrow> Some n | None \<Rightarrow> path_file_name input);
              out = flag_or flags ''out'' (input @ ''.nptp'') in
          (case store_open (de_crates D) (cl_fs s) (de_path D store_dir) of
             (Inl e, f1) \<Rightarrow> (Inl (de_store_text D e), s\<lparr>cl_fs := f1\<rparr>)
           | (Inr st, f1) \<Rightarrow> (case cli_now D (s\<lparr>cl_fs := f1\<rparr>) of (now, s1) \<Rightarrow>
               case pack_ingest D no_copy input name st f1 of (r, prog, st', f2) \<Rightarrow>
               case cli_progress D (bytes_progress ''pack'') json (map (\<lambda>(don, tot, _). (don, tot)) prog) now (s1\<lparr>cl_fs := f2\<rparr>) of (_, s2) \<Rightarrow>
               (case r of
                  Inl e \<Rightarrow> (Inl e, s2)
                | Inr m \<Rightarrow> (case write_nptp D m out f2 of
                    (Inl e, f3) \<Rightarrow> (Inl e, s2\<lparr>cl_fs := f3\<rparr>)
                  | (Inr _, f3) \<Rightarrow> (Inr (), say (pack_report D json no_copy input out store_dir m prog) (s2\<lparr>cl_fs := f3\<rparr>)))))))"

section \<open>Info\<close>

definition read_nptp :: "('n, 'q) daemon_env \<Rightarrow> fs \<Rightarrow> string \<Rightarrow> string + manifest" where
  "read_nptp D f p =
     (case fs_read f (de_path D p) of
        Inl e \<Rightarrow> Inl (de_io_text D e)
      | Inr b \<Rightarrow> err_text (de_manifest_text D) (from_nptp (de_manifest D) b))"

definition pad_left :: "nat \<Rightarrow> string \<Rightarrow> string" where
  "pad_left n t = replicate (n - length t) CHR '' '' @ t"

definition info_report :: "crates \<Rightarrow> manifest \<Rightarrow> cli_line list" where
  "info_report X m = text_lines
     ([''name:       '' @ (case m_name m of Some n \<Rightarrow> n | None \<Rightarrow> ''(none)''),
       ''size:       '' @ shown (m_total_size m) @ '' bytes'',
       ''files:      '' @ show_nat (length (m_files m)),
       ''chunks:     '' @ show_nat (length (m_chunks m)),
       ''root:       '' @ to_hex X (m_root m),
       ''link:       '' @ uri X m,
       ''consistent: '' @ (if root_is_consistent X m then ''true'' else ''false'')]
      @ (if 1 < length (m_files m) then
           ''contents:'' # map (\<lambda>e. ''  '' @ pad_left 12 (shown (fe_size e)) @ ''  '' @ fe_path e) (take 20 (m_files m))
           @ (if 20 < length (m_files m) then [''  '' @ [CHR 0xE2, CHR 0x80, CHR 0xA6] @ '' and '' @ show_nat (length (m_files m) - 20) @ '' more''] else [])
         else []))"

definition cmd_info :: "('n, 'q, 'd) cli_env \<Rightarrow> string list \<Rightarrow> cli \<Rightarrow> (string + unit) \<times> cli" where
  "cmd_info C args s =
     (let (pos, _) = parse args [] in
      case pos of
        [] \<Rightarrow> (Inl ''info: missing <file.nptp>'', s)
      | p # _ \<Rightarrow> (case read_nptp (ce_node C) (cl_fs s) p of
          Inl e \<Rightarrow> (Inl e, s)
        | Inr m \<Rightarrow> (Inr (), say (info_report (de_crates (ce_node C)) m) s)))"

section \<open>Get\<close>

text \<open>Where the content goes: \<open>--out\<close>, else the manifest's name if it is safe, else a fixed name.\<close>

definition output_name :: "manifest \<Rightarrow> string option \<Rightarrow> string" where
  "output_name m out_flag =
     (case out_flag of
        Some out \<Rightarrow> out
      | None \<Rightarrow> (case Option.bind (m_name m) sanitize_output_name of
          Some n \<Rightarrow> n
        | None \<Rightarrow> if looks_like_tree m then ''download'' else ''download.out''))"

definition write_output_with_progress :: "('n, 'q) daemon_env \<Rightarrow> manifest \<Rightarrow> string option \<Rightarrow> store \<Rightarrow> fs \<Rightarrow> (string + string) \<times> (nat \<times> nat) list \<times> store \<times> fs" where
  "write_output_with_progress D m out_flag st f = write_output_to D m (output_name m out_flag) st f"

definition get_report :: "('n, 'q) daemon_env \<Rightarrow> bool \<Rightarrow> manifest \<Rightarrow> string \<Rightarrow> download_report \<Rightarrow> cli_line list" where
  "get_report D json m dest r =
     (if json then
        [JsonLine (JObject [(''event'', JString ''result''), (''op'', JString ''get''), (''root'', JString (uri (de_crates D) m)), (''path'', JString dest),
           (''bytes_total'', jnum (m_total_size m)), (''chunks_fetched'', jnum (of_nat (dr_fetched r))), (''chunks_deduped'', jnum (of_nat (dr_deduped r)))])]
      else text_lines [''downloaded '' @ uri (de_crates D) m @ '' ('' @ shown (m_total_size m) @ '' bytes) -> '' @ dest,
        ''  fetched '' @ show_nat (dr_fetched r) @ '' chunks, '' @ show_nat (dr_deduped r) @ '' already local (deduped)''])"

text \<open>
  Downloading from the source's store and writing the output. The source is read in the file system as it is
  when the download starts: the local store appends to files of its own.
\<close>

definition get_content :: "('n, 'q) daemon_env \<Rightarrow> bool \<Rightarrow> manifest \<Rightarrow> store \<Rightarrow> store \<Rightarrow> string option \<Rightarrow> cli \<Rightarrow> (string + unit) \<times> cli" where
  "get_content D json m source local out_flag s =
     (case cli_now D s of (now, s1) \<Rightarrow>
      case download_with_progress (de_crates D) m (source_fetch (de_crates D) (cl_fs s1)) local (cl_fs s1) source of (r, prog, (st, f2), _) \<Rightarrow>
      case cli_progress D (chunks_progress ''get'' ''downloading'') json (u64_pairs prog) now (s1\<lparr>cl_fs := f2\<rparr>) of (_, s2) \<Rightarrow>
      (case r of
         Inl e \<Rightarrow> (Inl (de_node_text D e), s2)
       | Inr rep \<Rightarrow> (case cli_now D s2 of (now2, s3) \<Rightarrow>
           case write_output_with_progress D m out_flag st f2 of (w, prog2, _, f3) \<Rightarrow>
           case cli_progress D (chunks_progress ''get'' ''writing'') json (u64_pairs prog2) now2 (s3\<lparr>cl_fs := f3\<rparr>) of (_, s4) \<Rightarrow>
           (case w of Inl e \<Rightarrow> (Inl e, s4) | Inr dest \<Rightarrow> (Inr (), say (get_report D json m dest rep) s4)))))"

definition cmd_get :: "('n, 'q, 'd) cli_env \<Rightarrow> string list \<Rightarrow> cli \<Rightarrow> (string + unit) \<times> cli" where
  "cmd_get C args s =
     (let D = ce_node C; (pos, flags) = parse args [''--source'', ''--store'', ''--out''] in
      case pos of
        [] \<Rightarrow> (Inl ''get: missing <file.nptp>'', s)
      | p # _ \<Rightarrow> (case read_nptp D (cl_fs s) p of
          Inl e \<Rightarrow> (Inl e, s)
        | Inr m \<Rightarrow> (case hm_get flags ''source'' of
            None \<Rightarrow> (Inl ''get: --source <store-dir> is required (a seed's store)'', s)
          | Some source_dir \<Rightarrow> (case source_open (de_crates D) (cl_fs s) (de_path D source_dir) of
              (Inl e, f1) \<Rightarrow> (Inl (de_node_text D e), s\<lparr>cl_fs := f1\<rparr>)
            | (Inr source, f1) \<Rightarrow> (case store_open (de_crates D) f1 (de_path D (flag_or flags ''store'' DEFAULT_STORE)) of
                (Inl e, f2) \<Rightarrow> (Inl (de_store_text D e), s\<lparr>cl_fs := f2\<rparr>)
              | (Inr local, f2) \<Rightarrow>
                  get_content D (hm_contains flags ''json'') m source local (hm_get flags ''out'') (s\<lparr>cl_fs := f2\<rparr>))))))"

section \<open>The identity of a node\<close>

text \<open>Anything but a readable file of 32 bytes is replaced by fresh random bytes.\<close>

definition load_or_create_seed :: "('n, 'q, 'd) cli_env \<Rightarrow> string \<Rightarrow> fs \<Rightarrow> (string + bytes) \<times> fs" where
  "load_or_create_seed C p f =
     (let D = ce_node C; fresh =
        (case ce_random C of
           Inl e \<Rightarrow> (Inl (''rng error: '' @ e), f)
         | Inr seed \<Rightarrow> (case (if names_directory p then Inl IsADirectory else fs_write f (de_path D p) seed) of
             Inl e \<Rightarrow> (Inl (de_io_text D e), f)
           | Inr f' \<Rightarrow> (Inr seed, f'))) in
      case fs_read f (de_path D p) of
        Inr b \<Rightarrow> if length b = 32 then (Inr b, f) else fresh
      | Inl _ \<Rightarrow> fresh)"

section \<open>The tracker client of the binary\<close>

definition announce :: "('n, 'q) daemon_env \<Rightarrow> string \<Rightarrow> hash \<Rightarrow> peer \<Rightarrow> multiaddr list \<Rightarrow> 'n \<Rightarrow> (string + unit) \<times> 'n" where
  "announce D tracker cid p addrs n =
     de_http_post D (tracker @ ''/announce'')
       (JObject [(''cid'', JString (to_hex (de_crates D) cid)), (''peer'', JString (peer_text (de_addr D) p)),
          (''addrs'', JArray (map JString (addr_strs_with_peer (de_addr D) addrs p)))]) n"

text \<open>The body of any response is read whole and parsed; a peer without a usable address is dropped.\<close>

definition get_peers :: "('n, 'q, 'd) cli_env \<Rightarrow> string \<Rightarrow> hash \<Rightarrow> 'n \<Rightarrow> (string + (peer \<times> multiaddr list) list) \<times> 'n" where
  "get_peers C tracker cid n =
     (let D = ce_node C in
      case ce_http_get C (tracker @ ''/peers?cid='' @ to_hex (de_crates D) cid) n of
        (Inl e, n') \<Rightarrow> (Inl e, n')
      | (Inr body, n') \<Rightarrow>
          (case js_peers (de_json D) body of
             Inl e \<Rightarrow> Inl e
           | Inr entries \<Rightarrow> Inr (tracker_candidates (de_addr D) entries), n'))"

section \<open>Fetch\<close>

record 'n fetch_run =
  fr_store :: store
  fr_net :: 'n
  fr_cli :: cli
  fr_prev :: nat
  fr_first :: "nat option"
  fr_total :: nat
  fr_err :: string

text \<open>One download attempt with its progress: the first report of the attempt and the last total are remembered.\<close>

definition cli_attempt :: "('n, 'q, 'd) cli_env \<Rightarrow> bool \<Rightarrow> bool \<Rightarrow> hash \<Rightarrow> peer \<Rightarrow> 'n fetch_run \<Rightarrow> (net_error + manifest) \<times> 'n fetch_run" where
  "cli_attempt C use_fec json root p r =
     (let D = ce_node C in
      case (if use_fec then download_fec_with_progress (de_rt D) (de_crates D) (de_manifest D) (ce_raptorq C) root p (fr_store r) (cl_fs (fr_cli r)) (fr_net r)
            else net_download_with_progress (de_rt D) (de_crates D) (de_manifest D) (de_sched D) root p (fr_store r) (cl_fs (fr_cli r)) (fr_net r)) of
        (x, (st, f, prog), n) \<Rightarrow>
      case cli_progress D (chunks_progress ''fetch'' ''downloading'') json (u64_pairs prog) (fr_prev r) ((fr_cli r)\<lparr>cl_fs := f\<rparr>) of
        (prev, c) \<Rightarrow>
          (x, r\<lparr>fr_store := st, fr_net := n, fr_cli := c, fr_prev := prev,
                fr_first := (case prog of [] \<Rightarrow> None | (don, _) # _ \<Rightarrow> Some don),
                fr_total := (if prog = [] then fr_total r else snd (last prog))\<rparr>))"

text \<open>At most 60 attempts per candidate, and none after the deadline. The flag says whether the search is over.\<close>

fun try_peer :: "('n, 'q, 'd) cli_env \<Rightarrow> bool \<Rightarrow> bool \<Rightarrow> hash \<Rightarrow> nat \<Rightarrow> peer \<Rightarrow> nat \<Rightarrow> 'n fetch_run \<Rightarrow> manifest option \<times> bool \<times> 'n fetch_run" where
  "try_peer C use_fec json root deadline p 0 r = (None, False, r)"
| "try_peer C use_fec json root deadline p (Suc k) r =
     (case cli_attempt C use_fec json root p r of
        (Inr m, r1) \<Rightarrow> (Some m, True, r1)
      | (Inl e, r1) \<Rightarrow> (case cli_now (ce_node C) (fr_cli r1) of (now, c) \<Rightarrow>
          let r2 = r1\<lparr>fr_err := de_net_text (ce_node C) e, fr_cli := c\<rparr> in
          if deadline \<le> now then (None, True, r2)
          else try_peer C use_fec json root deadline p k (r2\<lparr>fr_net := de_sleep (ce_node C) 50 (fr_net r2)\<rparr>)))"

fun try_candidates :: "('n, 'q, 'd) cli_env \<Rightarrow> bool \<Rightarrow> bool \<Rightarrow> hash \<Rightarrow> nat \<Rightarrow> (peer \<times> multiaddr list) list \<Rightarrow> 'n fetch_run \<Rightarrow> manifest option \<times> 'n fetch_run" where
  "try_candidates C use_fec json root deadline [] r = (None, r)"
| "try_candidates C use_fec json root deadline ((p, addrs) # cs) r =
     (let r1 = r\<lparr>fr_net := foldl (\<lambda>n a. snd (net_dial (de_rt (ce_node C)) a n)) (fr_net r) addrs\<rparr> in
      case try_peer C use_fec json root deadline p 60 r1 of
        (m, True, r2) \<Rightarrow> (m, r2)
      | (_, False, r2) \<Rightarrow> try_candidates C use_fec json root deadline cs r2)"

definition explicit_peer :: "('n, 'q) daemon_env \<Rightarrow> (string, string) hmap \<Rightarrow> string + (peer \<times> multiaddr) option" where
  "explicit_peer D flags =
     (case hm_get flags ''peer'' of
        None \<Rightarrow> Inr None
      | Some a \<Rightarrow> (case ma_parse (de_addr D) a of
          Inl e \<Rightarrow> Inl e
        | Inr addr \<Rightarrow> (case peer_id_from_multiaddr addr of
            None \<Rightarrow> Inl ''fetch: --peer must include the peer id (.../p2p/<peer-id>)''
          | Some p \<Rightarrow> Inr (Some (p, addr)))))"

definition fetch_candidates :: "('n, 'q, 'd) cli_env \<Rightarrow> bool \<Rightarrow> string \<Rightarrow> hash \<Rightarrow> (peer \<times> multiaddr) option \<Rightarrow> 'n \<Rightarrow> cli
    \<Rightarrow> (string + (peer \<times> multiaddr list) list) \<times> 'n \<times> cli" where
  "fetch_candidates C json tracker root explicit n s =
     (case explicit of
        Some (p, addr) \<Rightarrow> (Inr [(p, [addr])], n, s)
      | None \<Rightarrow>
          (let s1 = (if json then s else say (text_lines [''discovering peers for '' @ to_hex (de_crates (ce_node C)) root @ '' via '' @ tracker @ '' ...'']) s) in
           case get_peers C tracker root n of
             (Inl e, n') \<Rightarrow> (Inl e, n', s1)
           | (Inr [], n') \<Rightarrow> (Inl ''no peers found on the tracker for this content (and no --peer given)'', n', s1)
           | (Inr (c # cs), n') \<Rightarrow> (Inr (c # cs), n', if json then s1 else say (text_lines [''  found '' @ show_nat (length (c # cs)) @ '' peer(s)'']) s1)))"

definition fetch_report :: "('n, 'q) daemon_env \<Rightarrow> bool \<Rightarrow> manifest \<Rightarrow> string \<Rightarrow> 'n fetch_run \<Rightarrow> cli_line list" where
  "fetch_report D json m dest r =
     (if json then
        (let deduped = (case fr_first r of Some k \<Rightarrow> k | None \<Rightarrow> 0); fetched = fr_total r - deduped in
         [JsonLine (JObject [(''event'', JString ''result''), (''op'', JString ''fetch''), (''root'', JString (uri (de_crates D) m)), (''path'', JString dest),
           (''bytes_total'', jnum (m_total_size m)), (''chunks_fetched'', jnum (of_nat fetched)), (''chunks_deduped'', jnum (of_nat deduped))])])
      else text_lines [''fetched '' @ uri (de_crates D) m @ '' ('' @ shown (m_total_size m) @ '' bytes) -> '' @ dest])"

definition fetch_write :: "('n, 'q) daemon_env \<Rightarrow> bool \<Rightarrow> manifest \<Rightarrow> string option \<Rightarrow> 'n fetch_run \<Rightarrow> (string + unit) \<times> cli" where
  "fetch_write D json m out_flag r =
     (case cli_now D (fr_cli r) of (now, s1) \<Rightarrow>
      case write_output_with_progress D m out_flag (fr_store r) (cl_fs s1) of (w, prog, _, f) \<Rightarrow>
      case cli_progress D (chunks_progress ''fetch'' ''writing'') json (u64_pairs prog) now (s1\<lparr>cl_fs := f\<rparr>) of (_, s2) \<Rightarrow>
      (case w of Inl e \<Rightarrow> (Inl e, s2) | Inr dest \<Rightarrow> (Inr (), say (fetch_report D json m dest r) s2)))"

text \<open>The network is spawned on one handle of the store, the download goes into another.\<close>

definition cmd_fetch :: "('n, 'q, 'd) cli_env \<Rightarrow> string list \<Rightarrow> cli \<Rightarrow> (string + unit) \<times> cli" where
  "cmd_fetch C args s =
     (let D = ce_node C; (pos, flags) = parse args [''--peer'', ''--store'', ''--out'', ''--tracker''] in
      case pos of
        [] \<Rightarrow> (Inl ''fetch: missing <np2ptp:ROOT | file.nptp>'', s)
      | target # _ \<Rightarrow> (case fetch_root D (cl_fs s) target of
          Inl e \<Rightarrow> (Inl e, s)
        | Inr root \<Rightarrow> (case explicit_peer D flags of
            Inl e \<Rightarrow> (Inl e, s)
          | Inr explicit \<Rightarrow>
              let dir = de_path D (flag_or flags ''store'' DEFAULT_STORE); json = hm_contains flags ''json'';
                  tracker = flag_or flags ''tracker'' (default_tracker C) in
              (case store_open (de_crates D) (cl_fs s) dir of
                 (Inl e, f1) \<Rightarrow> (Inl (de_store_text D e), s\<lparr>cl_fs := f1\<rparr>)
               | (Inr st, f1) \<Rightarrow> (case ce_spawn C st f1 None of
                   (Inl e, f2) \<Rightarrow> (Inl (de_net_text D e), s\<lparr>cl_fs := f2\<rparr>)
                 | (Inr n, f2) \<Rightarrow> (case store_open (de_crates D) f2 dir of
                     (Inl e, f3) \<Rightarrow> (Inl (de_store_text D e), s\<lparr>cl_fs := f3\<rparr>)
                   | (Inr into, f3) \<Rightarrow> (case fetch_candidates C json tracker root explicit n (s\<lparr>cl_fs := f3\<rparr>) of
                       (Inl e, _, s1) \<Rightarrow> (Inl e, s1)
                     | (Inr cands, n1, s1) \<Rightarrow> (case cli_now D s1 of (now, s2) \<Rightarrow> case cli_now D s2 of (now2, s3) \<Rightarrow>
                         case try_candidates C (hm_contains flags ''fec'') json root (now2 + 120000) cands
                             \<lparr>fr_store = into, fr_net = n1, fr_cli = s3, fr_prev = now, fr_first = None, fr_total = 0, fr_err = []\<rparr> of
                           (None, r) \<Rightarrow> (Inl (''download failed: '' @ fr_err r), fr_cli r)
                         | (Some m, r) \<Rightarrow> fetch_write D json m (hm_get flags ''out'') r))))))))"

section \<open>Torrent\<close>

definition cli_no_librqbit :: string where
  "cli_no_librqbit = ''torrent: fetching a magnet/torrent you don't already have needs the 'librqbit' feature (rebuild with `cargo build --features librqbit`), ''
     @ ''or pass --data <dir> for content you've already downloaded''"

definition fetch_remote_torrent :: "('n, 'q) daemon_env \<Rightarrow> string \<Rightarrow> bool \<Rightarrow> path option \<Rightarrow> store \<Rightarrow> fs \<Rightarrow> 'q \<Rightarrow> 'n
    \<Rightarrow> ((string + bridge_outcome) \<times> (u64 \<times> u64) list \<times> (store \<times> fs) \<times> 'q \<times> 'n) option" where
  "fetch_remote_torrent D input no_copy out_dir st f q n =
     (case de_rqbit D of
        None \<Rightarrow> Some (Inl cli_no_librqbit, [], (st, f), q, n)
      | Some Q \<Rightarrow> (case resolve_or_convert_remote (de_rt D) (de_crates D) (de_manifest D) (de_sched D) (de_sha1 D) (de_io_text D) Q input no_copy out_dir st f q n of
          None \<Rightarrow> None
        | Some (r, x) \<Rightarrow> Some (err_text (de_bridge_text D) r, x)))"

definition torrent_report :: "('n, 'q) daemon_env \<Rightarrow> bool \<Rightarrow> bridge_outcome \<Rightarrow> cli_line list" where
  "torrent_report D json oc =
     (let m = oc_manifest oc in
      if json then
        [JsonLine (JObject [(''event'', JString ''result''), (''op'', JString ''torrent''), (''root'', JString (uri (de_crates D) m)), (''converted'', JBool (oc_converted oc)),
           (''files_total'', jlen (m_files m)), (''chunks_total'', jlen (m_chunks m)), (''bytes_total'', jnum (m_total_size m))])]
      else text_lines [uri (de_crates D) m @ '' ('' @ show_nat (length (m_files m)) @ '' files, '' @ show_nat (length (m_chunks m)) @ '' chunks) - ''
        @ (if oc_converted oc then ''converted from BitTorrent'' else ''already bridged, served from NP2PTP'')])"

text \<open>What the command does once the network is up; \<open>None\<close> when a BitTorrent download does not end.\<close>

definition bridge_torrent :: "('n, 'q) daemon_env \<Rightarrow> bool \<Rightarrow> bool \<Rightarrow> string \<Rightarrow> (torrent_meta \<times> string) option \<Rightarrow> path option \<Rightarrow> store \<Rightarrow> 'q \<Rightarrow> 'n \<Rightarrow> cli
    \<Rightarrow> ((string + unit) \<times> cli) option" where
  "bridge_torrent D json no_copy input local_meta out_dir st q n s =
     (case cli_now D s of (now, s1) \<Rightarrow>
      case (case local_meta of
              Some (meta, data_dir) \<Rightarrow>
                (case resolve_or_convert_local (de_rt D) (de_crates D) (de_manifest D) (de_sched D) (de_sha1 D) (de_io_text D) meta (de_path D data_dir) no_copy st (cl_fs s1) n of
                   None \<Rightarrow> None
                 | Some (r, (st', f'), n') \<Rightarrow> Some (err_text (de_bridge_text D) r, [], f'))
            | None \<Rightarrow> (case fetch_remote_torrent D input no_copy out_dir st (cl_fs s1) q n of
                None \<Rightarrow> None
              | Some (r, prog, (st', f'), _, _) \<Rightarrow> Some (r, prog, f'))) of
        None \<Rightarrow> None
      | Some (r, prog, f') \<Rightarrow> (case cli_progress D (bytes_progress ''torrent'') json prog now (s1\<lparr>cl_fs := f'\<rparr>) of (_, s2) \<Rightarrow>
          Some (case r of Inl e \<Rightarrow> (Inl e, s2) | Inr oc \<Rightarrow> (Inr (), say (torrent_report D json oc) s2))))"

definition dial_torrent_relay :: "('n, 'q, 'd) cli_env \<Rightarrow> bool \<Rightarrow> (string, string) hmap \<Rightarrow> 'n \<Rightarrow> cli \<Rightarrow> (string + 'n) \<times> cli" where
  "dial_torrent_relay C json flags n s =
     (let D = ce_node C in
      if hm_contains flags ''no-relay'' then (Inr n, s)
      else case ma_parse (de_addr D) (flag_or flags ''relay'' (default_relay C)) of
        Inl e \<Rightarrow> (Inl e, s)
      | Inr addr \<Rightarrow>
          (let s1 = (if json then s else say (text_lines [''relay: dialing '' @ ma_text (de_addr D) addr @ '' ...'']) s) in
           case net_dial (de_rt D) addr n of
             (Inl e, _) \<Rightarrow> (Inl (de_net_text D e), s1)
           | (Inr _, n') \<Rightarrow> (Inr (de_sleep D 500 n'), s1)))"

definition torrent_meta_arg :: "('n, 'q) daemon_env \<Rightarrow> fs \<Rightarrow> string \<Rightarrow> string option \<Rightarrow> string + (torrent_meta \<times> string) option" where
  "torrent_meta_arg D f input data =
     (case data of
        None \<Rightarrow> Inr None
      | Some data_dir \<Rightarrow> (case fs_read f (de_path D input) of
          Inl e \<Rightarrow> Inl (de_io_text D e)
        | Inr b \<Rightarrow> (case parse_torrent_file (de_sha1 D) b of Inl e \<Rightarrow> Inl (de_bridge_text D e) | Inr meta \<Rightarrow> Inr (Some (meta, data_dir)))))"

definition cmd_torrent :: "('n, 'q, 'd) cli_env \<Rightarrow> string list \<Rightarrow> 'q \<Rightarrow> cli \<Rightarrow> ((string + unit) \<times> cli) option" where
  "cmd_torrent C args q s =
     (let D = ce_node C; (pos, flags) = parse args [''--data'', ''--store'', ''--relay'', ''--out''] in
      case pos of
        [] \<Rightarrow> Some (Inl ''torrent: missing <file.torrent|magnet:...>'', s)
      | input # _ \<Rightarrow>
          let store_dir = flag_or flags ''store'' DEFAULT_STORE; json = hm_contains flags ''json'' in
          (case torrent_meta_arg D (cl_fs s) input (hm_get flags ''data'') of
             Inl e \<Rightarrow> Some (Inl e, s)
           | Inr local_meta \<Rightarrow> (case store_open (de_crates D) (cl_fs s) (de_path D store_dir) of
               (Inl e, f1) \<Rightarrow> Some (Inl (de_store_text D e), s\<lparr>cl_fs := f1\<rparr>)
             | (Inr st, f1) \<Rightarrow> (case load_or_create_seed C (store_dir @ ''/identity.key'') f1 of
                 (Inl e, f2) \<Rightarrow> Some (Inl e, s\<lparr>cl_fs := f2\<rparr>)
               | (Inr seed, f2) \<Rightarrow> (case ce_spawn C st f2 (Some seed) of
                   (Inl e, f3) \<Rightarrow> Some (Inl (de_net_text D e), s\<lparr>cl_fs := f3\<rparr>)
                 | (Inr n, f3) \<Rightarrow> (case ma_parse (de_addr D) DEFAULT_LISTEN of
                     Inl e \<Rightarrow> Some (Inl e, s\<lparr>cl_fs := f3\<rparr>)
                   | Inr la \<Rightarrow> (case net_listen (de_rt D) la n of
                       (Inl e, _) \<Rightarrow> Some (Inl (de_net_text D e), s\<lparr>cl_fs := f3\<rparr>)
                     | (Inr _, n1) \<Rightarrow> (case dial_torrent_relay C json flags n1 (s\<lparr>cl_fs := f3\<rparr>) of
                         (Inl e, s1) \<Rightarrow> Some (Inl e, s1)
                       | (Inr n2, s1) \<Rightarrow> (case store_open (de_crates D) (cl_fs s1) (de_path D store_dir) of
                           (Inl e, f4) \<Rightarrow> Some (Inl (de_store_text D e), s1\<lparr>cl_fs := f4\<rparr>)
                         | (Inr st2, f4) \<Rightarrow> bridge_torrent D json (hm_contains flags ''no-copy'') input local_meta
                             (map_option (de_path D) (hm_get flags ''out'')) st2 q n2 (s1\<lparr>cl_fs := f4\<rparr>))))))))))"

section \<open>Serve, relay, daemon\<close>

definition choke_flag :: "('n, 'q, 'd) cli_env \<Rightarrow> (string, string) hmap \<Rightarrow> string + int option" where
  "choke_flag C flags =
     (case hm_get flags ''choke-threshold'' of
        None \<Rightarrow> Inr None
      | Some v \<Rightarrow> (case parse_i64 v of
          None \<Rightarrow> Inl (''serve: --choke-threshold expects a byte count, got '' @ ce_debug C v)
        | Some t \<Rightarrow> Inr (Some t)))"

text \<open>\<open>k\<close> is the value of the registry's counter when the loop starts.\<close>

fun register_all :: "('n, 'q) daemon_env \<Rightarrow> path \<Rightarrow> nat \<Rightarrow> manifest list \<Rightarrow> fs \<Rightarrow> (string + unit) \<times> fs" where
  "register_all D dir k [] f = (Inr (), f)"
| "register_all D dir k (m # ms) f =
     (case register_manifest (de_crates D) (de_manifest D) (de_proc D) k dir m f of
        (Inl e, f') \<Rightarrow> (Inl (de_node_text D e), f')
      | (Inr _, f') \<Rightarrow> register_all D dir (Suc k) ms f')"

fun provide_all :: "('n, 'q) daemon_env \<Rightarrow> manifest list \<Rightarrow> 'n \<Rightarrow> (string + unit) \<times> 'n" where
  "provide_all D [] n = (Inr (), n)"
| "provide_all D (m # ms) n =
     (case net_provide (de_rt D) (de_manifest D) m n of
        (Inl e, n') \<Rightarrow> (Inl (de_net_text D e), n')
      | (Inr _, n') \<Rightarrow> provide_all D ms n')"

text \<open>Arming the choke, listening and providing, with what is printed.\<close>

definition serve_up :: "('n, 'q) daemon_env \<Rightarrow> bool \<Rightarrow> int option \<Rightarrow> string \<Rightarrow> manifest list \<Rightarrow> 'n \<Rightarrow> cli \<Rightarrow> (string + 'n) \<times> cli" where
  "serve_up D json choke listen ms n s =
     (case (case choke of
              None \<Rightarrow> (Inr (), n, s)
            | Some t \<Rightarrow> (case set_choke_threshold (de_rt D) t n of
                (Inl e, n') \<Rightarrow> (Inl (de_net_text D e), n', s)
              | (Inr _, n') \<Rightarrow> (Inr (), n', if json then s else
                  say (text_lines [''choke: refusing peers whose reciprocity drops below -'' @ show_int t @ '' bytes'']) s))) of
        (Inl e, _, s1) \<Rightarrow> (Inl e, s1)
      | (Inr _, n1, s1) \<Rightarrow> (case ma_parse (de_addr D) listen of
          Inl e \<Rightarrow> (Inl e, s1)
        | Inr la \<Rightarrow> (case net_listen (de_rt D) la n1 of
            (Inl e, _) \<Rightarrow> (Inl (de_net_text D e), s1)
          | (Inr _, n2) \<Rightarrow> (case provide_all D ms n2 of
              (Inl e, _) \<Rightarrow> (Inl e, s1)
            | (Inr _, n3) \<Rightarrow> (Inr n3, if json then s1 else
                say (text_lines (map (\<lambda>m. ''serving '' @ uri (de_crates D) m @ '' ('' @ show_nat (length (m_files m)) @ '' files, ''
                  @ show_nat (length (m_chunks m)) @ '' chunks)'') ms)) s1)))))"

text \<open>\<open>serve\<close> up to the point where its content is provided: the manifests, their registration, the store, the identity, the network.\<close>

definition serve_start :: "('n, 'q, 'd) cli_env \<Rightarrow> string list \<Rightarrow> cli \<Rightarrow> (string + manifest list \<times> 'n) \<times> cli" where
  "serve_start C args s =
     (let D = ce_node C; (pos, flags) = parse args [''--store'', ''--listen'', ''--tracker'', ''--public'', ''--relay'', ''--choke-threshold''];
          store_dir = flag_or flags ''store'' DEFAULT_STORE; dir = de_path D store_dir in
      case collect_serve_manifests (de_manifest D) (de_show_path D) (cl_fs s) (map (de_path D) pos) (hm_contains flags ''all'') dir of
        Inl e \<Rightarrow> (Inl (de_node_text D e), s)
      | Inr ms \<Rightarrow> (case register_all D dir 0 ms (cl_fs s) of
          (Inl e, f1) \<Rightarrow> (Inl e, s\<lparr>cl_fs := f1\<rparr>)
        | (Inr _, f1) \<Rightarrow> (case store_open (de_crates D) f1 dir of
            (Inl e, f2) \<Rightarrow> (Inl (de_store_text D e), s\<lparr>cl_fs := f2\<rparr>)
          | (Inr st, f2) \<Rightarrow> (case load_or_create_seed C (store_dir @ ''/identity.key'') f2 of
              (Inl e, f3) \<Rightarrow> (Inl e, s\<lparr>cl_fs := f3\<rparr>)
            | (Inr seed, f3) \<Rightarrow> (case choke_flag C flags of
                Inl e \<Rightarrow> (Inl e, s\<lparr>cl_fs := f3\<rparr>)
              | Inr choke \<Rightarrow> (case ce_spawn C st f3 (Some seed) of
                  (Inl e, f4) \<Rightarrow> (Inl (de_net_text D e), s\<lparr>cl_fs := f4\<rparr>)
                | (Inr n, f4) \<Rightarrow> (case serve_up D (hm_contains flags ''json'') choke (flag_or flags ''listen'' DEFAULT_LISTEN) ms n (s\<lparr>cl_fs := f4\<rparr>) of
                    (Inl e, s1) \<Rightarrow> (Inl e, s1)
                  | (Inr n1, s1) \<Rightarrow> (Inr (ms, n1), s1))))))))"

text \<open>Addresses trickle in: wait until the list has held its length for a few polls, 200 polls at most.\<close>

fun wait_for_listeners :: "('n, 'q) daemon_env \<Rightarrow> nat \<Rightarrow> multiaddr list \<Rightarrow> nat \<Rightarrow> 'n \<Rightarrow> multiaddr list \<times> 'n" where
  "wait_for_listeners D 0 seen held n = (seen, n)"
| "wait_for_listeners D (Suc k) seen held n =
     (case net_listeners (de_rt D) n of
        (Inr addrs, n') \<Rightarrow>
          if addrs = [] then wait_for_listeners D k seen held (de_sleep D 50 n')
          else if length addrs = length seen then
            if 4 \<le> held + 1 then (addrs, n') else wait_for_listeners D k addrs (held + 1) (de_sleep D 50 n')
          else wait_for_listeners D k addrs 0 (de_sleep D 50 n')
      | (Inl _, n') \<Rightarrow> wait_for_listeners D k seen held (de_sleep D 50 n'))"

fun after_first :: "string \<Rightarrow> string \<Rightarrow> string option" where
  "after_first needle s =
     (case strip_prefix needle s of
        Some r \<Rightarrow> Some r
      | None \<Rightarrow> (case s of [] \<Rightarrow> None | _ # s' \<Rightarrow> after_first needle s'))"

definition udp_port :: "addr_lib \<Rightarrow> multiaddr \<Rightarrow> nat option" where
  "udp_port A addr =
     (case after_first ''/udp/'' (ma_text A addr) of
        None \<Rightarrow> None
      | Some r \<Rightarrow> parse_unsigned (2 ^ 16 - 1) (takeWhile (\<lambda>c. c \<noteq> CHR ''/'') r))"

definition public_addr :: "addr_lib \<Rightarrow> string \<Rightarrow> nat \<Rightarrow> string + multiaddr" where
  "public_addr A p port =
     ma_parse A (if p \<noteq> [] \<and> hd p = CHR ''/'' then p else ''/ip4/'' @ p @ ''/udp/'' @ show_nat port @ ''/quic-v1'')"

text \<open>Whether an external address shows up within 30 polls, and the relay that is then used.\<close>

fun wait_external :: "('n, 'q) daemon_env \<Rightarrow> nat \<Rightarrow> 'n \<Rightarrow> bool \<times> 'n" where
  "wait_external D 0 n = (False, n)"
| "wait_external D (Suc k) n =
     (case net_external_addresses (de_rt D) n of
        (Inr (_ # _), n') \<Rightarrow> (True, n')
      | (_, n') \<Rightarrow> wait_external D k (de_sleep D 100 n'))"

definition relay_choice :: "('n, 'q, 'd) cli_env \<Rightarrow> (string, string) hmap \<Rightarrow> bool \<Rightarrow> string option" where
  "relay_choice C flags has_external =
     (if hm_contains flags ''no-relay'' then None
      else case hm_get flags ''relay'' of
        Some r \<Rightarrow> Some r
      | None \<Rightarrow> if \<not> has_external then Some (default_relay C) else None)"

definition serve_status :: "bool \<Rightarrow> string \<Rightarrow> peer list \<Rightarrow> counters \<Rightarrow> json" where
  "serve_status no_tracker tracker peers totals =
     JObject [(''event'', JString ''status''), (''op'', JString ''serve''), (''peers'', jlen peers),
       (''tracker'', if no_tracker then JNull else JString tracker),
       (''bytes_served'', jnum (ct_we_served totals)), (''bytes_received'', jnum (ct_served_to_us totals))]"

text \<open>\<open>relay\<close> up to the wait for Ctrl-C.\<close>

definition relay_address :: "addr_lib \<Rightarrow> string \<Rightarrow> string \<Rightarrow> string + multiaddr" where
  "relay_address A listen p =
     (if p \<noteq> [] \<and> hd p = CHR ''/'' then ma_parse A p
      else case ma_parse A listen of
        Inl e \<Rightarrow> Inl e
      | Inr la \<Rightarrow> public_addr A p (case udp_port A la of Some port \<Rightarrow> port | None \<Rightarrow> 4001))"

definition cmd_relay :: "('n, 'q, 'd) cli_env \<Rightarrow> string list \<Rightarrow> cli \<Rightarrow> (string + 'n) \<times> cli" where
  "cmd_relay C args s =
     (let D = ce_node C; A = de_addr D; (_, flags) = parse args [''--listen'', ''--public'', ''--key'', ''--store''];
          listen = flag_or flags ''listen'' ''/ip4/0.0.0.0/udp/4001/quic-v1''; pid = peer_text A (de_peer D) in
      case load_or_create_seed C (flag_or flags ''key'' ''relay.key'') (cl_fs s) of
        (Inl e, f1) \<Rightarrow> (Inl e, s\<lparr>cl_fs := f1\<rparr>)
      | (Inr seed, f1) \<Rightarrow> (case store_open (de_crates D) f1 (de_path D (flag_or flags ''store'' ''.np2ptp-relay'')) of
          (Inl e, f2) \<Rightarrow> (Inl (de_store_text D e), s\<lparr>cl_fs := f2\<rparr>)
        | (Inr st, f2) \<Rightarrow> (case ce_spawn C st f2 (Some seed) of
            (Inl e, f3) \<Rightarrow> (Inl (de_net_text D e), s\<lparr>cl_fs := f3\<rparr>)
          | (Inr n, f3) \<Rightarrow> (let s1 = s\<lparr>cl_fs := f3\<rparr>; up = ['''', ''relay running. Press Ctrl-C to stop.''] in
              case ma_parse A listen of
                Inl e \<Rightarrow> (Inl e, s1)
              | Inr la \<Rightarrow> (case net_listen (de_rt D) la n of
                  (Inl e, _) \<Rightarrow> (Inl (de_net_text D e), s1)
                | (Inr _, n1) \<Rightarrow> (case hm_get flags ''public'' of
                    Some p \<Rightarrow> (case relay_address A listen p of
                      Inl e \<Rightarrow> (Inl e, s1)
                    | Inr ext \<Rightarrow> (case net_add_external_address (de_rt D) ext n1 of
                        (Inl e, _) \<Rightarrow> (Inl (de_net_text D e), s1)
                      | (Inr _, n2) \<Rightarrow> (Inr n2, say (text_lines ([''relay peer id: '' @ pid, ''clients use:   --relay '' @ ma_text A ext @ ''/p2p/'' @ pid] @ up)) s1)))
                  | None \<Rightarrow> (case wait_for_listeners D 200 [] 0 n1 of (addrs, n2) \<Rightarrow>
                      (Inr n2, say (text_lines ([''relay peer id: '' @ pid] @ map (\<lambda>a. ''  listening: '' @ ma_text A a @ ''/p2p/'' @ pid) addrs @ up)) s1))))))))"

text \<open>The configuration \<open>daemon\<close> starts with.\<close>

record daemon_config =
  dc_store_dir :: string
  dc_relay :: "string option"
  dc_tracker :: string
  dc_seed :: bytes

definition cmd_daemon :: "('n, 'q, 'd) cli_env \<Rightarrow> string list \<Rightarrow> cli \<Rightarrow> (string + daemon_config) \<times> cli" where
  "cmd_daemon C args s =
     (let D = ce_node C; (_, flags) = parse args [''--store'', ''--relay'', ''--tracker'']; store_dir = flag_or flags ''store'' DEFAULT_STORE in
      case store_open (de_crates D) (cl_fs s) (de_path D store_dir) of
        (Inl e, f1) \<Rightarrow> (Inl (de_store_text D e), s\<lparr>cl_fs := f1\<rparr>)
      | (Inr _, f1) \<Rightarrow> (case load_or_create_seed C (store_dir @ ''/identity.key'') f1 of
          (Inl e, f2) \<Rightarrow> (Inl e, s\<lparr>cl_fs := f2\<rparr>)
        | (Inr seed, f2) \<Rightarrow>
            (Inr \<lparr>dc_store_dir = store_dir, dc_relay = (if hm_contains flags ''no-relay'' then None else Some (flag_or flags ''relay'' (default_relay C))),
                  dc_tracker = flag_or flags ''tracker'' (default_tracker C), dc_seed = seed\<rparr>, s\<lparr>cl_fs := f2\<rparr>)))"

text \<open>An error of any command is also a JSON line when \<open>--json\<close> occurs anywhere.\<close>

definition report_error :: "string list \<Rightarrow> (string + 'a) \<times> cli \<Rightarrow> (string + 'a) \<times> cli" where
  "report_error args rs =
     (case rs of
        (Inl e, s) \<Rightarrow> (Inl e, if ''--json'' \<in> set args
          then say [JsonLine (JObject [(''event'', JString ''error''), (''op'', JString (case args of a # _ \<Rightarrow> a | [] \<Rightarrow> [])), (''message'', JString e)])] s else s)
      | (Inr a, s) \<Rightarrow> (Inr a, s))"

declare after_first.simps [simp del]

section \<open>Identity\<close>

lemma seed_effect:
  assumes load: "load_or_create_seed C p f = (Inr seed, f')" and rnd: "\<And>r. ce_random C = Inr r \<Longrightarrow> length r = 32"
  shows "length seed = 32" "fs_read f' (de_path (ce_node C) p) = Inr seed"
proof -
  let ?p = "de_path (ce_node C) p"
  show "length seed = 32" using load rnd by (auto simp: load_or_create_seed_def Let_def split: sum.splits if_splits)
  have "f' = f \<and> fs_read f ?p = Inr seed \<or> fs_write f ?p seed = Inr f'"
    using load by (auto simp: load_or_create_seed_def Let_def split: sum.splits if_splits)
  then show "fs_read f' ?p = Inr seed"
    by (auto simp: fs_read_def fs_write_def fs_open_write_def split: option.splits if_splits)
qed

text \<open>
  C40. A node keeps its identity: the seed a command loads or creates has 32 bytes, and every later command on the
  same key file loads that seed, whatever random bytes it would have drawn, and leaves the file as it is.
\<close>

theorem seed_persists:
  assumes load: "load_or_create_seed C p f = (Inr seed, f')" and rnd: "\<And>r. ce_random C = Inr r \<Longrightarrow> length r = 32"
  shows "length seed = 32 \<and> load_or_create_seed (C\<lparr>ce_random := other\<rparr>) p f' = (Inr seed, f')"
  using seed_effect [OF load rnd] by (simp add: load_or_create_seed_def Let_def)

section \<open>What is fetched\<close>

lemma cli_progress_fs: "cli_progress D mk json calls prev s = (prev', s') \<Longrightarrow> cl_fs s' = cl_fs s"
proof (induction calls arbitrary: prev s)
  case (Cons c calls)
  obtain don tot where c: "c = (don, tot)" by force
  obtain now s1 where n: "cli_now D s = (now, s1)" by force
  then have "cl_fs s1 = cl_fs s" by (auto simp: cli_now_def)
  then show ?case using Cons c n by (auto simp: say_def split: if_splits)
qed simp

lemma cli_now_fs: "cli_now D s = (now, s') \<Longrightarrow> cl_fs s' = cl_fs s"
  by (auto simp: cli_now_def)

lemma cli_attempt_manifest:
  assumes "cli_attempt C use_fec json root p r = (Inr m, r')"
  shows "m_root m = root \<and> root_is_consistent (de_crates (ce_node C)) m \<and> validate m = Inr ()"
proof (cases use_fec)
  case True
  let ?D = "ce_node C"
  obtain s n' where "download_fec_with_progress (de_rt ?D) (de_crates ?D) (de_manifest ?D) (ce_raptorq C) root p (fr_store r) (cl_fs (fr_cli r)) (fr_net r)
      = (Inr m, s, n')"
    using assms True by (auto simp: cli_attempt_def Let_def split: prod.splits)
  then show ?thesis using get_manifest_ok
    by (fastforce simp: download_fec_with_progress_def fec_finish_def split: prod.splits sum.splits if_splits)
next
  case False
  let ?D = "ce_node C"
  obtain s n' where "download_multi_with_progress (de_rt ?D) (de_crates ?D) (de_manifest ?D) (de_sched ?D) root [p] (fr_store r) (cl_fs (fr_cli r)) (fr_net r)
      = (Inr m, s, n')"
    using assms False by (auto simp: cli_attempt_def net_download_with_progress_def Let_def split: prod.splits)
  then have "\<exists>n n'. get_manifest (de_rt ?D) (de_crates ?D) (de_manifest ?D) p root n = (Inr m, n')"
    by (auto simp: download_multi_with_progress_def Let_def split: prod.splits sum.splits option.splits)
  then show ?thesis using get_manifest_ok by metis
qed

lemma try_peer_manifest:
  "try_peer C use_fec json root dl p k r = (Some m, stop, r') \<Longrightarrow>
    m_root m = root \<and> root_is_consistent (de_crates (ce_node C)) m \<and> validate m = Inr ()"
proof (induction k arbitrary: r)
  case (Suc k)
  obtain x r1 where x: "cli_attempt C use_fec json root p r = (x, r1)" by force
  have "x = Inr m \<or> (\<exists>r2. try_peer C use_fec json root dl p k r2 = (Some m, stop, r'))"
    using Suc.prems x by (cases x) (auto simp: Let_def split: prod.splits if_splits)
  then show ?case using Suc.IH cli_attempt_manifest x by blast
qed simp

lemma try_candidates_manifest:
  "try_candidates C use_fec json root dl cs r = (Some m, r') \<Longrightarrow>
    m_root m = root \<and> root_is_consistent (de_crates (ce_node C)) m \<and> validate m = Inr ()"
proof (induction cs arbitrary: r)
  case (Cons c cs)
  obtain p addrs where c: "c = (p, addrs)" by force
  let ?r1 = "r\<lparr>fr_net := foldl (\<lambda>n a. snd (net_dial (de_rt (ce_node C)) a n)) (fr_net r) addrs\<rparr>"
  obtain x stop r2 where x: "try_peer C use_fec json root dl p 60 ?r1 = (x, stop, r2)" by (rule prod_cases3)
  have "x = Some m \<or> try_candidates C use_fec json root dl cs r2 = (Some m, r')"
    using Cons.prems c x by (cases stop) (simp_all add: Let_def)
  then show ?case using Cons.IH try_peer_manifest x by blast
qed simp


section \<open>Packing and getting\<close>

text \<open>Opening a store leaves every file outside its directory as it is.\<close>

lemma create_dir_keeps:
  assumes "fs_create_dir_all f e = Inr f'" and "fs_read f p = Inr d"
  shows "fs_read f' p = Inr d"
proof -
  have "hm_contains (fs_files f) p" using fs_read_Inr [OF assms(2)] by (simp add: hm_contains_def)
  then have "p \<notin> set (prefixes_of e)" using assms(1) by (auto simp: fs_create_dir_all_def list_ex_iff split: if_splits)
  then show ?thesis using assms(2) fs_create_dir_all_files [OF assms(1)] by (auto simp: fs_read_def split: if_splits)
qed

lemma write_keeps: "fs_write f q b = Inr f' \<Longrightarrow> p \<noteq> q \<Longrightarrow> fs_read f' p = fs_read f p"
  using fs_write_file [of f q b f'] by (simp add: fs_read_def same_except_def)

lemma create_append_keeps: "fs_create_append f q = Inr f' \<Longrightarrow> p \<noteq> q \<Longrightarrow> fs_read f' p = fs_read f p"
  using fs_create_append_file [of f q f'] by (simp add: fs_read_def same_except_def)

lemma truncate_keeps: "truncate_partial_line_locked f q = Inr f' \<Longrightarrow> p \<noteq> q \<Longrightarrow> fs_read f' p = fs_read f p"
  by (auto simp: truncate_partial_line_locked_def Let_def dest: write_keeps split: sum.splits io_error.splits if_splits)

lemma store_open_layout: "store_open X f dir = (Inr st, f') \<Longrightarrow> layout_of dir st"
  by (auto simp: store_open_def pack_open_def layout_of_def pack_state_ok_def Let_def split: prod.splits sum.splits)

lemma store_open_outside:
  assumes op: "store_open X f dir = (Inr st, f')" and rd: "fs_read f p = Inr d" and out: "\<And>q. p \<noteq> dir @ q"
  shows "fs_read f' p = Inr d"
proof -
  obtain f1 f2 ps where f12: "open_dirs f dir = (Inr (), f1)" "open_trim f1 dir = (Inr (), f2)" "pack_open f2 (dir @ [''packs'']) = Inr (ps, f')"
    using op by (auto simp: store_open_def split: prod.splits sum.splits)
  have "fs_read f1 p = Inr d" using f12(1) rd create_dir_keeps by (auto simp: open_dirs_def split: sum.splits)
  moreover have "fs_read f2 p = fs_read f1 p"
    using f12(2) out by (auto simp: open_trim_def acquire_write_guard_def split: sum.splits dest!: create_append_keeps [where p = p] truncate_keeps [where p = p])
  moreover have "p \<noteq> (dir @ [''packs'']) @ [n]" for n using out [of "[''packs'', n]"] by simp
  then have "fs_read f' p = fs_read f2 p"
    using f12(3) by (auto simp: pack_open_def Let_def split: sum.splits dest!: create_append_keeps [where p = p])
  ultimately show ?thesis by simp
qed

lemma path_file_name_plain: "path_file_name s = Some n \<Longrightarrow> CHR ''/'' \<notin> set n"
proof -
  assume n: "path_file_name s = Some n"
  then have "Normal n \<in> set (path_components s)"
    by (auto simp: path_file_name_def split: if_splits path_component.splits dest!: last_in_set)
  then have "n \<in> set (split_on CHR ''/'' s)" by (auto simp: path_components_def Let_def split: if_splits)
  then show ?thesis by (rule split_on_no_sep)
qed

lemma pack_written:
  assumes run: "cmd_pack C [input, ''--out'', nptp, ''--store'', store_dir] s = (Inr (), s')"
    and args: "strip_prefix ''--'' input = None" "path_file_name input = Some name"
    and X: "default_cdc (de_crates (ce_node C))" "default_stream (de_crates (ce_node C))" "codec_inverse (de_manifest (ce_node C))"
    and rd: "fs_read (cl_fs s) (de_path (ce_node C) input) = Inr d"
    and out: "\<And>q. de_path (ce_node C) input \<noteq> de_path (ce_node C) store_dir @ q"
    and tmp: "de_path (ce_node C) (nptp_tmp (ce_node C) nptp) \<noteq> de_path (ce_node C) nptp"
  shows "read_nptp (ce_node C) (cl_fs s') nptp = Inr (from_files (de_crates (ce_node C)) [(name, d)] (Some name))"
proof -
  let ?D = "ce_node C" and ?p = "de_path (ce_node C) input" and ?dir = "de_path (ce_node C) store_dir"
  have parse: "parse [input, ''--out'', nptp, ''--store'', store_dir] [''--out'', ''--store'', ''--name''] = ([input], [(''out'', nptp), (''store'', store_dir)])"
    using args(1) by (simp add: parse_def strip_prefix_def hm_insert_def)
  obtain st f1 prog st' f2 m f3 where op: "store_open (de_crates ?D) (cl_fs s) ?dir = (Inr st, f1)"
    and ing: "pack_ingest ?D False input (Some name) st f1 = (Inr m, prog, st', f2)" and wr: "write_nptp ?D m nptp f2 = (Inr (), f3)" and s': "cl_fs s' = f3"
    using run args(2) unfolding cmd_pack_def Let_def parse
    by (auto simp: flag_or_def hm_get_def hm_contains_def say_def split: sum.splits prod.splits dest!: cli_progress_fs cli_now_fs)
  have rd1: "fs_read f1 ?p = Inr d" by (rule store_open_outside [OF op rd out])
  then have "fs_is_dir f1 ?p = Inr False" using fs_read_Inr [OF rd1] by (auto simp: fs_is_dir_def fs_read_def hm_contains_def split: if_splits)
  then have "ingest_tree_files_impl (de_crates ?D) st f1 [(name, ?p)] (Some name) False = (Inr m, prog, st', f2)"
    using ing by (auto simp: pack_ingest_def pack_files_def ingest_tree_files_with_progress_def err_text_def split: prod.splits sum.splits)
  from ingest_tree_files_from_files [OF X(1,2) store_open_layout [OF op] _ this, of "[(name, d)]"] rd1 out
  have m: "m = from_files (de_crates ?D) [(name, d)] (Some name)" by simp
  obtain b g where b: "to_nptp (de_manifest ?D) m = Inr b" and g: "fs_write f2 (de_path ?D (nptp_tmp ?D nptp)) b = Inr g"
      "fs_rename g (de_path ?D (nptp_tmp ?D nptp)) (de_path ?D nptp) = Inr f3"
    using wr by (auto simp: write_nptp_def split: sum.splits if_splits)
  have "fs_read f3 (de_path ?D nptp) = Inr b"
    using fs_rename_file [OF g(2) tmp] g(1) by (auto simp: fs_read_def fs_write_def fs_open_write_def split: option.splits if_splits)
  moreover have "codec_ok (de_manifest ?D) m" using b X(3) by (auto simp: codec_inverse_def codec_ok_def to_nptp_def to_bytes_def split: sum.splits)
  then have "from_nptp (de_manifest ?D) b = Inr m" using nptp_container b by fastforce
  ultimately show ?thesis using m s' by (simp add: read_nptp_def err_text_def)
qed

lemma get_written:
  assumes run: "cmd_get C [nptp, ''--source'', source_dir, ''--store'', store_dir, ''--out'', out] s = (Inr (), s')"
    and args: "strip_prefix ''--'' nptp = None" and m: "read_nptp (ce_node C) (cl_fs s) nptp = Inr m" "\<not> looks_like_tree m"
  shows "\<exists>bs. map (hash_of (blake3 (de_crates (ce_node C)))) bs = chunk_hashes m
    \<and> hm_get (fs_files (cl_fs s')) (de_path (ce_node C) out) = Some (concat bs)"
proof -
  let ?D = "ce_node C"
  have parse: "parse [nptp, ''--source'', source_dir, ''--store'', store_dir, ''--out'', out] [''--source'', ''--store'', ''--out'']
      = ([nptp], [(''source'', source_dir), (''store'', store_dir), (''out'', out)])"
    using args by (simp add: parse_def strip_prefix_def hm_insert_def)
  obtain source local f2 where get: "get_content ?D False m source local (Some out) (s\<lparr>cl_fs := f2\<rparr>) = (Inr (), s')"
    using run m(1) unfolding cmd_get_def Let_def parse by (auto simp: hm_get_def hm_contains_def split: sum.splits prod.splits)
  then obtain st f dest prog st' where w: "write_output_to ?D m out st f = (Inr dest, prog, st', cl_fs s')"
    by (auto simp: get_content_def write_output_with_progress_def output_name_def say_def split: prod.splits sum.splits dest!: cli_progress_fs cli_now_fs)
  from write_output_content [OF w m(2)] show ?thesis .
qed

text \<open>
  C5. Packing a file and getting it back returns its bytes: after \<open>np2ptp pack\<close> of a file succeeds, its \<open>.nptp\<close> is
  carried to any other machine and \<open>np2ptp get\<close> succeeds there, from any store that claims to be a seed, the
  output file consists of blocks with the digests of the packed pieces, one by one; and it is the packed
  file, byte for byte, unless one of those blocks collides with a piece under the digest.
\<close>

theorem pack_get_roundtrip:
  assumes pack: "cmd_pack C [input, ''--out'', nptp, ''--store'', store_dir] s = (Inr (), s')"
    and args: "strip_prefix ''--'' input = None" "strip_prefix ''--'' nptp' = None" "path_file_name input = Some name"
    and X: "default_cdc (de_crates (ce_node C))" "default_stream (de_crates (ce_node C))" "codec_inverse (de_manifest (ce_node C))"
    and rd: "fs_read (cl_fs s) (de_path (ce_node C) input) = Inr d"
    and out: "\<And>q. de_path (ce_node C) input \<noteq> de_path (ce_node C) store_dir @ q"
    and tmp: "de_path (ce_node C) (nptp_tmp (ce_node C) nptp) \<noteq> de_path (ce_node C) nptp"
    and same: "de_crates (ce_node C') = de_crates (ce_node C)" "de_manifest (ce_node C') = de_manifest (ce_node C)"
    and carried: "fs_read (cl_fs t) (de_path (ce_node C') nptp') = fs_read (cl_fs s') (de_path (ce_node C) nptp)"
    and get: "cmd_get C' [nptp', ''--source'', seed, ''--store'', local, ''--out'', result] t = (Inr (), t')"
  shows "\<exists>bs. hm_get (fs_files (cl_fs t')) (de_path (ce_node C') result) = Some (concat bs)
    \<and> map (hash_of (blake3 (de_crates (ce_node C)))) bs = map (hash_of (blake3 (de_crates (ce_node C)))) (pieces (de_crates (ce_node C)) d)
    \<and> (inj_on (blake3 (de_crates (ce_node C))) (set bs \<union> set (pieces (de_crates (ce_node C)) d)) \<longrightarrow> concat bs = d)"
proof -
  let ?X = "de_crates (ce_node C)"
  let ?m = "from_files ?X [(name, d)] (Some name)"
  obtain b where b: "fs_read (cl_fs s') (de_path (ce_node C) nptp) = Inr b" "from_nptp (de_manifest (ce_node C)) b = Inr ?m"
    using pack_written [OF pack args(1,3) X rd out tmp] by (auto simp: read_nptp_def err_text_def split: sum.splits)
  then have rd': "read_nptp (ce_node C') (cl_fs t) nptp' = Inr ?m" using carried same by (simp add: read_nptp_def err_text_def)
  have single: "\<not> looks_like_tree ?m" using path_file_name_plain [OF args(3)] by (simp add: looks_like_tree_def from_files_fields)
  obtain bs where bs: "map (hash_of (blake3 ?X)) bs = chunk_hashes ?m"
      "hm_get (fs_files (cl_fs t')) (de_path (ce_node C') result) = Some (concat bs)"
    using get_written [OF get args(2) rd' single] same by auto
  have "chunk_hashes ?m = map (hash_of (blake3 ?X)) (pieces ?X d)"
    using pieces_ok(2) [OF X(1), of d] by (simp add: chunk_hashes_def from_files_fields comp_def)
  then have eq: "map (hash_of (blake3 ?X)) bs = map (hash_of (blake3 ?X)) (pieces ?X d)" using bs(1) by simp
  have "bs = pieces ?X d" if "inj_on (blake3 ?X) (set bs \<union> set (pieces ?X d))"
  proof (rule map_inj_on [OF eq])
    show "inj_on (hash_of (blake3 ?X)) (set bs \<union> set (pieces ?X d))" using that by (auto simp: inj_on_def hash_of_def)
  qed
  then show ?thesis using bs(2) eq pieces_ok(1) [OF X(1), of d] by auto
qed

section \<open>Sample runs\<close>

definition sample_cenv :: "'n runtime \<Rightarrow> manifest codec \<Rightarrow> 'n \<Rightarrow> ('n, unit, unit) cli_env" where
  "sample_cenv R Z n = \<lparr>ce_node = sample_denv R Z, ce_var = (\<lambda>_. None), ce_random = Inr (replicate 32 5), ce_spawn = (\<lambda>st f seed. (Inr n, f)),
     ce_raptorq = sample_rq, ce_http_get = (\<lambda>_ n. (Inr [0], n)), ce_debug = (\<lambda>s. s)\<rparr>"

definition sample_cli :: "fs \<Rightarrow> cli" where
  "sample_cli f = \<lparr>cl_fs = f, cl_clock = 0, cl_out = []\<rparr>"

abbreviation pack_cenv :: "(command option, unit, unit) cli_env" where
  "pack_cenv \<equiv> sample_cenv quiet_runtime conv_codec None"

lemma sample_cenv_parts:
  "de_crates (ce_node (sample_cenv R Z n)) = sample_crates" "de_manifest (ce_node (sample_cenv R Z n)) = Z" "de_path (ce_node (sample_cenv R Z n)) x = [x]"
  "ce_spawn (sample_cenv R Z n) st f seed = (Inr n, f)" "ce_random (sample_cenv R Z n) = Inr (replicate 32 5)"
  "de_now (ce_node (sample_cenv R Z n)) k = k"
  by (simp_all add: sample_cenv_def sample_denv_def)

lemma cli_progress_silent: "cli_progress D mk False calls prev s = (prev, s)"
  by (induction calls) auto

definition sample_seed :: "(string + bytes) \<times> fs" where
  "sample_seed = load_or_create_seed pack_cenv ''key'' empty_fs"

theorem seed_persists_witness:
  "fst sample_seed = Inr (replicate 32 5) \<and> load_or_create_seed (pack_cenv\<lparr>ce_random := Inl ''no entropy''\<rparr>) ''key'' (snd sample_seed) = (Inr (replicate 32 5), snd sample_seed)"
proof -
  have r: "fst sample_seed = Inr (replicate 32 5)" by code_simp
  then have l: "load_or_create_seed pack_cenv ''key'' empty_fs = (Inr (replicate 32 5), snd sample_seed)"
    unfolding sample_seed_def by (metis prod.collapse)
  have "length x = 32" if "ce_random pack_cenv = Inr x" for x using that by (auto simp: sample_cenv_parts)
  from seed_persists [OF l this] r show ?thesis by blast
qed

text \<open>Packing \<open>movie\<close>, step by step: the store, the ingestion, the manifest file.\<close>

definition sample_pack_store where
  "sample_pack_store = store_open sample_crates sample_source_fs [''s'']"

definition sample_packed where
  "sample_packed = pack_ingest (ce_node pack_cenv) False ''movie'' (Some ''movie'') (projr (fst sample_pack_store)) (snd sample_pack_store)"

definition sample_nptp where
  "sample_nptp = write_nptp (ce_node pack_cenv) conv_manifest ''m.nptp'' (snd (snd (snd sample_packed)))"

lemma sample_pack_step1: "\<not> isl (fst sample_pack_store)"
  by code_simp

lemma sample_pack_step2: "fst sample_packed = Inr conv_manifest"
  by code_simp

lemma sample_pack_step3: "fst sample_nptp = Inr ()"
  by code_simp

lemmas sample_pack_steps = sample_pack_step1 sample_pack_step2 sample_pack_step3

lemma sample_pack_parts:
  obtains st f1 prog st' f2 where "store_open sample_crates sample_source_fs [''s''] = (Inr st, f1)"
    "pack_ingest (ce_node pack_cenv) False ''movie'' (Some ''movie'') st f1 = (Inr conv_manifest, prog, st', f2)"
    "write_nptp (ce_node pack_cenv) conv_manifest ''m.nptp'' f2 = (Inr (), snd sample_nptp)"
proof -
  obtain st f1 where st: "store_open sample_crates sample_source_fs [''s''] = (Inr st, f1)"
    using sample_pack_steps(1) unfolding sample_pack_store_def by (metis prod.collapse sum.collapse(2))
  obtain prog st' f2 where ing: "pack_ingest (ce_node pack_cenv) False ''movie'' (Some ''movie'') st f1 = (Inr conv_manifest, prog, st', f2)"
    using sample_pack_steps(2) st unfolding sample_packed_def sample_pack_store_def by (metis prod.collapse fst_conv snd_conv sum.sel(2))
  have "write_nptp (ce_node pack_cenv) conv_manifest ''m.nptp'' f2 = (Inr (), snd sample_nptp)"
    using sample_pack_steps(3) ing st unfolding sample_nptp_def sample_packed_def sample_pack_store_def by (metis prod.collapse fst_conv snd_conv sum.sel(2))
  with st ing show thesis by (rule that)
qed

lemma sample_pack_run:
  "\<exists>s'. cmd_pack pack_cenv [''movie'', ''--out'', ''m.nptp'', ''--store'', ''s''] (sample_cli sample_source_fs) = (Inr (), s') \<and> cl_fs s' = snd sample_nptp"
proof -
  obtain st f1 prog st' f2 where parts: "store_open sample_crates sample_source_fs [''s''] = (Inr st, f1)"
    "pack_ingest (ce_node pack_cenv) False ''movie'' (Some ''movie'') st f1 = (Inr conv_manifest, prog, st', f2)"
    "write_nptp (ce_node pack_cenv) conv_manifest ''m.nptp'' f2 = (Inr (), snd sample_nptp)" by (rule sample_pack_parts)
  have "parse [''movie'', ''--out'', ''m.nptp'', ''--store'', ''s''] [''--out'', ''--store'', ''--name''] = ([''movie''], [(''out'', ''m.nptp''), (''store'', ''s'')])"
    "path_file_name ''movie'' = Some ''movie''" by code_simp+
  then show ?thesis
    by (simp add: cmd_pack_def Let_def flag_or_def hm_get_def hm_contains_def sample_cenv_parts sample_cli_def cli_now_def cli_progress_silent parts say_def)
qed

text \<open>Another machine that was sent the \<open>.nptp\<close> and holds the three pieces as loose objects.\<close>

definition seed_object :: "string \<Rightarrow> bytes \<Rightarrow> path \<times> bytes" where
  "seed_object h d = ([''s'', ''objects'', take 2 h, h @ replicate (64 - length h) CHR ''0''], d)"

definition seed_fs :: fs where
  "seed_fs = \<lparr>fs_files = [([''m.nptp''], [78, 80, 84, 80, 1, 9]), seed_object ''0102'' [1, 2], seed_object ''0304'' [3, 4], seed_object ''05'' [5]],
    fs_dirs = [[], [''s''], [''s'', ''objects''], [''s'', ''objects'', ''01''], [''s'', ''objects'', ''03''], [''s'', ''objects'', ''05'']],
    fs_denied = (\<lambda>_. False)\<rparr>"

definition sample_get_source where
  "sample_get_source = source_open sample_crates seed_fs [''s'']"

definition sample_get_local where
  "sample_get_local = store_open sample_crates (snd sample_get_source) [''l'']"

definition sample_get_download where
  "sample_get_download = download_with_progress sample_crates conv_manifest (source_fetch sample_crates (snd sample_get_local))
     (projr (fst sample_get_local)) (snd sample_get_local) (projr (fst sample_get_source))"

definition sample_get_output where
  "sample_get_output = (case sample_get_download of (_, _, (st, f), _) \<Rightarrow> write_output_with_progress (ce_node pack_cenv) conv_manifest (Some ''o'') st f)"

lemma sample_get_step1: "fs_read (snd sample_nptp) [''m.nptp''] = fs_read seed_fs [''m.nptp'']"
  by code_simp

lemma sample_get_step2: "read_nptp (ce_node pack_cenv) seed_fs ''m.nptp'' = Inr conv_manifest"
  by code_simp

lemma sample_get_step3: "\<not> isl (fst sample_get_source)"
  by code_simp

lemma sample_get_step4: "\<not> isl (fst sample_get_local)"
  by code_simp

lemma sample_get_step5: "\<not> isl (fst sample_get_download)"
  by code_simp

lemma sample_get_step6: "\<not> isl (fst sample_get_output)"
  by code_simp

lemmas sample_get_steps = sample_get_step1 sample_get_step2 sample_get_step3 sample_get_step4 sample_get_step5 sample_get_step6

lemma sample_get_run:
  "\<exists>t'. cmd_get pack_cenv [''m.nptp'', ''--source'', ''s'', ''--store'', ''l'', ''--out'', ''o''] (sample_cli seed_fs) = (Inr (), t')"
proof -
  obtain source f1 where src: "source_open sample_crates seed_fs [''s''] = (Inr source, f1)"
    using sample_get_steps(3) unfolding sample_get_source_def by (metis prod.collapse sum.collapse(2))
  obtain loc f2 where loc: "store_open sample_crates f1 [''l''] = (Inr loc, f2)"
    using sample_get_steps(4) src unfolding sample_get_local_def sample_get_source_def by (metis prod.collapse sum.collapse(2) snd_conv)
  have "sample_get_download = download_with_progress sample_crates conv_manifest (source_fetch sample_crates f2) loc f2 source"
    using src loc by (simp add: sample_get_download_def sample_get_local_def sample_get_source_def)
  then obtain rep prog st f3 src' where dl: "download_with_progress sample_crates conv_manifest (source_fetch sample_crates f2) loc f2 source = (Inr rep, prog, (st, f3), src')"
    "sample_get_download = (Inr rep, prog, (st, f3), src')"
    using sample_get_steps(5) by (metis prod.collapse sum.collapse(2))
  obtain dest prog2 st2 f4 where wr: "write_output_with_progress (ce_node pack_cenv) conv_manifest (Some ''o'') st f3 = (Inr dest, prog2, st2, f4)"
    using sample_get_steps(6) dl(2) unfolding sample_get_output_def by (metis (no_types, lifting) case_prod_conv prod.collapse sum.collapse(2))
  have "parse [''m.nptp'', ''--source'', ''s'', ''--store'', ''l'', ''--out'', ''o''] [''--source'', ''--store'', ''--out'']
      = ([''m.nptp''], [(''source'', ''s''), (''store'', ''l''), (''out'', ''o'')])" by code_simp
  then show ?thesis
    by (simp add: cmd_get_def Let_def sample_get_steps(2) src loc flag_or_def hm_get_def hm_contains_def sample_cenv_parts sample_cli_def get_content_def
        cli_now_def cli_progress_silent dl(1) wr)
qed

theorem pack_get_roundtrip_witness:
  "\<exists>t' bs. cmd_get pack_cenv [''m.nptp'', ''--source'', ''s'', ''--store'', ''l'', ''--out'', ''o''] (sample_cli seed_fs) = (Inr (), t')
     \<and> hm_get (fs_files (cl_fs t')) [''o''] = Some (concat bs)
     \<and> map (hash_of (blake3 sample_crates)) bs = map (hash_of (blake3 sample_crates)) (pieces sample_crates [1, 2, 3, 4, 5])"
proof -
  obtain s' where p: "cmd_pack pack_cenv [''movie'', ''--out'', ''m.nptp'', ''--store'', ''s''] (sample_cli sample_source_fs) = (Inr (), s')" "cl_fs s' = snd sample_nptp"
    using sample_pack_run by blast
  obtain t' where g: "cmd_get pack_cenv [''m.nptp'', ''--source'', ''s'', ''--store'', ''l'', ''--out'', ''o''] (sample_cli seed_fs) = (Inr (), t')"
    using sample_get_run by blast
  have args: "strip_prefix ''--'' ''movie'' = None" "strip_prefix ''--'' ''m.nptp'' = None" "path_file_name ''movie'' = Some ''movie''" by code_simp+
  have X: "default_cdc (de_crates (ce_node pack_cenv))" "default_stream (de_crates (ce_node pack_cenv))" "codec_inverse (de_manifest (ce_node pack_cenv))"
    using default_cdc_sample stream_ok_sample by (auto simp: sample_cenv_parts codec_inverse_def conv_codec_def split: if_splits)
  have rd: "fs_read (cl_fs (sample_cli sample_source_fs)) (de_path (ce_node pack_cenv) ''movie'') = Inr [1, 2, 3, 4, 5]" by code_simp
  have out: "de_path (ce_node pack_cenv) ''movie'' \<noteq> de_path (ce_node pack_cenv) ''s'' @ q" for q by (simp add: sample_cenv_parts)
  have tmp: "de_path (ce_node pack_cenv) (nptp_tmp (ce_node pack_cenv) ''m.nptp'') \<noteq> de_path (ce_node pack_cenv) ''m.nptp''"
    by (simp add: sample_cenv_parts nptp_tmp_def)
  have "fs_read (cl_fs (sample_cli seed_fs)) (de_path (ce_node pack_cenv) ''m.nptp'') = fs_read (cl_fs s') (de_path (ce_node pack_cenv) ''m.nptp'')"
    using sample_get_steps(1) p(2) by (simp add: sample_cenv_parts sample_cli_def)
  from pack_get_roundtrip [OF p(1) args X rd out tmp refl refl this g] g show ?thesis by (auto simp: sample_cenv_parts)
qed

text \<open>Fetching the tiny manifest of the runtime that answers from a table, step by step.\<close>

abbreviation fetch_cenv :: "((peer \<times> request) option, unit, unit) cli_env" where
  "fetch_cenv \<equiv> sample_cenv (table_runtime tiny_answer) tiny_codec None"

definition sample_fetch_first where
  "sample_fetch_first = store_open sample_crates sample_fs [''s'']"

definition sample_fetch_second where
  "sample_fetch_second = store_open sample_crates (snd sample_fetch_first) [''s'']"

definition sample_found where
  "sample_found = fetch_candidates fetch_cenv False (default_tracker fetch_cenv) (m_root tiny_manifest) None None (sample_cli (snd sample_fetch_second))"

definition sample_fetch_run :: "nat \<Rightarrow> nat \<Rightarrow> (peer \<times> request) option fetch_run" where
  "sample_fetch_run clock prev = (case sample_found of (_, n, s) \<Rightarrow>
     \<lparr>fr_store = projr (fst sample_fetch_second), fr_net = n, fr_cli = s\<lparr>cl_clock := clock\<rparr>, fr_prev = prev, fr_first = None, fr_total = 0, fr_err = []\<rparr>)"

definition sample_cli_attempt where
  "sample_cli_attempt = cli_attempt fetch_cenv False False (m_root tiny_manifest) [1] (sample_fetch_run 2 0)"

definition sample_fetch_written where
  "sample_fetch_written = fetch_write (ce_node fetch_cenv) False tiny_manifest (Some ''o'') (snd sample_cli_attempt)"

lemma sample_fetch_step1: "\<not> isl (fst sample_fetch_first)"
  by code_simp

lemma sample_fetch_step2: "\<not> isl (fst sample_fetch_second)"
  by code_simp

lemma sample_fetch_step3: "fst sample_found = Inr [([1], [[OtherProtocol ''a'']])]"
  by code_simp

lemma sample_fetch_step4: "fst (snd sample_found) = None"
  by code_simp

lemma sample_fetch_step5: "cl_clock (snd (snd sample_found)) = 0"
  by code_simp

lemma sample_fetch_step6: "fst sample_cli_attempt = Inr tiny_manifest"
  by code_simp

lemma sample_fetch_step7: "fst sample_fetch_written = Inr ()"
  by code_simp

lemmas sample_fetch_steps = sample_fetch_step1 sample_fetch_step2 sample_fetch_step3 sample_fetch_step4 sample_fetch_step5 sample_fetch_step6 sample_fetch_step7

lemma sample_dialled: "snd (net_dial (table_runtime tiny_answer) a None) = None"
  by (simp add: net_dial_def net_send_def unit_call_def net_call_def table_runtime_def)

lemma try_peer_first: "cli_attempt C use_fec json root p r = (Inr m, r') \<Longrightarrow> try_peer C use_fec json root dl p 60 r = (Some m, True, r')"
  by (simp add: numeral_eq_Suc)


end
