(* ===== verification/Serve.thy ===== *)
theory Serve
  imports Cli
begin

text \<open>
  The session of \<open>np2ptp serve\<close> and the dispatch of the binary (\<open>crates/np2ptp-node/src/main.rs\<close>), and its port
  mapper (\<open>crates/np2ptp-node/src/portmap.rs\<close>): the addresses a node advertises, the relay it falls back to, the
  announcing and status loop. The router, the network interface and the branch that \<open>select!\<close> takes are
  parameters.
\<close>

section \<open>Port mapping\<close>

text \<open>
  The default interface (its gateway's and its own IPv4 addresses), the mapping of \<open>crab_nat\<close> with the external
  port as its result, the body of the address service, and the parser of an address, which returns its text.
\<close>

record 'n nat_env =
  nv_interface :: "'n \<Rightarrow> (string + string list option \<times> string list) \<times> 'n"
  nv_map :: "string \<Rightarrow> string \<Rightarrow> nat \<Rightarrow> 'n \<Rightarrow> (string + nat) \<times> 'n"
  nv_ipify :: "'n \<Rightarrow> string option \<times> 'n"
  nv_ip_parse :: "string \<Rightarrow> string option"

definition try_map_udp :: "'n nat_env \<Rightarrow> nat \<Rightarrow> 'n \<Rightarrow> (string + nat) \<times> 'n" where
  "try_map_udp V internal_port n =
     (case nv_interface V n of
        (Inl e, n1) \<Rightarrow> (Inl e, n1)
      | (Inr (gateway, ipv4), n1) \<Rightarrow> (case Option.bind gateway (\<lambda>g. case g of [] \<Rightarrow> None | a # _ \<Rightarrow> Some a) of
          None \<Rightarrow> (Inl ''no default gateway'', n1)
        | Some g \<Rightarrow> (case ipv4 of
            [] \<Rightarrow> (Inl ''no local IPv4 address'', n1)
          | local_ip # _ \<Rightarrow> if internal_port = 0 then (Inl ''invalid port'', n1) else nv_map V g local_ip internal_port n1)))"

definition public_ip :: "'n nat_env \<Rightarrow> 'n \<Rightarrow> string option \<times> 'n" where
  "public_ip V n = (case nv_ipify V n of (None, n1) \<Rightarrow> (None, n1) | (Some t, n1) \<Rightarrow> (nv_ip_parse V (str_trim t), n1))"

section \<open>Reaching the node\<close>

definition full_addr :: "('n, 'q) daemon_env \<Rightarrow> multiaddr \<Rightarrow> string" where
  "full_addr D a = ma_text (de_addr D) a @ ''/p2p/'' @ peer_text (de_addr D) (de_peer D)"

definition direct_fetch :: "('n, 'q) daemon_env \<Rightarrow> bool \<Rightarrow> manifest list \<Rightarrow> multiaddr list \<Rightarrow> cli_line list" where
  "direct_fetch D no_tracker ms addrs =
     text_lines (if addrs = [] then [''peer id: '' @ peer_text (de_addr D) (de_peer D) @ '' (no listen address yet)'']
       else ''direct fetch:'' # concat (map (\<lambda>m.
         map (\<lambda>a. ''  np2ptp fetch '' @ uri (de_crates D) m @ '' --peer '' @ full_addr D a) addrs
         @ (if no_tracker then [] else [''or, once announced, just: np2ptp fetch '' @ uri (de_crates D) m @ ''   (peers found via the tracker)''])) ms))"

fun first_udp_port :: "addr_lib \<Rightarrow> multiaddr list \<Rightarrow> nat option" where
  "first_udp_port A [] = None"
| "first_udp_port A (a # as) = (case udp_port A a of Some port \<Rightarrow> Some port | None \<Rightarrow> first_udp_port A as)"

definition serve_public :: "('n, 'q) daemon_env \<Rightarrow> bool \<Rightarrow> string option \<Rightarrow> multiaddr list \<Rightarrow> 'n \<Rightarrow> cli \<Rightarrow> (string + 'n) \<times> cli" where
  "serve_public D json public addrs n s =
     (case public of
        None \<Rightarrow> (Inr n, s)
      | Some p \<Rightarrow> (case public_addr (de_addr D) p (case first_udp_port (de_addr D) addrs of Some port \<Rightarrow> port | None \<Rightarrow> 4001) of
          Inl e \<Rightarrow> (Inl e, s)
        | Inr ext \<Rightarrow> (case net_add_external_address (de_rt D) ext n of
            (Inl e, _) \<Rightarrow> (Inl (de_net_text D e), s)
          | (Inr _, n1) \<Rightarrow> (Inr n1, if json then s else say (text_lines [''public address: '' @ full_addr D ext]) s))))"

text \<open>Whether the router mapped the port; the address found through it is only advertised when it is known and parses.\<close>

definition serve_portmap :: "('n, 'q) daemon_env \<Rightarrow> 'n nat_env \<Rightarrow> bool \<Rightarrow> multiaddr list \<Rightarrow> 'n \<Rightarrow> cli \<Rightarrow> bool \<times> 'n \<times> cli" where
  "serve_portmap D V json addrs n s =
     (case first_udp_port (de_addr D) addrs of
        None \<Rightarrow> (False, n, s)
      | Some port \<Rightarrow> (case try_map_udp V port n of
          (Inl e, n1) \<Rightarrow> (False, n1, s)
        | (Inr external_port, n1) \<Rightarrow> (case public_ip V n1 of
            (None, n2) \<Rightarrow> (True, n2, s)
          | (Some ip, n2) \<Rightarrow> (case ma_parse (de_addr D) (''/ip4/'' @ ip @ ''/udp/'' @ show_nat external_port @ ''/quic-v1'') of
              Inl _ \<Rightarrow> (True, n2, s)
            | Inr ext \<Rightarrow> (True, snd (net_add_external_address (de_rt D) ext n2),
                if json then s else say (text_lines [''NAT-PMP/PCP: public address '' @ full_addr D ext]) s)))))"

section \<open>The relay\<close>

text \<open>Waiting for the circuit: 100 polls; losing the swarm is an error.\<close>

fun wait_circuit :: "('n, 'q) daemon_env \<Rightarrow> nat \<Rightarrow> 'n \<Rightarrow> (net_error + bool) \<times> 'n" where
  "wait_circuit D 0 n = (Inr False, n)"
| "wait_circuit D (Suc k) n =
     (case net_listeners (de_rt D) n of
        (Inl e, n1) \<Rightarrow> (Inl e, n1)
      | (Inr addrs, n1) \<Rightarrow>
          if list_ex (\<lambda>a. str_contains ''p2p-circuit'' (ma_text (de_addr D) a)) addrs then (Inr True, n1)
          else wait_circuit D k (de_sleep D 100 n1))"

fun announce_all :: "('n, 'q) daemon_env \<Rightarrow> string \<Rightarrow> multiaddr list \<Rightarrow> manifest list \<Rightarrow> 'n \<Rightarrow> 'n" where
  "announce_all D tracker addrs [] n = n"
| "announce_all D tracker addrs (m # ms) n = announce_all D tracker addrs ms (snd (announce D tracker (m_root m) (de_peer D) addrs n))"

definition or_default :: "(net_error + 'a) \<times> 'n \<Rightarrow> 'a \<Rightarrow> 'a \<times> 'n" where
  "or_default r d = (case r of (Inl _, n) \<Rightarrow> (d, n) | (Inr a, n) \<Rightarrow> (a, n))"

definition serve_relay :: "('n, 'q) daemon_env \<Rightarrow> bool \<Rightarrow> bool \<Rightarrow> string \<Rightarrow> manifest list \<Rightarrow> string option \<Rightarrow> 'n \<Rightarrow> cli \<Rightarrow> (string + 'n) \<times> cli" where
  "serve_relay D json no_tracker tracker ms relay n s =
     (case relay of
        None \<Rightarrow> (Inr n, s)
      | Some r \<Rightarrow> (case ma_parse (de_addr D) r of
          Inl e \<Rightarrow> (Inl e, s)
        | Inr ra \<Rightarrow>
            let relay_text = ma_text (de_addr D) ra;
                s1 = (if json then s else say (text_lines [''relay: dialing '' @ relay_text @ '' ...'']) s) in
            (case net_dial (de_rt D) ra n of
               (Inl e, _) \<Rightarrow> (Inl (de_net_text D e), s1)
             | (Inr _, n1) \<Rightarrow> (case ma_parse (de_addr D) (relay_text @ ''/p2p-circuit'') of
                 Inl e \<Rightarrow> (Inl e, s1)
               | Inr circuit \<Rightarrow> (case net_listen (de_rt D) circuit (de_sleep D 800 n1) of
                   (Inl e, _) \<Rightarrow> (Inl (de_net_text D e), s1)
                 | (Inr _, n2) \<Rightarrow> (case wait_circuit D 100 n2 of
                     (Inl e, _) \<Rightarrow> (Inl (de_net_text D e), s1)
                   | (Inr False, n3) \<Rightarrow> (Inr n3, s1)
                   | (Inr True, n3) \<Rightarrow>
                       (let s2 = (if json then s1 else
                           say (text_lines [''relay: reservation ok -> '' @ relay_text @ ''/p2p-circuit/p2p/'' @ peer_text (de_addr D) (de_peer D)]) s1) in
                        if no_tracker then (Inr n3, s2)
                        else case or_default (net_listeners (de_rt D) n3) [] of
                          (addrs, n4) \<Rightarrow> (Inr (announce_all D tracker addrs ms n4), s2))))))))"

section \<open>The loop\<close>

text \<open>Listen addresses first, then the external ones that are not among them.\<close>

fun add_missing :: "'a list \<Rightarrow> 'a list \<Rightarrow> 'a list" where
  "add_missing addrs [] = addrs"
| "add_missing addrs (ext # exts) = add_missing (if ext \<in> set addrs then addrs else addrs @ [ext]) exts"

definition announce_turn_cli :: "('n, 'q) daemon_env \<Rightarrow> string \<Rightarrow> manifest list \<Rightarrow> 'n \<Rightarrow> 'n" where
  "announce_turn_cli D tracker ms n =
     (case or_default (net_listeners (de_rt D) n) [] of (addrs, n1) \<Rightarrow>
      case or_default (net_external_addresses (de_rt D) n1) [] of (exts, n2) \<Rightarrow>
        announce_all D tracker (add_missing addrs exts) ms n2)"

definition status_turn :: "('n, 'q) daemon_env \<Rightarrow> bool \<Rightarrow> string \<Rightarrow> 'n \<Rightarrow> cli \<Rightarrow> 'n \<times> cli" where
  "status_turn D no_tracker tracker n s =
     (case or_default (connected_peers (de_rt D) n) [] of (peers, n1) \<Rightarrow>
      case or_default (net_ledger_totals (de_rt D) n1) no_counters of (totals, n2) \<Rightarrow>
        (n2, say [JsonLine (serve_status no_tracker tracker peers totals)] s))"

datatype serve_event = CtrlC | AnnounceTick | StatusTick

text \<open>A disabled branch is never taken. The flag says whether the session was stopped.\<close>

fun serve_loop :: "('n, 'q) daemon_env \<Rightarrow> bool \<Rightarrow> bool \<Rightarrow> string \<Rightarrow> manifest list \<Rightarrow> serve_event list \<Rightarrow> 'n \<Rightarrow> cli \<Rightarrow> bool \<times> 'n \<times> cli" where
  "serve_loop D json no_tracker tracker ms [] n s = (False, n, s)"
| "serve_loop D json no_tracker tracker ms (CtrlC # evs) n s = (True, n, if json then s else say (text_lines ['''', ''stopped.'']) s)"
| "serve_loop D json no_tracker tracker ms (AnnounceTick # evs) n s =
     serve_loop D json no_tracker tracker ms evs (if no_tracker then n else announce_turn_cli D tracker ms n) s"
| "serve_loop D json no_tracker tracker ms (StatusTick # evs) n s =
     (case (if json then status_turn D no_tracker tracker n s else (n, s)) of (n1, s1) \<Rightarrow> serve_loop D json no_tracker tracker ms evs n1 s1)"

text \<open>Everything after the content is provided.\<close>

definition serve_session :: "('n, 'q, 'd) cli_env \<Rightarrow> 'n nat_env \<Rightarrow> (string, string) hmap \<Rightarrow> manifest list \<Rightarrow> serve_event list \<Rightarrow> 'n \<Rightarrow> cli
    \<Rightarrow> (string + bool) \<times> cli" where
  "serve_session C V flags ms evs n s =
     (let D = ce_node C; json = hm_contains flags ''json''; no_tracker = hm_contains flags ''no-tracker'';
          tracker = flag_or flags ''tracker'' (default_tracker C); public = hm_get flags ''public'' in
      case wait_for_listeners D 200 [] 0 n of (addrs, n1) \<Rightarrow>
      let s1 = (if json then s else say (direct_fetch D no_tracker ms addrs) s) in
      case serve_public D json public addrs n1 s1 of
        (Inl e, s2) \<Rightarrow> (Inl e, s2)
      | (Inr n2, s2) \<Rightarrow> (case serve_portmap D V json addrs n2 s2 of (mapped, n3, s3) \<Rightarrow>
          case (if public \<noteq> None \<or> mapped then (True, n3) else wait_external D 30 n3) of (has_external, n4) \<Rightarrow>
          let relay = relay_choice C flags has_external;
              s4 = (if \<not> hm_contains flags ''no-relay'' \<and> hm_get flags ''relay'' = None \<and> \<not> has_external \<and> \<not> json
                    then say (text_lines [''no direct/UPnP/NAT-PMP public address '' @ DASH @ '' falling back to public relay'']) s3 else s3) in
          (case serve_relay D json no_tracker tracker ms relay n4 s4 of
             (Inl e, s5) \<Rightarrow> (Inl e, s5)
           | (Inr n5, s5) \<Rightarrow>
               let s6 = (if json then s5 else say (text_lines ['''', if no_tracker then ''Providing on the DHT. Press Ctrl-C to stop.''
                   else ''Providing on the DHT + announcing to '' @ tracker @ ''. Press Ctrl-C to stop.'']) s5) in
               (case serve_loop D json no_tracker tracker ms evs n5 s6 of (stopped, _, s7) \<Rightarrow> (Inr stopped, s7)))))"

definition serve_flags :: "string list \<Rightarrow> (string, string) hmap" where
  "serve_flags args = snd (parse args [''--store'', ''--listen'', ''--tracker'', ''--public'', ''--relay'', ''--choke-threshold''])"

definition cmd_serve :: "('n, 'q, 'd) cli_env \<Rightarrow> 'n nat_env \<Rightarrow> string list \<Rightarrow> serve_event list \<Rightarrow> cli \<Rightarrow> (string + bool) \<times> cli" where
  "cmd_serve C V args evs s =
     (case serve_start C args s of
        (Inl e, s1) \<Rightarrow> (Inl e, s1)
      | (Inr (ms, n), s1) \<Rightarrow> serve_session C V (serve_flags args) ms evs n s1)"

text \<open>\<open>relay\<close> after Ctrl-C.\<close>

definition relay_stopped :: "(string + 'n) \<times> cli \<Rightarrow> (string + unit) \<times> cli" where
  "relay_stopped r = (case r of (Inl e, s) \<Rightarrow> (Inl e, s) | (Inr _, s) \<Rightarrow> (Inr (), say (text_lines ['''', ''stopped.'']) s))"

section \<open>The binary\<close>

text \<open>
  What \<open>main\<close> does with its arguments. \<open>run_daemon\<close> is modelled as a transition system of its own, so what it
  returns is an argument here. \<open>None\<close>: the command is still running.
\<close>

definition run :: "('n, 'q, 'd) cli_env \<Rightarrow> 'n nat_env \<Rightarrow> (daemon_config \<Rightarrow> cli \<Rightarrow> (string + unit) \<times> cli) \<Rightarrow> string list \<Rightarrow> serve_event list \<Rightarrow> bool \<Rightarrow> 'q \<Rightarrow> cli
    \<Rightarrow> ((string + unit) \<times> cli) option" where
  "run C V daemon args evs ctrl_c q s = map_option (report_error args)
     (case args of
        [] \<Rightarrow> Some (Inr (), s)
      | op # rest \<Rightarrow>
          if op = ''pack'' then Some (cmd_pack C rest s)
          else if op = ''info'' then Some (cmd_info C rest s)
          else if op = ''get'' then Some (cmd_get C rest s)
          else if op = ''serve'' then (case cmd_serve C V rest evs s of
              (Inl e, s1) \<Rightarrow> Some (Inl e, s1) | (Inr stopped, s1) \<Rightarrow> if stopped then Some (Inr (), s1) else None)
          else if op = ''fetch'' then Some (cmd_fetch C rest s)
          else if op = ''relay'' then (case cmd_relay C rest s of
              (Inl e, s1) \<Rightarrow> Some (Inl e, s1) | (Inr n, s1) \<Rightarrow> if ctrl_c then Some (relay_stopped (Inr n, s1)) else None)
          else if op = ''torrent'' then cmd_torrent C rest q s
          else if op = ''daemon'' then Some (case cmd_daemon C rest s of (Inl e, s1) \<Rightarrow> (Inl e, s1) | (Inr cfg, s1) \<Rightarrow> daemon cfg s1)
          else if op \<in> {''help'', ''--help'', ''-h''} then Some (Inr (), s)
          else Some (Inl ''unknown command'', s))"

section \<open>The JSON contract\<close>

text \<open>Lines of an event, and what a command adds to the output: progress only, or progress and then one result.\<close>

fun event_line :: "string \<Rightarrow> cli_line \<Rightarrow> bool" where
  "event_line ev (JsonLine (JObject ((k, JString v) # flds))) = (k = ''event'' \<and> v = ev)"
| "event_line ev _ = False"

definition progressed :: "cli \<Rightarrow> cli \<Rightarrow> bool" where
  "progressed s s' \<longleftrightarrow> (\<exists>ls. cl_out s' = cl_out s @ ls \<and> list_all (event_line ''progress'') ls)"

definition concluded :: "cli \<Rightarrow> cli \<Rightarrow> bool" where
  "concluded s s' \<longleftrightarrow> (\<exists>ls l. cl_out s' = cl_out s @ ls @ [l] \<and> list_all (event_line ''progress'') ls \<and> event_line ''result'' l)"

lemma progressed_refl: "cl_out s' = cl_out s \<Longrightarrow> progressed s s'"
  by (simp add: progressed_def)

lemma progressed_self [simp]: "progressed s s"
  by (simp add: progressed_def)

lemma progressed_trans [trans]: "progressed s s' \<Longrightarrow> progressed s' s'' \<Longrightarrow> progressed s s''"
  unfolding progressed_def by (elim exE conjE, rule_tac x = "ls @ lsa" in exI, simp)

lemma progressed_concluded [trans]: "progressed s s' \<Longrightarrow> concluded s' s'' \<Longrightarrow> concluded s s''"
  unfolding progressed_def concluded_def by (elim exE conjE, rule_tac x = "ls @ lsa" in exI, rule_tac x = l in exI, simp)

lemma progressed_keep: "progressed (s\<lparr>cl_fs := f\<rparr>) s' \<longleftrightarrow> progressed s s'" "progressed s (s'\<lparr>cl_fs := f\<rparr>) \<longleftrightarrow> progressed s s'"
  "concluded (s\<lparr>cl_fs := f\<rparr>) s' \<longleftrightarrow> concluded s s'" "concluded s (s'\<lparr>cl_fs := f\<rparr>) \<longleftrightarrow> concluded s s'"
  by (simp_all add: progressed_def concluded_def)

lemma cli_now_progressed: "cli_now D s = (t, s') \<Longrightarrow> progressed s s'"
  by (auto simp: cli_now_def progressed_def)

lemma cli_progress_progressed:
  assumes mk: "\<And>a b. event_line ''progress'' (JsonLine (mk a b))"
  shows "cli_progress D mk True calls prev s = (prev', s') \<Longrightarrow> progressed s s'"
proof (induction calls arbitrary: prev s)
  case (Cons c calls)
  obtain don tot where c: "c = (don, tot)" by force
  obtain now s1 where n: "cli_now D s = (now, s1)" by force
  have "progressed s1 (say [JsonLine (mk don tot)] s1)" using mk by (simp add: progressed_def say_def)
  then have "progressed s (say [JsonLine (mk don tot)] s1)" using cli_now_progressed [OF n] progressed_trans by blast
  moreover have "progressed s s1" by (rule cli_now_progressed [OF n])
  ultimately show ?case using Cons c n by (auto split: if_splits intro: progressed_trans)
qed (simp add: progressed_def)

lemma progress_lines: "event_line ''progress'' (JsonLine (bytes_progress op a b))" "event_line ''progress'' (JsonLine (chunks_progress op ph a b))"
  by (simp_all add: bytes_progress_def chunks_progress_def)

lemmas progress_steps = cli_now_progressed cli_progress_progressed [OF progress_lines(1)] cli_progress_progressed [OF progress_lines(2)]

definition contract :: "cli \<Rightarrow> (string + unit) \<times> cli \<Rightarrow> bool" where
  "contract s r \<longleftrightarrow> (if isl (fst r) then progressed s (snd r) else concluded s (snd r))"

lemma contract_after: "progressed s s1 \<Longrightarrow> contract s1 r \<Longrightarrow> contract s r"
  using progressed_trans progressed_concluded unfolding contract_def by presburger

lemma contract_fail: "progressed s s' \<Longrightarrow> contract s (Inl e, s')"
  by (simp add: contract_def)

lemma contract_report:
  assumes "event_line ''result'' l" and "progressed s s'"
  shows "contract s (Inr u, say [l] s')"
proof -
  obtain ls where "cl_out s' = cl_out s @ ls" "list_all (event_line ''progress'') ls" using assms(2) by (auto simp: progressed_def)
  then have "concluded s (say [l] s')" unfolding concluded_def say_def using assms(1) by (intro exI [of _ ls] exI [of _ l]) simp
  then show ?thesis by (simp add: contract_def)
qed

lemma contract_keep: "contract (s\<lparr>cl_fs := f\<rparr>) r \<longleftrightarrow> contract s r"
  by (simp add: contract_def progressed_keep)

lemma pack_contract:
  assumes "hm_contains (snd (parse args [''--out'', ''--store'', ''--name''])) ''json''"
  shows "contract s (cmd_pack C args s)"
proof -
  obtain pos flags where p: "parse args [''--out'', ''--store'', ''--name''] = (pos, flags)" by force
  then have json: "hm_contains flags ''json''" using assms by simp
  show ?thesis
    unfolding cmd_pack_def Let_def p using json
    by (auto simp: progressed_keep pack_report_def contract_keep split: prod.split list.split sum.split dest!: progress_steps
        intro!: contract_fail contract_report; meson progressed_trans progressed_self)
qed

lemma get_contract:
  assumes "hm_contains (snd (parse args [''--source'', ''--store'', ''--out''])) ''json''"
  shows "contract s (cmd_get C args s)"
proof -
  obtain pos flags where p: "parse args [''--source'', ''--store'', ''--out''] = (pos, flags)" by force
  then have json: "hm_contains flags ''json''" using assms by simp
  have content: "contract s (get_content D True m source loc out_flag s)" for D :: "('a, 'b) daemon_env" and m source loc out_flag s
    unfolding get_content_def get_report_def
    by (auto simp: progressed_keep split: prod.split sum.split dest!: progress_steps intro!: contract_fail contract_report;
        meson progressed_trans progressed_self)
  have "contract s (get_content (ce_node C) True m source loc out_flag (s\<lparr>cl_fs := f\<rparr>))" for m source loc out_flag f
    using content [of "s\<lparr>cl_fs := f\<rparr>"] by (simp add: contract_keep)
  then show ?thesis
    unfolding cmd_get_def Let_def p using json
    by (auto simp: progressed_keep split: prod.split list.split sum.split option.split intro!: contract_fail)
qed

lemma cli_attempt_progressed: "cli_attempt C use_fec True root p r = (x, r') \<Longrightarrow> progressed (fr_cli r) (fr_cli r')"
  unfolding cli_attempt_def Let_def by (auto simp: progressed_keep split: prod.splits dest!: progress_steps)

lemma try_peer_progressed: "try_peer C use_fec True root dl p k r = (x, stop, r') \<Longrightarrow> progressed (fr_cli r) (fr_cli r')"
proof (induction k arbitrary: r)
  case (Suc k)
  obtain a r1 where a: "cli_attempt C use_fec True root p r = (a, r1)" by force
  obtain now c where n: "cli_now (ce_node C) (fr_cli r1) = (now, c)" by force
  have g: "progressed (fr_cli r) (fr_cli r1)" "progressed (fr_cli r1) c" using cli_attempt_progressed [OF a] cli_now_progressed [OF n] .
  show ?case
  proof (cases a)
    case (Inl e)
    have "progressed c (fr_cli r')" using Suc.prems a n Inl Suc.IH by (fastforce simp: Let_def split: if_splits intro: progressed_refl)
    then show ?thesis using g progressed_trans by blast
  qed (use Suc.prems a g in auto)
qed (simp add: progressed_def)

lemma try_candidates_progressed: "try_candidates C use_fec True root dl cs r = (x, r') \<Longrightarrow> progressed (fr_cli r) (fr_cli r')"
proof (induction cs arbitrary: r)
  case (Cons c cs)
  obtain p addrs where c: "c = (p, addrs)" by force
  let ?r1 = "r\<lparr>fr_net := foldl (\<lambda>n a. snd (net_dial (de_rt (ce_node C)) a n)) (fr_net r) addrs\<rparr>"
  obtain m stop r2 where t: "try_peer C use_fec True root dl p 60 ?r1 = (m, stop, r2)" by (rule prod_cases3)
  have "progressed (fr_cli r) (fr_cli r2)" using try_peer_progressed [OF t] by simp
  moreover have "progressed (fr_cli r2) (fr_cli r')" using Cons.prems Cons.IH c t by (cases stop) (simp_all add: Let_def progressed_def)
  ultimately show ?case by (rule progressed_trans)
qed (simp add: progressed_def)

lemma fetch_contract:
  assumes "hm_contains (snd (parse args [''--peer'', ''--store'', ''--out'', ''--tracker''])) ''json''"
  shows "contract s (cmd_fetch C args s)"
proof -
  obtain pos flags where p: "parse args [''--peer'', ''--store'', ''--out'', ''--tracker''] = (pos, flags)" by force
  then have json: "hm_contains flags ''json''" using assms by simp
  have w: "contract (fr_cli r) (fetch_write D True m out_flag r)" for D :: "('a, 'b) daemon_env" and m out_flag r
    unfolding fetch_write_def fetch_report_def Let_def
    by (auto simp: progressed_keep split: prod.split sum.split dest!: progress_steps intro!: contract_fail contract_report;
        meson progressed_trans progressed_self)
  have quiet: "fetch_candidates C True tracker root explicit n s = (x, n', s') \<Longrightarrow> s' = s" for tracker root explicit n s x n' s'
    by (auto simp: fetch_candidates_def split: option.splits prod.splits sum.splits list.splits)
  show ?thesis
    unfolding cmd_fetch_def Let_def p using json
    by (auto simp: progressed_keep split: prod.split list.split sum.split option.split dest!: quiet progress_steps try_candidates_progressed
        intro!: contract_fail contract_after [OF _ w]; meson progressed_trans progressed_self)
qed

lemma bridge_torrent_contract:
  assumes "bridge_torrent D True no_copy input local_meta out_dir st q n s = Some r"
  shows "contract s r"
proof -
  obtain now s1 where n: "cli_now D s = (now, s1)" by force
  have shape: "\<exists>x prog f' prev s2. cli_progress D (bytes_progress ''torrent'') True prog now (s1\<lparr>cl_fs := f'\<rparr>) = (prev, s2) \<and> r = g x s2"
    if "(case a of None \<Rightarrow> None | Some (x, prog, f') \<Rightarrow>
        (case cli_progress D (bytes_progress ''torrent'') True prog now (s1\<lparr>cl_fs := f'\<rparr>) of (_, s2) \<Rightarrow> Some (g x s2))) = Some r" for a g
    using that by (cases a) (fastforce split: prod.splits)+
  obtain x prog f' prev s2 where p: "cli_progress D (bytes_progress ''torrent'') True prog now (s1\<lparr>cl_fs := f'\<rparr>) = (prev, s2)"
    and r: "r = (case x of Inl e \<Rightarrow> (Inl e, s2) | Inr oc \<Rightarrow> (Inr (), say (torrent_report D True oc) s2))"
    using shape [OF assms [unfolded bridge_torrent_def n prod.case]] by blast
  have "progressed s s2" using progress_steps(1) [OF n] progress_steps(2) [OF p] progressed_trans by (auto simp: progressed_keep)
  then show ?thesis unfolding r by (auto simp: torrent_report_def Let_def split: sum.split intro!: contract_fail contract_report)
qed

lemma torrent_contract:
  assumes "hm_contains (snd (parse args [''--data'', ''--store'', ''--relay'', ''--out''])) ''json''" and run: "cmd_torrent C args q s = Some r"
  shows "contract s r"
proof -
  obtain pos flags where p: "parse args [''--data'', ''--store'', ''--relay'', ''--out''] = (pos, flags)" by force
  then have json: "hm_contains flags ''json''" using assms by simp
  have quiet: "dial_torrent_relay C True flags n s = (x, s') \<Longrightarrow> s' = s" for n s x s'
    by (auto simp: dial_torrent_relay_def Let_def split: if_splits prod.splits sum.splits)
  show ?thesis
    using run json unfolding cmd_torrent_def Let_def p
    by (auto simp: progressed_keep contract_keep split: prod.splits list.splits sum.splits dest!: quiet bridge_torrent_contract intro!: contract_fail)
qed

lemma parse_loop_flag: "hm_contains (snd (parse_loop vf args pos flags)) k \<Longrightarrow> hm_contains flags k \<or> ''--'' @ k \<in> set args"
proof (induction vf args pos flags rule: parse_loop.induct)
  case (2 vf a args pos flags)
  show ?case
  proof (cases "strip_prefix ''--'' a")
    case (Some name)
    then have a: "a = ''--'' @ name" by (simp only: strip_prefix_Some)
    have ins: "hm_contains (hm_insert name v flags) k \<longleftrightarrow> k = name \<or> hm_contains flags k" for v by (simp add: hm_contains_def)
    show ?thesis
    proof (cases "a \<in> set vf \<and> args \<noteq> []")
      case True
      then have "hm_contains flags k \<or> k = name \<or> ''--'' @ k \<in> set (tl args)" using 2(2) [OF Some True] 2(4) Some ins by auto
      then show ?thesis using a True list.set_sel(2) [of args] by auto
    next
      case False
      then have "hm_contains flags k \<or> k = name \<or> ''--'' @ k \<in> set args" using 2(3) [OF Some False] 2(4) Some ins by auto
      then show ?thesis using a by auto
    qed
  qed (use 2 in auto)
qed simp

text \<open>The flags of an operation that take a value.\<close>

definition value_flags :: "string \<Rightarrow> string list" where
  "value_flags op =
     (if op = ''pack'' then [''--out'', ''--store'', ''--name''] else if op = ''get'' then [''--source'', ''--store'', ''--out'']
      else if op = ''fetch'' then [''--peer'', ''--store'', ''--out'', ''--tracker''] else [''--data'', ''--store'', ''--relay'', ''--out''])"

text \<open>
  C19. An embedder can rely on the JSON output: when \<open>pack\<close>, \<open>get\<close>, \<open>fetch\<close> or \<open>torrent\<close> runs under \<open>--json\<close> and returns,
  whatever the store, the peers and the file system did, everything it printed is progress events followed by
  exactly one terminal event, a result if it succeeded and an error if not.
\<close>

theorem cli_json_contract:
  assumes run: "run C V daemon (op # rest) evs ctrl_c q s = Some (r, s')"
    and op: "op \<in> {''pack'', ''get'', ''fetch'', ''torrent''}" and json: "hm_contains (snd (parse rest (value_flags op))) ''json''"
  shows "\<exists>ls l. cl_out s' = cl_out s @ ls @ [l] \<and> list_all (event_line ''progress'') ls \<and> event_line (if isl r then ''error'' else ''result'') l"
proof -
  have arg: "''--json'' \<in> set (op # rest)" using parse_loop_flag [of "value_flags op" rest "[]" "[]" "''json''"] json
    by (auto simp: parse_def hm_contains_def hm_get_def)
  have "\<exists>x s1. (r, s') = report_error (op # rest) (x, s1) \<and> contract s (x, s1)"
  proof (cases "op = ''torrent''")
    case True
    then obtain x s1 where "cmd_torrent C rest q s = Some (x, s1)" "(r, s') = report_error (op # rest) (x, s1)" using run by (auto simp: run_def)
    then show ?thesis using torrent_contract [of rest C q s] json True by (auto simp: value_flags_def)
  next
    case False
    then show ?thesis using run op json pack_contract [of rest s C] get_contract [of rest s C] fetch_contract [of rest s C]
      by (cases "cmd_pack C rest s"; cases "cmd_get C rest s"; cases "cmd_fetch C rest s") (auto simp: run_def value_flags_def)
  qed
  then obtain x s1 where x: "(r, s') = report_error (op # rest) (x, s1)" and c: "contract s (x, s1)" by blast
  show ?thesis
  proof (cases x)
    case (Inl e)
    then obtain ls where ls: "cl_out s1 = cl_out s @ ls" "list_all (event_line ''progress'') ls" using c by (auto simp: contract_def progressed_def)
    let ?l = "JsonLine (JObject [(''event'', JString ''error''), (''op'', JString op), (''message'', JString e)])"
    have "r = Inl e" "s' = say [?l] s1" using x Inl arg by (simp_all add: report_error_def)
    then show ?thesis using ls by (intro exI [of _ ls] exI [of _ ?l]) (simp add: say_def)
  next
    case (Inr u)
    then show ?thesis using c x by (auto simp: contract_def concluded_def report_error_def)
  qed
qed

section \<open>Without a tracker\<close>

definition other_http :: "(string \<Rightarrow> json \<Rightarrow> 'n \<Rightarrow> (string + unit) \<times> 'n) \<Rightarrow> (string \<Rightarrow> 'n \<Rightarrow> (string + bytes) \<times> 'n) \<Rightarrow> ('n, 'q, 'd) cli_env \<Rightarrow> ('n, 'q, 'd) cli_env" where
  "other_http post query C = C\<lparr>ce_http_get := query, ce_node := (ce_node C)\<lparr>de_http_post := post\<rparr>\<rparr>"

lemma http_fields:
  "de_rt (D\<lparr>de_http_post := h\<rparr>) = de_rt D" "de_crates (D\<lparr>de_http_post := h\<rparr>) = de_crates D" "de_manifest (D\<lparr>de_http_post := h\<rparr>) = de_manifest D"
  "de_addr (D\<lparr>de_http_post := h\<rparr>) = de_addr D" "de_peer (D\<lparr>de_http_post := h\<rparr>) = de_peer D" "de_sleep (D\<lparr>de_http_post := h\<rparr>) = de_sleep D"
  "de_net_text (D\<lparr>de_http_post := h\<rparr>) = de_net_text D" "de_node_text (D\<lparr>de_http_post := h\<rparr>) = de_node_text D" "de_proc (D\<lparr>de_http_post := h\<rparr>) = de_proc D"
  "de_path (D\<lparr>de_http_post := h\<rparr>) = de_path D" "de_show_path (D\<lparr>de_http_post := h\<rparr>) = de_show_path D" "de_store_text (D\<lparr>de_http_post := h\<rparr>) = de_store_text D"
  "de_io_text (D\<lparr>de_http_post := h\<rparr>) = de_io_text D"
  by simp_all

lemma cli_http_fields:
  "ce_node (other_http post query C) = (ce_node C)\<lparr>de_http_post := post\<rparr>" "ce_random (other_http post query C) = ce_random C"
  "ce_spawn (other_http post query C) = ce_spawn C" "default_tracker (other_http post query C) = default_tracker C"
  "relay_choice (other_http post query C) = relay_choice C" "choke_flag (other_http post query C) = choke_flag C"
  by (simp_all add: other_http_def default_tracker_def relay_choice_def default_relay_def choke_flag_def fun_eq_iff split: option.split)

lemma register_all_http: "register_all (D\<lparr>de_http_post := h\<rparr>) dir k ms f = register_all D dir k ms f"
  by (induction ms arbitrary: k f) (auto split: prod.split sum.split)

lemma provide_all_http: "provide_all (D\<lparr>de_http_post := h\<rparr>) ms n = provide_all D ms n"
  by (induction ms arbitrary: n) (auto split: prod.split sum.split)

lemma wait_for_listeners_http: "wait_for_listeners (D\<lparr>de_http_post := h\<rparr>) k seen held n = wait_for_listeners D k seen held n"
  by (induction k arbitrary: seen held n) (auto simp: Let_def split: prod.split sum.split)

lemma wait_external_http: "wait_external (D\<lparr>de_http_post := h\<rparr>) k n = wait_external D k n"
  by (induction k arbitrary: n) (auto split: prod.split sum.split list.split)

lemma wait_circuit_http: "wait_circuit (D\<lparr>de_http_post := h\<rparr>) k n = wait_circuit D k n"
  by (induction k arbitrary: n) (auto split: prod.split sum.split)

lemma serve_up_http: "serve_up (D\<lparr>de_http_post := h\<rparr>) json choke listen ms n s = serve_up D json choke listen ms n s"
  unfolding serve_up_def provide_all_http http_fields ..

lemma seed_http: "load_or_create_seed (other_http post query C) p f = load_or_create_seed C p f"
  unfolding load_or_create_seed_def cli_http_fields http_fields Let_def ..

lemma serve_start_http: "serve_start (other_http post query C) args s = serve_start C args s"
  unfolding serve_start_def seed_http cli_http_fields http_fields register_all_http serve_up_http Let_def ..

lemma session_parts_http:
  "direct_fetch (D\<lparr>de_http_post := h\<rparr>) nt ms addrs = direct_fetch D nt ms addrs"
  "serve_public (D\<lparr>de_http_post := h\<rparr>) json public addrs n s = serve_public D json public addrs n s"
  "serve_portmap (D\<lparr>de_http_post := h\<rparr>) V json addrs n s = serve_portmap D V json addrs n s"
  "serve_relay (D\<lparr>de_http_post := h\<rparr>) json True tracker ms relay n s = serve_relay D json True tracker ms relay n s"
  unfolding direct_fetch_def serve_public_def serve_portmap_def serve_relay_def full_addr_def wait_circuit_http http_fields if_True by (rule refl)+

lemma serve_loop_http: "serve_loop (D\<lparr>de_http_post := h\<rparr>) json True tracker ms evs n s = serve_loop D json True tracker ms evs n s"
proof (induction evs arbitrary: n s)
  case (Cons e evs)
  then show ?case by (cases e) (auto simp: status_turn_def split: prod.split)
qed simp

text \<open>
  \<open>serve --no-tracker\<close> tells no tracker: everything it does, what it prints, writes and sends, and how it ends, is
  the same whatever the HTTP client does, so nothing of it goes through that client.
\<close>

theorem serve_no_tracker:
  assumes "hm_contains (serve_flags args) ''no-tracker''"
  shows "cmd_serve (other_http post query C) V args evs s = cmd_serve C V args evs s"
proof -
  have "serve_session (other_http post query C) V (serve_flags args) ms evs n s = serve_session C V (serve_flags args) ms evs n s" for ms n s
  proof -
    have nt: "hm_contains (serve_flags args) ''no-tracker'' = True" using assms by simp
    show ?thesis
      unfolding serve_session_def nt Let_def cli_http_fields session_parts_http serve_loop_http wait_for_listeners_http wait_external_http ..
  qed
  then show ?thesis unfolding cmd_serve_def serve_start_http by presburger
qed

section \<open>A sample run\<close>

definition sample_nat :: "'n nat_env" where
  "sample_nat = \<lparr>nv_interface = (\<lambda>n. (Inl ''no interface'', n)), nv_map = (\<lambda>_ _ _ n. (Inl ''no router'', n)), nv_ipify = (\<lambda>n. (None, n)), nv_ip_parse = (\<lambda>_. None)\<rparr>"

lemma sample_json_pack:
  "\<exists>s'. cmd_pack pack_cenv [''movie'', ''--out'', ''m.nptp'', ''--store'', ''s'', ''--json''] (sample_cli sample_source_fs) = (Inr (), s')"
proof -
  obtain st f1 prog st' f2 where parts: "store_open sample_crates sample_source_fs [''s''] = (Inr st, f1)"
    "pack_ingest (ce_node pack_cenv) False ''movie'' (Some ''movie'') st f1 = (Inr conv_manifest, prog, st', f2)"
    "write_nptp (ce_node pack_cenv) conv_manifest ''m.nptp'' f2 = (Inr (), snd sample_nptp)" by (rule sample_pack_parts)
  have "parse [''movie'', ''--out'', ''m.nptp'', ''--store'', ''s'', ''--json''] [''--out'', ''--store'', ''--name'']
      = ([''movie''], [(''out'', ''m.nptp''), (''store'', ''s''), (''json'', [])])" "path_file_name ''movie'' = Some ''movie''" by code_simp+
  then show ?thesis
    by (auto simp: cmd_pack_def Let_def flag_or_def hm_get_def hm_contains_def sample_cenv_parts sample_cli_def cli_now_def parts split: prod.split)
qed

theorem cli_json_contract_witness:
  "\<exists>s' ls l. run pack_cenv sample_nat (\<lambda>_ s. (Inr (), s)) [''pack'', ''movie'', ''--out'', ''m.nptp'', ''--store'', ''s'', ''--json''] [] False () (sample_cli sample_source_fs)
       = Some (Inr (), s')
     \<and> cl_out s' = ls @ [l] \<and> list_all (event_line ''progress'') ls \<and> event_line ''result'' l"
proof -
  let ?rest = "[''movie'', ''--out'', ''m.nptp'', ''--store'', ''s'', ''--json'']"
  obtain s' where "run pack_cenv sample_nat (\<lambda>_ s. (Inr (), s)) (''pack'' # ?rest) [] False () (sample_cli sample_source_fs) = Some (Inr (), s')"
    using sample_json_pack by (auto simp: run_def report_error_def)
  moreover have "hm_contains (snd (parse ?rest (value_flags ''pack''))) ''json''" by code_simp
  ultimately show ?thesis using cli_json_contract [of pack_cenv sample_nat _ "''pack''" ?rest] by (fastforce simp: sample_cli_def)
qed

end
