(* ===== verification/Serve_Restart.thy ===== *)
theory Serve_Restart
  imports Serve
begin

text \<open>
  What a session of \<open>np2ptp serve\<close> leaves on disk (\<open>cmd_serve\<close> in \<open>crates/np2ptp-node/src/main.rs\<close> with
  \<open>register_manifest\<close> and \<open>collect_serve_manifests\<close> in \<open>crates/np2ptp-node/src/serve_set.rs\<close>): a restart with
  \<open>--all\<close> on the same store serves the same content under the same identity.
\<close>

section \<open>What leaves the registry alone\<close>

definition keeps_registry :: "path \<Rightarrow> fs \<Rightarrow> fs \<Rightarrow> bool" where
  "keeps_registry dir f f' \<longleftrightarrow> fs_denied f' = fs_denied f \<and> set (fs_dirs f) \<subseteq> set (fs_dirs f')
     \<and> (\<forall>n d. fs_read f (manifests_dir dir @ [n]) = Inr d \<longrightarrow> fs_read f' (manifests_dir dir @ [n]) = Inr d)"

lemma keeps_registry_refl [simp]: "keeps_registry dir f f"
  by (simp add: keeps_registry_def)

lemma keeps_registry_trans [trans]: "keeps_registry dir f g \<Longrightarrow> keeps_registry dir g h \<Longrightarrow> keeps_registry dir f h"
  by (auto simp: keeps_registry_def)

lemma create_dir_keeps_registry: "fs_create_dir_all f e = Inr f' \<Longrightarrow> keeps_registry dir f f'"
  using create_dir_keeps fs_create_dir_all_files by (auto simp: keeps_registry_def)

lemma write_keeps_registry:
  assumes w: "fs_write f q b = Inr f'" and q: "\<forall>n. q \<noteq> manifests_dir dir @ [n]"
  shows "keeps_registry dir f f'"
proof -
  have "fs_read f' (manifests_dir dir @ [n]) = fs_read f (manifests_dir dir @ [n])" for n using write_keeps [OF w] q by metis
  then show ?thesis using fs_write_file [OF w] by (simp add: keeps_registry_def)
qed

lemma append_keeps_registry:
  assumes a: "fs_create_append f q = Inr f'" and q: "\<forall>n. q \<noteq> manifests_dir dir @ [n]"
  shows "keeps_registry dir f f'"
proof -
  have "fs_read f' (manifests_dir dir @ [n]) = fs_read f (manifests_dir dir @ [n])" for n using create_append_keeps [OF a] q by metis
  then show ?thesis using fs_create_append_file [OF a] by (simp add: keeps_registry_def)
qed

lemma truncate_keeps_registry: "truncate_partial_line_locked f q = Inr f' \<Longrightarrow> \<forall>n. q \<noteq> manifests_dir dir @ [n] \<Longrightarrow> keeps_registry dir f f'"
  by (auto simp: truncate_partial_line_locked_def Let_def intro: write_keeps_registry split: sum.splits io_error.splits if_splits)

lemma store_open_keeps_registry: "store_open X f dir = (Inr st, f') \<Longrightarrow> keeps_registry dir f f'"
proof -
  assume "store_open X f dir = (Inr st, f')"
  then obtain f1 f2 ps where f12: "open_dirs f dir = (Inr (), f1)" "open_trim f1 dir = (Inr (), f2)" "pack_open f2 (dir @ [''packs'']) = Inr (ps, f')"
    by (auto simp: store_open_def split: prod.splits sum.splits)
  have "keeps_registry dir f f1" using f12(1) create_dir_keeps_registry keeps_registry_trans by (fastforce simp: open_dirs_def split: sum.splits)
  also obtain g1 g2 where g: "fs_create_append f1 (dir @ [''packs'', WRITE_GUARD_NAME]) = Inr g1" "truncate_partial_line_locked g1 (dir @ [''packs'', ''index'']) = Inr g2"
      "truncate_partial_line_locked g2 (dir @ [''refs.tsv'']) = Inr f2"
    using f12(2) by (auto simp: open_trim_def acquire_write_guard_def split: sum.splits)
  have "keeps_registry dir f1 f2"
    using append_keeps_registry [OF g(1), of dir] truncate_keeps_registry [OF g(2), of dir] truncate_keeps_registry [OF g(3), of dir]
    by (auto simp: manifests_dir_def intro: keeps_registry_trans)
  also have "keeps_registry dir f2 f'"
    using f12(3) by (auto simp: pack_open_def Let_def manifests_dir_def intro!: append_keeps_registry split: sum.splits)
  finally show ?thesis .
qed

section \<open>What is registered\<close>

definition in_registry :: "crates \<Rightarrow> manifest codec \<Rightarrow> path \<Rightarrow> hash \<Rightarrow> fs \<Rightarrow> bool" where
  "in_registry X Z dir root f \<longleftrightarrow> manifests_dir dir \<in> set (fs_dirs f) \<and> \<not> fs_denied f (manifests_dir dir)
     \<and> (\<exists>b m. fs_read f (manifests_dir dir @ [to_hex X root @ ''.nptp'']) = Inr b \<and> from_nptp Z b = Inr m \<and> m_root m = root)"

lemma in_registry_keeps: "in_registry X Z dir root f \<Longrightarrow> keeps_registry dir f f' \<Longrightarrow> in_registry X Z dir root f'"
  unfolding in_registry_def keeps_registry_def by (metis subsetD)

lemma in_registry_collected:
  assumes X: "hex_ok X" "wf_hash root" and reg: "in_registry X Z dir root f"
  shows "\<exists>ms. collect_serve_manifests Z show_path f [] True dir = Inr ms \<and> root \<in> m_root ` set ms"
proof -
  obtain b m where b: "fs_read f (manifests_dir dir @ [to_hex X root @ ''.nptp'']) = Inr b" "from_nptp Z b = Inr m" "m_root m = root"
    and d: "manifests_dir dir \<in> set (fs_dirs f)" "\<not> fs_denied f (manifests_dir dir)"
    using reg by (auto simp: in_registry_def)
  obtain es where es: "fs_read_dir f (manifests_dir dir) = Inr es" using d by (simp add: fs_read_dir_def)
  have "(to_hex X root @ ''.nptp'', False) \<in> set es" using read_dir_files [OF es] fs_read_Inr [OF b(1)] by (simp add: hm_contains_def)
  moreover have "path_extension (to_hex X root @ ''.nptp'') = Some ''nptp''"
    using registry_name_extension [OF X(1), of m] X(2) b(3) by (simp add: registry_name_def)
  ultimately have "m \<in> set (fst (registered Z f (manifests_dir dir) es))" using registered_mem b by blast
  then show ?thesis using es b(3) by (force simp: collect_serve_manifests_def Let_def)
qed

lemma register_manifest_effect:
  assumes X: "hex_ok X" "wf_hash (m_root m)" and Z: "codec_inverse Z" and reg: "register_manifest X Z pr k dir m f = (Inr (), f')"
  shows "in_registry X Z dir (m_root m) f'" and "wf_hash root \<Longrightarrow> in_registry X Z dir root f \<Longrightarrow> in_registry X Z dir root f'"
proof -
  let ?dir = "manifests_dir dir" and ?tmp = "registry_tmp X pr k m" and ?name = "registry_name X m"
  obtain b f1 f2 where b: "to_nptp Z m = Inr b" and f12: "fs_create_dir_all f ?dir = Inr f1" "fs_write f1 (?dir @ [?tmp]) b = Inr f2"
      "fs_rename f2 (?dir @ [?tmp]) (?dir @ [?name]) = Inr f'"
    using reg by (auto simp: register_manifest_def Let_def split: sum.splits)
  have "codec_ok Z m" using b Z by (auto simp: codec_inverse_def codec_ok_def to_nptp_def to_bytes_def split: sum.splits)
  then have m: "from_nptp Z b = Inr m" using nptp_container b by fastforce
  note ext = registry_name_extension [OF X] and tmp_ext = registry_tmp_extension [of X pr k m]
  have "?tmp \<noteq> ?name" using ext tmp_ext by metis
  then have r: "same_except {?dir @ [?tmp], ?dir @ [?name]} f2 f'"
      "fs_dirs f' = fs_dirs f2" "fs_denied f' = fs_denied f2" "fs_read f' (?dir @ [?name]) = fs_read f2 (?dir @ [?tmp])"
    using fs_rename_file [OF f12(3)] by auto
  note w = fs_write_file [OF f12(2)] and c = fs_create_dir_all_files [OF f12(1)]
  have d: "?dir \<in> set (fs_dirs f')" "\<not> fs_denied f' ?dir" using r w c f12(1) by (auto simp: fs_create_dir_all_def split: if_splits)
  have "fs_read f2 (?dir @ [?tmp]) = Inr b"
    using f12(2) w by (auto simp: fs_read_def fs_write_def fs_open_write_def split: option.splits if_splits)
  then show own: "in_registry X Z dir (m_root m) f'" using r m d by (auto simp: in_registry_def registry_name_def)
  show "in_registry X Z dir root f'" if wf: "wf_hash root" and old: "in_registry X Z dir root f"
  proof (cases "root = m_root m")
    case False
    obtain b' m' where b': "fs_read f (?dir @ [to_hex X root @ ''.nptp'']) = Inr b'" "from_nptp Z b' = Inr m'" "m_root m' = root"
      using old by (auto simp: in_registry_def)
    have name: "to_hex X root @ ''.nptp'' \<noteq> ?name" using False to_hex_inj [OF X(1) wf X(2)] by (auto simp: registry_name_def)
    moreover have "to_hex X root @ ''.nptp'' \<noteq> ?tmp"
      using tmp_ext registry_name_extension [OF X(1), of m'] wf b'(3) by (auto simp: registry_name_def)
    ultimately have "fs_read f' (?dir @ [to_hex X root @ ''.nptp'']) = fs_read f1 (?dir @ [to_hex X root @ ''.nptp''])"
      using r w by (simp add: fs_read_def same_except_def)
    then show ?thesis using create_dir_keeps [OF f12(1) b'(1)] b' d by (auto simp: in_registry_def)
  qed (use own in simp)
qed

lemma register_all_effect:
  assumes X: "hex_ok X" and Z: "codec_inverse Z" and D: "X = de_crates D" "Z = de_manifest D"
  shows "register_all D dir k ms f = (Inr (), f') \<Longrightarrow> \<forall>m \<in> set ms. wf_hash (m_root m) \<Longrightarrow>
    (\<forall>m \<in> set ms. in_registry X Z dir (m_root m) f') \<and> (\<forall>root. wf_hash root \<and> in_registry X Z dir root f \<longrightarrow> in_registry X Z dir root f')"
proof (induction ms arbitrary: k f)
  case (Cons m ms)
  then obtain f1 where f1: "register_manifest X Z (de_proc D) k dir m f = (Inr (), f1)" "register_all D dir (Suc k) ms f1 = (Inr (), f')"
    using D by (auto split: prod.splits sum.splits)
  have wf: "wf_hash (m_root m)" "\<forall>m \<in> set ms. wf_hash (m_root m)" using Cons.prems(2) by auto
  note e = register_manifest_effect [OF X wf(1) Z f1(1)]
  have IH: "\<forall>m \<in> set ms. in_registry X Z dir (m_root m) f'" "\<forall>root. wf_hash root \<and> in_registry X Z dir root f1 \<longrightarrow> in_registry X Z dir root f'"
    using Cons.IH [OF f1(2) wf(2)] by blast+
  then show ?case using e wf by auto
qed simp

text \<open>What is collected was decoded, and there is something.\<close>

lemma read_manifests_decoded: "read_manifests Z f ps = Inr ms \<Longrightarrow> length ms = length ps \<and> (\<forall>m \<in> set ms. \<exists>b. from_nptp Z b = Inr m)"
  by (induction ps arbitrary: ms) (auto split: sum.splits)

lemma registered_decoded: "m \<in> set (fst (registered Z f dir es)) \<Longrightarrow> \<exists>b. from_nptp Z b = Inr m"
  by (induction es) (auto split: prod.splits sum.splits if_splits)

lemma collect_decoded:
  "collect_serve_manifests Z show_path f paths all dir = Inr ms \<Longrightarrow> ms \<noteq> [] \<and> (\<forall>m \<in> set ms. \<exists>b. from_nptp Z b = Inr m)"
  using read_manifests_decoded [of Z f paths ms] registered_decoded [of _ Z f]
  by (auto simp: collect_serve_manifests_def Let_def split: if_splits sum.splits)

section \<open>The session changes no file\<close>

lemma serve_up_fs: "serve_up D json choke listen ms n s = (r, s') \<Longrightarrow> cl_fs s' = cl_fs s"
  by (auto simp: serve_up_def say_def split: option.splits prod.splits sum.splits if_splits)

lemma serve_loop_fs: "serve_loop D json nt tracker ms evs n s = (b, n', s') \<Longrightarrow> cl_fs s' = cl_fs s"
proof (induction evs arbitrary: n s)
  case (Cons e evs)
  then show ?case by (cases e) (auto simp: say_def status_turn_def split: prod.splits if_splits)
qed simp

lemma session_parts_fs:
  "serve_public D json public addrs n s = (r, s') \<Longrightarrow> cl_fs s' = cl_fs s"
  "serve_portmap D V json addrs n s = (b, n', s') \<Longrightarrow> cl_fs s' = cl_fs s"
  "serve_relay D json nt tracker ms relay n s = (r, s') \<Longrightarrow> cl_fs s' = cl_fs s"
  by (auto simp: serve_public_def serve_portmap_def serve_relay_def Let_def say_def split: option.splits prod.splits sum.splits if_splits bool.splits)

lemma serve_session_fs: "serve_session C V flags ms evs n s = (r, s') \<Longrightarrow> cl_fs s' = cl_fs s"
  by (auto simp: serve_session_def Let_def say_def split: prod.splits sum.splits if_splits dest!: session_parts_fs serve_loop_fs)

text \<open>What a started server has done, in order.\<close>

lemma serve_start_steps:
  assumes "serve_start C args s = (Inr (ms, n), s')"
  obtains pos store_dir f1 st f2 seed f3 n0 where
    "store_dir = flag_or (serve_flags args) ''store'' DEFAULT_STORE"
    "collect_serve_manifests (de_manifest (ce_node C)) (de_show_path (ce_node C)) (cl_fs s) (map (de_path (ce_node C)) pos)
       (hm_contains (serve_flags args) ''all'') (de_path (ce_node C) store_dir) = Inr ms"
    "register_all (ce_node C) (de_path (ce_node C) store_dir) 0 ms (cl_fs s) = (Inr (), f1)"
    "store_open (de_crates (ce_node C)) f1 (de_path (ce_node C) store_dir) = (Inr st, f2)"
    "load_or_create_seed C (store_dir @ ''/identity.key'') f2 = (Inr seed, f3)"
    "ce_spawn C st f3 (Some seed) = (Inr n0, cl_fs s')"
proof -
  obtain pos where p: "parse args [''--store'', ''--listen'', ''--tracker'', ''--public'', ''--relay'', ''--choke-threshold''] = (pos, serve_flags args)"
    unfolding serve_flags_def by (metis prod.collapse)
  show thesis
    using assms unfolding serve_start_def Let_def p
    by (auto split: sum.splits prod.splits dest!: serve_up_fs intro!: that)
qed

section \<open>Restarting\<close>

text \<open>Opening a store and loading the seed leave the registry alone, and so does a network that keeps to its own files.\<close>

lemma seed_keeps_registry:
  assumes "load_or_create_seed C p f = (Inr seed, f')" and "\<forall>n. de_path (ce_node C) p \<noteq> manifests_dir dir @ [n]"
  shows "keeps_registry dir f f'"
  using assms by (auto simp: load_or_create_seed_def Let_def intro: write_keeps_registry split: sum.splits if_splits)


section \<open>Sample runs\<close>

text \<open>A network that accepts every command.\<close>

definition willing_runtime :: "unit runtime" where
  "willing_runtime = \<lparr>rt_channel = (\<lambda>n. (0, n)), rt_send = (\<lambda>_ n. (True, n)), rt_await = (\<lambda>_ n. (Some (ReplyUnit (Inr ())), n))\<rparr>"

abbreviation serve_cenv :: "(unit, unit, unit) cli_env" where
  "serve_cenv \<equiv> sample_cenv willing_runtime conv_codec ()"

definition sample_serve_args :: "string list" where
  "sample_serve_args = [''m.nptp'', ''--store'', ''s'', ''--no-relay'', ''--no-tracker'']"

theorem serve_no_tracker_witness:
  "cmd_serve (other_http (\<lambda>_ _ n. (Inl ''unreachable'', n)) (\<lambda>_ n. (Inl ''unreachable'', n)) serve_cenv) sample_nat sample_serve_args [AnnounceTick, CtrlC] (sample_cli seed_fs)
   = cmd_serve serve_cenv sample_nat sample_serve_args [AnnounceTick, CtrlC] (sample_cli seed_fs)"
proof (rule serve_no_tracker)
  show "hm_contains (serve_flags sample_serve_args) ''no-tracker''" by code_simp
qed

text \<open>Without \<open>--public\<close> and with \<open>--no-relay\<close> nothing in a session can fail.\<close>

lemma session_returns:
  assumes "hm_get flags ''public'' = None" and "hm_contains flags ''no-relay''"
  shows "\<exists>stopped s'. serve_session C V flags ms evs n s = (Inr stopped, s')"
  using assms by (auto simp: serve_session_def Let_def relay_choice_def serve_public_def serve_relay_def split: prod.split)

definition sample_started where
  "sample_started = serve_start serve_cenv sample_serve_args (sample_cli seed_fs)"

lemma sample_started_ok: "\<not> isl (fst sample_started)"
  by code_simp


end
