(* ===== verification/End_To_End.thy ===== *)
theory End_To_End
  imports Downloads Store_Clients
begin

text \<open>
  Packing, downloading and exporting together (\<open>Manifest::from_files\<close> in \<open>crates/np2ptp-core/src/manifest.rs\<close>,
  \<open>Network::download_multi\<close> in \<open>crates/np2ptp-net/src/lib.rs\<close>, \<open>Store::export_tree\<close> in
  \<open>crates/np2ptp-store/src/lib.rs\<close>): whoever knows a root gets exactly the files it was computed from.
\<close>

text \<open>What a tree's manifest commits to, and what a store that answers those hashes gives back.\<close>

lemma refs_of_hashes: "default_cdc X \<Longrightarrow> map cref_hash (refs_of X off fs) = map (hash_of (blake3 X)) (concat (map (\<lambda>f. pieces X (snd f)) fs))"
  using pieces_ok(2) by (induction X off fs rule: refs_of.induct) (simp_all add: span_ref_def comp_def)

lemma from_files_hashes: "default_cdc X \<Longrightarrow> chunk_hashes (from_files X fs name) = map (hash_of (blake3 X)) (concat (map (\<lambda>f. pieces X (snd f)) fs))"
  by (simp add: chunk_hashes_def from_files_fields refs_of_hashes)

lemma export_tree_held:
  assumes inv: "store_inv X dir st f" and X: "default_cdc X" and size: "files_size fs < 2 ^ 64"
    and held: "\<forall>b \<in> set (concat (map (\<lambda>f. pieces X (snd f)) fs)). holds X st f (hash_of (blake3 X) b) = Some b"
  shows "export_tree X st f (from_files X fs name) = (Inr fs, st)"
proof -
  let ?m = "from_files X fs name"
  have "serves X fs (holds X st f)" using held by (fastforce simp: serves_def list_all_iff)
  from files_loop_serves [OF X _ this, of 0 ?m "[]" 0 "(st, None :: store_error option)"] size
  have "reconstruct_files_loop X ?m (pure_fetch (holds X st f)) (m_files ?m) (st, None :: store_error option) = (Inr fs, (st, None))"
    by (simp add: from_files_fields)
  moreover have "reconstruct_files_loop X ?m (store_fetch X f) (m_files ?m) (st, None) = reconstruct_files_loop X ?m (pure_fetch (holds X st f)) (m_files ?m) (st, None)"
    using store_fetch_inv [OF inv] by (rule fetch_fixed_files)
  ultimately show ?thesis using from_files_valid [OF X size, of name] by (simp add: export_tree_def reconstruct_files_def export_result_def)
qed

lemma export_held:
  assumes "store_inv X dir st f" and "default_cdc X" and "length data < 2 ^ 64"
    and "\<forall>b \<in> set (pieces X data). holds X st f (hash_of (blake3 X) b) = Some b"
  shows "export X st f (from_bytes X data name) = (Inr data, st)"
proof -
  let ?fs = "[(default_path name, data)]"
  have "export_tree X st f (from_files X ?fs name) = (Inr ?fs, st)" using assms by (intro export_tree_held) auto
  then have "reconstruct_files X (from_files X ?fs name) (store_fetch X f) (st, None) = (Inr ?fs, (st, None))"
    by (auto simp: export_tree_def export_result_def split: prod.splits option.splits sum.splits)
  from reconstruct_files_agrees [OF this] assms(3) show ?thesis by (simp add: export_def from_bytes_def export_result_def)
qed

text \<open>A store that holds every chunk of a consistent manifest of the root holds the packed pieces themselves.\<close>

lemma root_pieces_held:
  assumes X: "digest_ok X" "default_cdc X" and root: "m_root m = m_root (from_files X fs name)" "root_is_consistent X m"
    and held: "\<forall>h \<in> set (chunk_hashes m). \<exists>b. hold h = Some b \<and> hash_of (blake3 X) b = h"
    and inj: "inj_on (blake3 X) (merkle_inputs (blake3 X) (chunk_hashes m) \<union> merkle_inputs (blake3 X) (chunk_hashes (from_files X fs name))
      \<union> set (concat (map (\<lambda>f. pieces X (snd f)) fs)) \<union> {b. \<exists>h \<in> set (chunk_hashes m). hold h = Some b})"
  shows "\<forall>b \<in> set (concat (map (\<lambda>f. pieces X (snd f)) fs)). hold (hash_of (blake3 X) b) = Some b"
proof
  let ?m0 = "from_files X fs name" and ?bs = "concat (map (\<lambda>f. pieces X (snd f)) fs)"
  have "digest32 (blake3 X)" using X(1) .
  moreover have "merkle_root (blake3 X) (chunk_hashes m) = merkle_root (blake3 X) (chunk_hashes ?m0)"
    using root from_files_fields(4) [of X fs name] by (simp add: root_is_consistent_def)
  moreover have "inj_on (blake3 X) (merkle_inputs (blake3 X) (chunk_hashes m) \<union> merkle_inputs (blake3 X) (chunk_hashes ?m0))"
    using inj by (rule inj_on_subset) blast
  ultimately have "chunk_hashes m = chunk_hashes ?m0" by (intro merkle_root_eq_imp)
  then have hashes: "set (chunk_hashes m) = hash_of (blake3 X) ` set ?bs" by (simp only: from_files_hashes [OF X(2)] set_map)
  fix b assume b: "b \<in> set ?bs"
  then have "hash_of (blake3 X) b \<in> set (chunk_hashes m)" using hashes by blast
  then obtain c where c: "hold (hash_of (blake3 X) b) = Some c" "hash_of (blake3 X) c = hash_of (blake3 X) b"
      "c \<in> {b. \<exists>h \<in> set (chunk_hashes m). hold h = Some b}" using held by blast
  then have "blake3 X c = blake3 X b" by (simp add: hash_of_def)
  then have "c = b" using inj_onD [OF inj] c(3) b by blast
  then show "hold (hash_of (blake3 X) b) = Some b" using c(1) by simp
qed


lemma tiny_run_held: "holds sample_crates (fst (fst (snd tiny_run))) (fst (snd (fst (snd tiny_run)))) (hash_of (blake3 sample_crates) [1, 2]) = Some [1, 2]"
  by code_simp


end
