(* ===== verification/Sim.thy ===== *)
theory Sim
  imports End_To_End "HOL-Library.Monad_Syntax"
begin

text \<open>
  The research harness (\<open>crates/np2ptp-sim/src/lib.rs\<close>): its helpers and the six scenarios, over the same nodes and
  stores the rest of the library is about. The nodes of a scenario live in one world \<open>'w\<close>, the swarm tasks and the
  loopback network between them; a handle is the runtime that reaches its node and the node's peer id. Spawning,
  dropping and sleeping change the world and are parameters, as are the clock and the floating-point percentage; a
  node without a seed writes no files, so the file system is the harness's own. An \<open>unwrap\<close> or \<open>assert!\<close> that panics
  is \<open>None\<close>.
\<close>

section \<open>Environment\<close>

type_synonym 'w handle = "'w runtime \<times> peer"

record ('w, 'd, 'g) sim_env =
  sm_crates :: crates
  sm_manifest :: "manifest codec"
  sm_raptorq :: "'d raptorq"
  sm_sched :: "nat \<Rightarrow> nat list"
  sm_temp :: path
  sm_pid :: nat
  sm_parse :: "string \<Rightarrow> string + multiaddr"
  sm_spawn :: "store \<Rightarrow> fs \<Rightarrow> 'w \<Rightarrow> (net_error + 'w handle) \<times> 'w"
  sm_drop :: "peer \<Rightarrow> 'w \<Rightarrow> 'w"
  sm_sleep :: "nat \<Rightarrow> 'w \<Rightarrow> 'w"
  sm_nanos :: "'w \<Rightarrow> nat"
  sm_pct :: "nat \<Rightarrow> nat \<Rightarrow> 'g"

record 'w sim =
  si_fs :: fs
  si_world :: 'w
  si_counter :: u64

definition unwrap :: "'e + 'a \<Rightarrow> 'a option" where
  "unwrap r = (case r of Inl _ \<Rightarrow> None | Inr a \<Rightarrow> Some a)"

definition sim_call :: "('w \<Rightarrow> (net_error + 'a) \<times> 'w) \<Rightarrow> 'w sim \<Rightarrow> ('a \<times> 'w sim) option" where
  "sim_call op s = (case op (si_world s) of (r, w) \<Rightarrow> do { a \<leftarrow> unwrap r; Some (a, s\<lparr>si_world := w\<rparr>) })"

definition sim_sleep :: "('w, 'd, 'g) sim_env \<Rightarrow> nat \<Rightarrow> 'w sim \<Rightarrow> 'w sim" where
  "sim_sleep E ms s = s\<lparr>si_world := sm_sleep E ms (si_world s)\<rparr>"

section \<open>Helpers\<close>

definition tmp_dir_new :: "('w, 'd, 'g) sim_env \<Rightarrow> 'w sim \<Rightarrow> (path \<times> 'w sim) option" where
  "tmp_dir_new E s =
     (let n = si_counter s;
          p = sm_temp E @ [''np2ptp-sim-'' @ show_nat (sm_pid E) @ ''-'' @ show_nat (unat n)]
      in do { f \<leftarrow> unwrap (fs_create_dir_all (si_fs s) p); Some (p, s\<lparr>si_fs := f, si_counter := n + 1\<rparr>) })"

text \<open>\<open>remove_dir_all\<close>, all or nothing like the other writes; its error is ignored.\<close>

definition fs_remove_dir_all :: "fs \<Rightarrow> path \<Rightarrow> io_error + fs" where
  "fs_remove_dir_all f p =
     (if fs_denied f p then Inl PermissionDenied
      else if p \<notin> set (fs_dirs f) then Inl NotFound
      else Inr (f\<lparr>fs_files := filter (\<lambda>(q, _). take (length p) q \<noteq> p) (fs_files f),
                  fs_dirs := filter (\<lambda>q. take (length p) q \<noteq> p) (fs_dirs f)\<rparr>))"

definition tmp_dir_drop :: "path \<Rightarrow> 'w sim \<Rightarrow> 'w sim" where
  "tmp_dir_drop p s = (case fs_remove_dir_all (si_fs s) p of Inl _ \<Rightarrow> s | Inr f \<Rightarrow> s\<lparr>si_fs := f\<rparr>)"

text \<open>What goes out of scope: handles and temporary directories, the last declared first.\<close>

datatype scoped = LocalNet peer | LocalDir path

fun leave :: "('w, 'd, 'g) sim_env \<Rightarrow> scoped list \<Rightarrow> 'w sim \<Rightarrow> 'w sim" where
  "leave E [] s = s"
| "leave E (LocalNet p # ls) s = leave E ls (s\<lparr>si_world := sm_drop E p (si_world s)\<rparr>)"
| "leave E (LocalDir d # ls) s = leave E ls (tmp_dir_drop d s)"

definition xorshift :: "u64 \<Rightarrow> u64" where
  "xorshift x =
     (let x1 = x XOR drop_bit 12 x; x2 = x1 XOR push_bit 25 x1 in x2 XOR drop_bit 27 x2)"

fun sample_from :: "nat \<Rightarrow> u64 \<Rightarrow> bytes" where
  "sample_from 0 x = []"
| "sample_from (Suc n) x =
     (let x' = xorshift x in ucast (drop_bit 33 (x' * 0x2545F4914F6CDD1D)) # sample_from n x')"

definition sample_bytes :: "nat \<Rightarrow> u64 \<Rightarrow> bytes" where
  "sample_bytes n seed = sample_from n (0x9E3779B97F4A7C15 XOR (seed * 0xD1B54A32D192ED03))"

definition QUIC_LISTEN :: string where "QUIC_LISTEN = ''/ip4/127.0.0.1/udp/0/quic-v1''"

fun listen_addr_loop :: "('w, 'd, 'g) sim_env \<Rightarrow> 'w runtime \<Rightarrow> nat \<Rightarrow> 'w sim \<Rightarrow> (multiaddr \<times> 'w sim) option" where
  "listen_addr_loop E R 0 s = None"
| "listen_addr_loop E R (Suc k) s =
     do { (addrs, s1) \<leftarrow> sim_call (net_listeners R) s;
          (case addrs of a # _ \<Rightarrow> Some (a, s1) | [] \<Rightarrow> listen_addr_loop E R k (sim_sleep E 50 s1)) }"

definition first_listen_addr :: "('w, 'd, 'g) sim_env \<Rightarrow> 'w runtime \<Rightarrow> 'w sim \<Rightarrow> (multiaddr \<times> 'w sim) option" where
  "first_listen_addr E R s = listen_addr_loop E R 100 s"

fun download_until :: "('w, 'd, 'g) sim_env \<Rightarrow> 'w runtime \<Rightarrow> hash \<Rightarrow> peer \<Rightarrow> nat \<Rightarrow> store \<Rightarrow> 'w sim \<Rightarrow> bool \<times> store \<times> 'w sim" where
  "download_until E R root p 0 st s = (False, st, s)"
| "download_until E R root p (Suc tries) st s =
     (case net_download R (sm_crates E) (sm_manifest E) (sm_sched E) root p st (si_fs s) (si_world s) of
        (Inr _, (st', f), w) \<Rightarrow> (True, st', s\<lparr>si_fs := f, si_world := w\<rparr>)
      | (Inl _, (st', f), w) \<Rightarrow> download_until E R root p tries st' (sim_sleep E 50 (s\<lparr>si_fs := f, si_world := w\<rparr>)))"

fun provider_count_loop :: "('w, 'd, 'g) sim_env \<Rightarrow> 'w runtime \<Rightarrow> hash \<Rightarrow> nat \<Rightarrow> nat \<Rightarrow> 'w sim \<Rightarrow> nat \<times> 'w sim" where
  "provider_count_loop E R root 0 n s = (n, s)"
| "provider_count_loop E R root (Suc tries) n s =
     (case find_providers R root (si_world s) of
        (Inr ps, w) \<Rightarrow> if 1 \<le> length ps then (length ps, s\<lparr>si_world := w\<rparr>)
                      else provider_count_loop E R root tries (length ps) (sim_sleep E 50 (s\<lparr>si_world := w\<rparr>))
      | (Inl _, w) \<Rightarrow> provider_count_loop E R root tries n (sim_sleep E 50 (s\<lparr>si_world := w\<rparr>)))"

definition provider_count_until :: "('w, 'd, 'g) sim_env \<Rightarrow> 'w runtime \<Rightarrow> hash \<Rightarrow> nat \<Rightarrow> 'w sim \<Rightarrow> nat \<times> 'w sim" where
  "provider_count_until E R root tries s = provider_count_loop E R root tries 0 s"

section \<open>Nodes\<close>

text \<open>The lines every scenario repeats: a store in a fresh directory, and a node on it.\<close>

definition open_store :: "('w, 'd, 'g) sim_env \<Rightarrow> path \<Rightarrow> 'w sim \<Rightarrow> (store \<times> 'w sim) option" where
  "open_store E dir s =
     (case store_open (sm_crates E) (si_fs s) dir of (r, f) \<Rightarrow> do { st \<leftarrow> unwrap r; Some (st, s\<lparr>si_fs := f\<rparr>) })"

definition ingest_into :: "('w, 'd, 'g) sim_env \<Rightarrow> store \<Rightarrow> bytes \<Rightarrow> 'w sim \<Rightarrow> (manifest \<times> store \<times> 'w sim) option" where
  "ingest_into E st data s =
     (case ingest (sm_crates E) st (si_fs s) data None of (r, st', f) \<Rightarrow> do { m \<leftarrow> unwrap r; Some (m, st', s\<lparr>si_fs := f\<rparr>) })"

definition spawn_on :: "('w, 'd, 'g) sim_env \<Rightarrow> store \<Rightarrow> 'w sim \<Rightarrow> ('w handle \<times> 'w sim) option" where
  "spawn_on E st s = sim_call (sm_spawn E st (si_fs s)) s"

definition listen_quic :: "('w, 'd, 'g) sim_env \<Rightarrow> 'w runtime \<Rightarrow> 'w sim \<Rightarrow> (multiaddr \<times> 'w sim) option" where
  "listen_quic E R s =
     do { quic \<leftarrow> unwrap (sm_parse E QUIC_LISTEN);
          (_, s1) \<leftarrow> sim_call (net_listen R quic) s;
          first_listen_addr E R s1 }"

definition provide_on :: "('w, 'd, 'g) sim_env \<Rightarrow> 'w runtime \<Rightarrow> manifest \<Rightarrow> 'w sim \<Rightarrow> (unit \<times> 'w sim) option" where
  "provide_on E R m s = sim_call (net_provide R (sm_manifest E) m) s"

definition seed_node :: "('w, 'd, 'g) sim_env \<Rightarrow> bytes \<Rightarrow> 'w sim \<Rightarrow> ((path \<times> manifest \<times> 'w handle \<times> multiaddr) \<times> 'w sim) option" where
  "seed_node E data s =
     do { (dir, s1) \<leftarrow> tmp_dir_new E s;
          (st, s2) \<leftarrow> open_store E dir s1;
          (m, st', s3) \<leftarrow> ingest_into E st data s2;
          ((R, p), s4) \<leftarrow> spawn_on E st' s3;
          (addr, s5) \<leftarrow> listen_quic E R s4;
          (_, s6) \<leftarrow> provide_on E R m s5;
          Some ((dir, m, (R, p), addr), s6) }"

definition fresh_node :: "('w, 'd, 'g) sim_env \<Rightarrow> 'w sim \<Rightarrow> ((path \<times> 'w handle \<times> store) \<times> 'w sim) option" where
  "fresh_node E s =
     do { (dir, s1) \<leftarrow> tmp_dir_new E s;
          (own, s2) \<leftarrow> open_store E dir s1;
          (h, s3) \<leftarrow> spawn_on E own s2;
          (st, s4) \<leftarrow> open_store E dir s3;
          Some ((dir, h, st), s4) }"

section \<open>Scenarios\<close>

record 'g dedup_result =
  dd_total_chunks :: nat
  dd_unique_chunks_stored :: nat
  dd_dedup_pct :: 'g

definition dedup :: "('w, 'd, 'g) sim_env \<Rightarrow> 'w sim \<Rightarrow> ('g dedup_result \<times> 'w sim) option" where
  "dedup E s =
     do { (dir, s1) \<leftarrow> tmp_dir_new E s;
          (st, s2) \<leftarrow> open_store E dir s1;
          let base = sample_bytes 4000000 1;
          let v2 = take 2000 base @ sample_bytes 20000 99 @ drop 2000 base;
          (m1, st1, s3) \<leftarrow> ingest_into E st base s2;
          (m2, st2, s4) \<leftarrow> ingest_into E st1 v2 s3;
          let total_chunks = length (m_chunks m1) + length (m_chunks m2);
          uniq \<leftarrow> unwrap (fst (object_count (sm_crates E) st2 (si_fs s4)));
          Some (\<lparr>dd_total_chunks = total_chunks, dd_unique_chunks_stored = uniq, dd_dedup_pct = sm_pct E uniq total_chunks\<rparr>,
                leave E [LocalDir dir] s4) }"

record permanence_result =
  pm_reshared :: bool
  pm_completed_after_seed_left :: bool

definition permanence :: "('w, 'd, 'g) sim_env \<Rightarrow> bool \<Rightarrow> 'w sim \<Rightarrow> (permanence_result \<times> 'w sim) option" where
  "permanence E reshare s =
     do { ((seed_dir, m, (_, seed_peer), seed_addr), s1) \<leftarrow> seed_node E (sample_bytes 300000 2) s;
          ((p1_dir, (R1, p1_peer), p1_store), s2) \<leftarrow> fresh_node E s1;
          (_, s3) \<leftarrow> sim_call (net_dial R1 seed_addr) s2;
          (case download_until E R1 (m_root m) seed_peer 200 p1_store s3 of (done, _, s4) \<Rightarrow>
             if \<not> done then
               Some (\<lparr>pm_reshared = reshare, pm_completed_after_seed_left = False\<rparr>,
                     leave E [LocalNet p1_peer, LocalDir p1_dir, LocalNet seed_peer, LocalDir seed_dir] s4)
             else do {
               (p1_addr, s5) \<leftarrow>
                 (if reshare then do { (addr, s5) \<leftarrow> listen_quic E R1 s4; (_, s6) \<leftarrow> provide_on E R1 m s5; Some (Some addr, s6) }
                  else Some (None, s4));
               let s6 = sim_sleep E 800 (leave E [LocalNet seed_peer] s5);
               ((p2_dir, (R2, p2_peer), p2_store), s7) \<leftarrow> fresh_node E s6;
               let (provider_addr, provider_peer) =
                 (case (reshare, p1_addr) of (True, Some addr) \<Rightarrow> (addr, p1_peer) | _ \<Rightarrow> (seed_addr, seed_peer));
               (_, s8) \<leftarrow> sim_call (net_dial R2 provider_addr) s7;
               (case download_until E R2 (m_root m) provider_peer 60 p2_store s8 of (completed, _, s9) \<Rightarrow>
                 Some (\<lparr>pm_reshared = reshare, pm_completed_after_seed_left = completed\<rparr>,
                       leave E [LocalNet p2_peer, LocalDir p2_dir, LocalNet p1_peer, LocalDir p1_dir, LocalDir seed_dir] s9)) }) }"

record freeride_result =
  fr_choke_enabled :: bool
  fr_leech_completed :: bool

definition freeride :: "('w, 'd, 'g) sim_env \<Rightarrow> bool \<Rightarrow> 'w sim \<Rightarrow> (freeride_result \<times> 'w sim) option" where
  "freeride E choke s =
     do { ((seed_dir, m, (R, seed_peer), seed_addr), s1) \<leftarrow> seed_node E (sample_bytes 300000 3) s;
          (_, s2) \<leftarrow> (if choke then sim_call (set_choke_threshold R 0) s1 else Some ((), s1));
          ((leech_dir, (L, leech_peer), leech_store), s3) \<leftarrow> fresh_node E s2;
          (_, s4) \<leftarrow> sim_call (net_dial L seed_addr) s3;
          (case download_until E L (m_root m) seed_peer 60 leech_store s4 of (completed, _, s5) \<Rightarrow>
             Some (\<lparr>fr_choke_enabled = choke, fr_leech_completed = completed\<rparr>,
                   leave E [LocalNet leech_peer, LocalDir leech_dir, LocalNet seed_peer, LocalDir seed_dir] s5)) }"

record fec_cost_result =
  fc_size :: nat
  fc_chunk_ms :: nat
  fc_fec_ms :: nat

text \<open>\<open>t.elapsed().as_millis()\<close>\<close>

definition elapsed_ms :: "('w, 'd, 'g) sim_env \<Rightarrow> 'w sim \<Rightarrow> 'w sim \<Rightarrow> nat" where
  "elapsed_ms E t s = (sm_nanos E (si_world s) - sm_nanos E (si_world t)) div 1000000"

fun fec_until :: "('w, 'd, 'g) sim_env \<Rightarrow> 'w runtime \<Rightarrow> hash \<Rightarrow> peer \<Rightarrow> nat \<Rightarrow> store \<Rightarrow> 'w sim \<Rightarrow> store \<times> 'w sim" where
  "fec_until E R root p 0 st s = (st, s)"
| "fec_until E R root p (Suc tries) st s =
     (case download_fec R (sm_crates E) (sm_manifest E) (sm_raptorq E) root p st (si_fs s) (si_world s) of
        (Inr _, (st', f), w) \<Rightarrow> (st', s\<lparr>si_fs := f, si_world := w\<rparr>)
      | (Inl _, (st', f), w) \<Rightarrow> fec_until E R root p tries st' (sim_sleep E 50 (s\<lparr>si_fs := f, si_world := w\<rparr>)))"

definition fec_cost :: "('w, 'd, 'g) sim_env \<Rightarrow> 'w sim \<Rightarrow> (fec_cost_result \<times> 'w sim) option" where
  "fec_cost E s =
     do { let data = sample_bytes 1000000 4;
          ((seed_dir, m, (_, seed_peer), seed_addr), s1) \<leftarrow> seed_node E data s;
          ((a_dir, (A, a_peer), a_store), s2) \<leftarrow> fresh_node E s1;
          (_, s3) \<leftarrow> sim_call (net_dial A seed_addr) s2;
          let (_, _, s4) = download_until E A (m_root m) seed_peer 600 a_store s3;
          let chunk_ms = elapsed_ms E s3 s4;
          ((b_dir, (B, b_peer), b_store), s5) \<leftarrow> fresh_node E s4;
          (_, s6) \<leftarrow> sim_call (net_dial B seed_addr) s5;
          let (_, s7) = fec_until E B (m_root m) seed_peer 600 b_store s6;
          let fec_ms = elapsed_ms E s6 s7;
          Some (\<lparr>fc_size = length data, fc_chunk_ms = chunk_ms, fc_fec_ms = fec_ms\<rparr>,
                leave E [LocalNet b_peer, LocalDir b_dir, LocalNet a_peer, LocalDir a_dir, LocalNet seed_peer, LocalDir seed_dir] s7) }"

record receipt_trust_result =
  tr_cold_peer_completed :: bool
  tr_vouched_peer_completed :: bool

definition receipt_bootstraps_trust :: "('w, 'd, 'g) sim_env \<Rightarrow> 'w sim \<Rightarrow> (receipt_trust_result \<times> 'w sim) option" where
  "receipt_bootstraps_trust E s =
     do { ((b_dir, voucher, (B, b_peer), b_addr), s1) \<leftarrow> seed_node E (sample_bytes 350000 20) s;
          ((earlier_dir, (R, earlier_peer), earlier_store), s2) \<leftarrow> fresh_node E s1;
          (_, s3) \<leftarrow> sim_call (net_dial R b_addr) s2;
          let (earned, _, s4) = download_until E R (m_root voucher) b_peer 100 earlier_store s3;
          (if \<not> earned then None else do {
            ((seed_dir, m, (S, seed_peer), seed_addr), s5) \<leftarrow> seed_node E (sample_bytes 300000 21) (sim_sleep E 300 s4);
            (_, s6) \<leftarrow> sim_call (set_choke_threshold S 0) s5;
            (b_download_dir, s7) \<leftarrow> tmp_dir_new E s6;
            (b_download_store, s8) \<leftarrow> open_store E b_download_dir s7;
            (_, s9) \<leftarrow> sim_call (net_dial B seed_addr) s8;
            let (vouched, _, s10) = download_until E B (m_root m) seed_peer 60 b_download_store s9;
            ((a_dir, (A, a_peer), a_store), s11) \<leftarrow> fresh_node E s10;
            (_, s12) \<leftarrow> sim_call (net_dial A seed_addr) s11;
            let (cold, _, s13) = download_until E A (m_root m) seed_peer 60 a_store s12;
            Some (\<lparr>tr_cold_peer_completed = cold, tr_vouched_peer_completed = vouched\<rparr>,
                  leave E [LocalNet a_peer, LocalDir a_dir, LocalDir b_download_dir, LocalNet seed_peer, LocalDir seed_dir,
                           LocalNet earlier_peer, LocalDir earlier_dir, LocalNet b_peer, LocalDir b_dir] s13) }) }"

record multi_serve_result =
  ms_first_reconstructed :: bool
  ms_second_reconstructed :: bool
  ms_first_providers :: nat
  ms_second_providers :: nat

text \<open>\<open>got && store.export(&manifest).unwrap() == data\<close>\<close>

definition reconstructed :: "('w, 'd, 'g) sim_env \<Rightarrow> bool \<Rightarrow> manifest \<Rightarrow> bytes \<Rightarrow> store \<Rightarrow> 'w sim \<Rightarrow> (bool \<times> store) option" where
  "reconstructed E got m data st s =
     (if got then (case export (sm_crates E) st (si_fs s) m of (r, st') \<Rightarrow> do { out \<leftarrow> unwrap r; Some (out = data, st') })
      else Some (False, st))"

definition fetch_both :: "('w, 'd, 'g) sim_env \<Rightarrow> 'w runtime \<Rightarrow> manifest \<Rightarrow> bytes \<Rightarrow> manifest \<Rightarrow> bytes \<Rightarrow> peer \<Rightarrow> store \<Rightarrow> 'w sim
    \<Rightarrow> ((bool \<times> bool) \<times> 'w sim) option" where
  "fetch_both E R manifest_a data_a manifest_b data_b seed_peer peer_store s =
     do { let (got_a, st1, s1) = download_until E R (m_root manifest_a) seed_peer 200 peer_store s;
          let (got_b, st2, s2) = download_until E R (m_root manifest_b) seed_peer 200 st1 s1;
          (first, st3) \<leftarrow> reconstructed E got_a manifest_a data_a st2 s2;
          (second, _) \<leftarrow> reconstructed E got_b manifest_b data_b st3 s2;
          Some ((first, second), s2) }"

definition multi_serve :: "('w, 'd, 'g) sim_env \<Rightarrow> 'w sim \<Rightarrow> (multi_serve_result \<times> 'w sim) option" where
  "multi_serve E s =
     do { let data_a = sample_bytes 300000 30;
          let data_b = sample_bytes 500000 31;
          (seed_dir, s1) \<leftarrow> tmp_dir_new E s;
          (seed_store, s2) \<leftarrow> open_store E seed_dir s1;
          (manifest_a, st1, s3) \<leftarrow> ingest_into E seed_store data_a s2;
          (manifest_b, st2, s4) \<leftarrow> ingest_into E st1 data_b s3;
          ((S, seed_peer), s5) \<leftarrow> spawn_on E st2 s4;
          (seed_addr, s6) \<leftarrow> listen_quic E S s5;
          (_, s7) \<leftarrow> provide_on E S manifest_a s6;
          (_, s8) \<leftarrow> provide_on E S manifest_b s7;
          ((peer_dir, (R, peer), peer_store), s9) \<leftarrow> fresh_node E s8;
          (_, s10) \<leftarrow> sim_call (net_dial R seed_addr) s9;
          ((first, second), s11) \<leftarrow> fetch_both E R manifest_a data_a manifest_b data_b seed_peer peer_store s10;
          let (first_providers, s12) = provider_count_until E R (m_root manifest_a) 100 s11;
          let (second_providers, s13) = provider_count_until E R (m_root manifest_b) 100 s12;
          Some (\<lparr>ms_first_reconstructed = first, ms_second_reconstructed = second,
                 ms_first_providers = first_providers, ms_second_providers = second_providers\<rparr>,
                leave E [LocalNet peer, LocalDir peer_dir, LocalNet seed_peer, LocalDir seed_dir] s13) }"

end
