(* ===== verification/Sim_Props.thy ===== *)
theory Sim_Props
  imports Sim
begin

text \<open>What the harness's helpers guarantee, whatever the world of nodes behind its handles does.\<close>

section \<open>Retried downloads\<close>

lemma download_until_grows: "download_until E R root p k st s = (got, st', s') \<Longrightarrow> grows (si_fs s) (si_fs s')"
proof (induction k arbitrary: st s)
  case (Suc k)
  obtain r st1 f1 w where d: "net_download R (sm_crates E) (sm_manifest E) (sm_sched E) root p st (si_fs s) (si_world s) = (r, (st1, f1), w)"
    by (metis surj_pair)
  have "grows (si_fs s) f1"
    using d download_multi_grows by (fastforce simp: net_download_def net_download_with_progress_def split: prod.splits)
  then show ?case using Suc d by (cases r) (auto simp: sim_sleep_def intro: grows_trans dest!: Suc.IH)
qed simp

text \<open>The store survives every try, and a success means verified content of the root.\<close>

lemma download_until_law:
  assumes X: "hex_ok (sm_crates E)" "digest_ok (sm_crates E)" and net: "small_answers R" "complete_schedule (sm_sched E)"
  shows "store_inv (sm_crates E) dir st (si_fs s) \<Longrightarrow> download_until E R root p k st s = (got, st', s') \<Longrightarrow> fs_fits (si_fs s') \<Longrightarrow>
    store_inv (sm_crates E) dir st' (si_fs s') \<and> holds (sm_crates E) st (si_fs s) \<subseteq>\<^sub>m holds (sm_crates E) st' (si_fs s')
    \<and> (got \<longrightarrow> (\<exists>m n n'. get_manifest R (sm_crates E) (sm_manifest E) p root n = (Inr m, n') \<and> m_root m = root \<and> root_is_consistent (sm_crates E) m
         \<and> (\<forall>h \<in> set (chunk_hashes m). \<exists>b. holds (sm_crates E) st' (si_fs s') h = Some b \<and> hash_of (blake3 (sm_crates E)) b = h)))"
proof (induction k arbitrary: st s)
  case (Suc k)
  let ?X = "sm_crates E"
  obtain r st1 f1 prog w where d: "download_multi_with_progress R ?X (sm_manifest E) (sm_sched E) root [p] st (si_fs s) (si_world s) = (r, (st1, f1, prog), w)"
    by (metis surj_pair)
  then have nd: "net_download R ?X (sm_manifest E) (sm_sched E) root p st (si_fs s) (si_world s) = (r, (st1, f1), w)"
    by (simp add: net_download_def net_download_with_progress_def)
  let ?s1 = "s\<lparr>si_fs := f1, si_world := w\<rparr>"
  have fits: "fs_fits f1"
  proof (cases r)
    case (Inl e)
    then have "grows f1 (si_fs s')" using Suc.prems(2) nd download_until_grows [of E R root p k st1 "sim_sleep E 50 ?s1"] by (simp add: sim_sleep_def)
    then show ?thesis using Suc.prems(3) grows_fits by blast
  qed (use Suc.prems nd in auto)
  note law = download_multi_law [OF Suc.prems(1) X net d fits]
  show ?case
  proof (cases r)
    case (Inl e)
    then have "download_until E R root p k st1 (sim_sleep E 50 ?s1) = (got, st', s')" using Suc.prems(2) nd by simp
    note IH = Suc.IH [OF _ this Suc.prems(3), simplified sim_sleep_def, simplified]
    show ?thesis using IH law map_le_trans by blast
  next
    case (Inr m)
    then have "got" "st' = st1" "s' = ?s1" using Suc.prems(2) nd by simp_all
    moreover obtain n1 where "get_manifest R ?X (sm_manifest E) p root (si_world s) = (Inr m, n1)"
      using download_multi_manifest [OF d [unfolded Inr]] by (auto split: prod.splits sum.splits)
    ultimately show ?thesis using law Inr by auto
  qed
qed simp

section \<open>Byte for byte\<close>

text \<open>No collision among what a packed file, the manifests a peer may send for its root, and the blocks held are made of.\<close>

definition collision_free :: "('w, 'd, 'g) sim_env \<Rightarrow> 'w runtime \<Rightarrow> peer \<Rightarrow> bytes \<Rightarrow> (hash \<Rightarrow> bytes option) \<Rightarrow> bool" where
  "collision_free E R p data held \<longleftrightarrow>
     (let X = sm_crates E; m0 = from_bytes X data None in
      \<forall>m n n'. get_manifest R X (sm_manifest E) p (m_root m0) n = (Inr m, n') \<longrightarrow>
        inj_on (blake3 X) (merkle_inputs (blake3 X) (chunk_hashes m) \<union> merkle_inputs (blake3 X) (chunk_hashes m0)
          \<union> set (pieces X data) \<union> {b. \<exists>h \<in> set (chunk_hashes m). held h = Some b}))"

lemma reconstructed_exact:
  assumes X: "hex_ok (sm_crates E)" "digest_ok (sm_crates E)" "default_cdc (sm_crates E)" and inv: "store_inv (sm_crates E) dir st (si_fs s)"
    and len: "length data < 2 ^ 64" and cf: "collision_free E R p data (holds (sm_crates E) st (si_fs s))"
    and got: "got \<longrightarrow> (\<exists>m n n'. get_manifest R (sm_crates E) (sm_manifest E) p (m_root (from_bytes (sm_crates E) data None)) n = (Inr m, n')
        \<and> m_root m = m_root (from_bytes (sm_crates E) data None) \<and> root_is_consistent (sm_crates E) m
        \<and> (\<forall>h \<in> set (chunk_hashes m). \<exists>b. holds (sm_crates E) st (si_fs s) h = Some b \<and> hash_of (blake3 (sm_crates E)) b = h))"
  shows "reconstructed E got (from_bytes (sm_crates E) data None) data st s = Some (got, st)"
proof (cases got)
  case True
  let ?X = "sm_crates E"
  obtain m n n' where m: "get_manifest R ?X (sm_manifest E) p (m_root (from_bytes ?X data None)) n = (Inr m, n')"
    "m_root m = m_root (from_bytes ?X data None)" "root_is_consistent ?X m"
    "\<forall>h \<in> set (chunk_hashes m). \<exists>b. holds ?X st (si_fs s) h = Some b \<and> hash_of (blake3 ?X) b = h" using got True by blast
  have "inj_on (blake3 ?X) (merkle_inputs (blake3 ?X) (chunk_hashes m) \<union> merkle_inputs (blake3 ?X) (chunk_hashes (from_bytes ?X data None))
          \<union> set (pieces ?X data) \<union> {b. \<exists>h \<in> set (chunk_hashes m). holds ?X st (si_fs s) h = Some b})"
    using cf m(1) unfolding collision_free_def Let_def by blast
  then have "\<forall>b \<in> set (pieces ?X data). holds ?X st (si_fs s) (hash_of (blake3 ?X) b) = Some b"
    using root_pieces_held [OF X(2,3), of m "[(default_path None, data)]" None "holds ?X st (si_fs s)"] m by (simp add: from_bytes_def)
  from export_held [OF inv X(3) len this] True show ?thesis by (simp add: reconstructed_def unwrap_def)
qed (simp add: reconstructed_def)

text \<open>
  C21. The multi-manifest scenario measures what it claims. Whatever the swarm does, the harness's two retried
  downloads and its comparison never panic, and each content counts as reconstructed exactly when its download
  reported success: a download that succeeds exports the packed file byte for byte, also after the other one has
  used the same store, and also when earlier tries failed half way. (Absent digest collisions.)
\<close>

theorem fetched_contents_exact:
  assumes "hex_ok (sm_crates E)" "digest_ok (sm_crates E)" "default_cdc (sm_crates E)" and "small_answers R" "complete_schedule (sm_sched E)"
    and "store_inv (sm_crates E) dir st (si_fs s)" and "length data_a < 2 ^ 64" "length data_b < 2 ^ 64"
    and "manifest_a = from_bytes (sm_crates E) data_a None" "manifest_b = from_bytes (sm_crates E) data_b None"
    and "download_until E R (m_root manifest_a) p 200 st s = (got_a, st1, s1)"
    and "download_until E R (m_root manifest_b) p 200 st1 s1 = (got_b, st2, s2)" and "fs_fits (si_fs s2)"
    and "collision_free E R p data_a (holds (sm_crates E) st2 (si_fs s2))" "collision_free E R p data_b (holds (sm_crates E) st2 (si_fs s2))"
  shows "fetch_both E R manifest_a data_a manifest_b data_b p st s = Some ((got_a, got_b), s2)"
proof -
  have f1: "fs_fits (si_fs s1)" using grows_fits [OF download_until_grows [OF assms(12)] assms(13)] .
  note l1 = download_until_law [OF assms(1,2,4,5,6,11) f1]
  note l2 = download_until_law [OF assms(1,2,4,5) l1 [THEN conjunct1] assms(12,13)]
  have le: "holds (sm_crates E) st1 (si_fs s1) h = Some b \<Longrightarrow> holds (sm_crates E) st2 (si_fs s2) h = Some b" for h b
    using l2 by (auto simp: map_le_def dom_def)
  have a: "reconstructed E got_a manifest_a data_a st2 s2 = Some (got_a, st2)"
    unfolding assms(9) using l1 l2 le assms(9) by (intro reconstructed_exact [OF assms(1-3) _ assms(7,14)]) blast+
  have b: "reconstructed E got_b manifest_b data_b st2 s2 = Some (got_b, st2)"
    unfolding assms(10) using l2 assms(10) by (intro reconstructed_exact [OF assms(1-3) _ assms(8,15)]) blast+
  show ?thesis by (simp add: fetch_both_def assms(11,12) a b)
qed

section \<open>Samples\<close>

text \<open>A peer that answers with two manifests and their chunks, behind a world that nothing else moves.\<close>

definition sample_packed :: "bytes \<Rightarrow> manifest" where
  "sample_packed data = from_bytes sample_crates data None"

definition two_codec :: "manifest codec" where
  "two_codec = \<lparr>serialize = (\<lambda>_. Inr [9]),
     deserialize = (\<lambda>b. if b = [9] then Inr (sample_packed [1, 2]) else if b = [10] then Inr (sample_packed [1, 2, 3, 4]) else Inl ''eof'')\<rparr>"

definition two_answer :: "peer \<Rightarrow> request \<Rightarrow> net_error + response" where
  "two_answer p req =
     (case req of
        ReqManifest root \<Rightarrow> Inr (RespManifest (Some (NPTP_MAGIC @ [NPTP_VERSION, if Hash root = m_root (sample_packed [1, 2]) then 9 else 10])))
      | ReqChunk h \<Rightarrow> Inr (RespChunk (Some (take 2 h)))
      | _ \<Rightarrow> Inr RespReceiptAck)"

definition sample_sim :: "manifest codec \<Rightarrow> ('w, unit, unit) sim_env" where
  "sample_sim Z = \<lparr>sm_crates = sample_crates, sm_manifest = Z, sm_raptorq = sample_rq, sm_sched = (\<lambda>k. [0..<k]), sm_temp = [''tmp''], sm_pid = 1,
     sm_parse = (\<lambda>_. Inr []), sm_spawn = (\<lambda>_ _ w. (Inl Shutdown, w)), sm_drop = (\<lambda>_ w. w), sm_sleep = (\<lambda>_ w. w), sm_nanos = (\<lambda>_. 0), sm_pct = (\<lambda>_ _. ())\<rparr>"

lemma sample_sim_parts: "sm_crates (sample_sim Z) = sample_crates" "sm_manifest (sample_sim Z) = Z"
    "sm_sched (sample_sim Z) = (\<lambda>k. [0..<k])" "sm_sleep (sample_sim Z) = (\<lambda>_ w. w)"
  by (simp_all add: sample_sim_def)

definition first_fetch where
  "first_fetch = download_until (sample_sim two_codec) (table_runtime two_answer) (m_root (sample_packed [1, 2])) [1] 200 sample_store
     \<lparr>si_fs = sample_fs, si_world = None, si_counter = 0\<rparr>"

definition second_fetch where
  "second_fetch = (case first_fetch of (_, st, s) \<Rightarrow>
     download_until (sample_sim two_codec) (table_runtime two_answer) (m_root (sample_packed [1, 2, 3, 4])) [1] 200 st s)"

lemma two_fetches: "fst first_fetch" "fst second_fetch"
  by code_simp+

lemma two_fetches_fit: "fs_fits (si_fs (snd (snd second_fetch)))"
  by (rule fs_fits_small, code_simp)

lemma two_small: "small_answers (table_runtime two_answer)"
  by (auto simp: small_answers_def fetch_chunk_def table_request two_answer_def)

lemma two_manifests:
  assumes "get_manifest (table_runtime two_answer) sample_crates two_codec p (m_root (sample_packed data)) n = (Inr m, n')" and "data \<in> {[1, 2], [1, 2, 3, 4]}"
  shows "m = sample_packed data"
proof -
  have eqs: "Hash (as_bytes (m_root (sample_packed [1, 2]))) = m_root (sample_packed [1, 2])"
    "Hash (as_bytes (m_root (sample_packed [1, 2, 3, 4]))) \<noteq> m_root (sample_packed [1, 2])" by code_simp+
  show ?thesis using assms eqs
    by (auto simp: get_manifest_def table_request two_answer_def check_manifest_def from_nptp_def from_serialized_def two_codec_def NPTP_MAGIC_def
        split: sum.splits if_splits)
qed

lemma two_collision_free:
  assumes "data \<in> {[1, 2], [1, 2, 3, 4]}"
    and "inj_on (blake3 sample_crates) (merkle_inputs (blake3 sample_crates) (chunk_hashes (sample_packed data)) \<union> set (pieces sample_crates data)
      \<union> {b. \<exists>h \<in> set (chunk_hashes (sample_packed data)). held h = Some b})"
  shows "collision_free (sample_sim two_codec) (table_runtime two_answer) [1] data held"
  unfolding collision_free_def Let_def sample_sim_parts sample_packed_def [symmetric]
proof (intro allI impI)
  fix m n n'
  assume "get_manifest (table_runtime two_answer) sample_crates two_codec [1] (m_root (sample_packed data)) n = (Inr m, n')"
  then have "m = sample_packed data" using assms(1) by (rule two_manifests)
  then show "inj_on (blake3 sample_crates) (merkle_inputs (blake3 sample_crates) (chunk_hashes m) \<union> merkle_inputs (blake3 sample_crates) (chunk_hashes (sample_packed data))
      \<union> set (pieces sample_crates data) \<union> {b. \<exists>h \<in> set (chunk_hashes m). held h = Some b})" using assms(2) by (simp only: Un_absorb)
qed

lemma two_held: "map (holds sample_crates (fst (snd second_fetch)) (si_fs (snd (snd second_fetch)))) (chunk_hashes (sample_packed [1, 2, 3, 4])) = [Some [1, 2], Some [3, 4]]"
  by code_simp

theorem fetched_contents_exact_witness:
  "\<exists>s. fetch_both (sample_sim two_codec) (table_runtime two_answer) (sample_packed [1, 2]) [1, 2] (sample_packed [1, 2, 3, 4]) [1, 2, 3, 4] [1] sample_store
      \<lparr>si_fs = sample_fs, si_world = None, si_counter = 0\<rparr> = Some ((True, True), s)"
proof -
  let ?E = "sample_sim two_codec :: ((peer \<times> request) option, unit, unit) sim_env"
  obtain st1 s1 where a: "first_fetch = (True, st1, s1)" using two_fetches(1) by (metis prod.collapse)
  obtain st2 s2 where b: "second_fetch = (True, st2, s2)" using two_fetches(2) by (metis prod.collapse)
  let ?held = "holds sample_crates st2 (si_fs s2)"
  have hashes: "chunk_hashes (sample_packed [1, 2]) = take 1 (chunk_hashes (sample_packed [1, 2, 3, 4]))" by code_simp
  obtain h1 h2 where h: "chunk_hashes (sample_packed [1, 2, 3, 4]) = [h1, h2]" "?held h1 = Some [1, 2]" "?held h2 = Some [3, 4]"
    using two_held unfolding b by (auto simp: map_eq_Cons_conv)
  have "{b. \<exists>h \<in> set (chunk_hashes (sample_packed [1, 2])). ?held h = Some b} = {[1, 2]}" using h hashes by auto
  moreover have "{b. \<exists>h \<in> set (chunk_hashes (sample_packed [1, 2, 3, 4])). ?held h = Some b} = {[1, 2], [3, 4]}" using h by auto
  moreover have "inj_on (blake3 sample_crates) (merkle_inputs (blake3 sample_crates) (chunk_hashes (sample_packed [1, 2])) \<union> set (pieces sample_crates [1, 2]) \<union> {[1, 2]})"
    "inj_on (blake3 sample_crates) (merkle_inputs (blake3 sample_crates) (chunk_hashes (sample_packed [1, 2, 3, 4])) \<union> set (pieces sample_crates [1, 2, 3, 4]) \<union> {[1, 2], [3, 4]})"
    by code_simp+
  ultimately have cf: "collision_free ?E (table_runtime two_answer) [1] [1, 2] ?held" "collision_free ?E (table_runtime two_answer) [1] [1, 2, 3, 4] ?held"
    by (intro two_collision_free; simp)+
  have sched: "complete_schedule (sm_sched ?E)" by (simp add: sample_sim_parts complete_schedule_def)
  have fits: "fs_fits (si_fs s2)" using two_fetches_fit unfolding b by simp
  have runs: "download_until ?E (table_runtime two_answer) (m_root (sample_packed [1, 2])) [1] 200 sample_store \<lparr>si_fs = sample_fs, si_world = None, si_counter = 0\<rparr> = (True, st1, s1)"
    "download_until ?E (table_runtime two_answer) (m_root (sample_packed [1, 2, 3, 4])) [1] 200 st1 s1 = (True, st2, s2)"
    using a b by (simp_all only: first_fetch_def second_fetch_def prod.case)
  have X: "hex_ok (sm_crates ?E)" "digest_ok (sm_crates ?E)" "default_cdc (sm_crates ?E)"
    using hex_ok_sample digest_ok_sample default_cdc_sample by (simp_all only: sample_sim_parts)
  have inv: "store_inv (sm_crates ?E) [''s''] sample_store (si_fs \<lparr>si_fs = sample_fs, si_world = None, si_counter = 0\<rparr>)"
    using sample_store_inv(1) by (simp only: sample_sim_parts sim.select_convs)
  have packed: "sample_packed d = from_bytes (sm_crates ?E) d None" for d by (simp only: sample_sim_parts sample_packed_def)
  have cf': "collision_free ?E (table_runtime two_answer) [1] [1, 2] (holds (sm_crates ?E) st2 (si_fs s2))"
    "collision_free ?E (table_runtime two_answer) [1] [1, 2, 3, 4] (holds (sm_crates ?E) st2 (si_fs s2))"
    using cf by (simp_all only: sample_sim_parts)
  have len: "length ([1, 2] :: bytes) < 2 ^ 64" "length ([1, 2, 3, 4] :: bytes) < 2 ^ 64" by simp_all
  from fetched_contents_exact [OF X two_small sched inv len packed packed runs fits cf'] show ?thesis by (rule exI)
qed

end
