(* ===== verification/Free_Rider.thy ===== *)
theory Free_Rider
  imports Sim_Props Choke
begin

text \<open>
  The free-riding scenario (\<open>freeride\<close> in \<open>crates/np2ptp-sim/src/lib.rs\<close>) against the swarm task itself: a node whose
  choke threshold is zero (\<open>serve\<close> in \<open>crates/np2ptp-net/src/lib.rs\<close>) and a peer that only takes.
\<close>

section \<open>The link\<close>

text \<open>The request-response codec drops responses over ten mebibytes.\<close>

definition RESPONSE_LIMIT :: int where "RESPONSE_LIMIT = 10 * 1024 * 1024"

definition codec_limited :: "'n runtime \<Rightarrow> 'n runtime" where
  "codec_limited R = R\<lparr>rt_await := (\<lambda>c n. case rt_await R c n of
      (Some (ReplyResponse (Inr (RespChunk (Some b)))), n') \<Rightarrow>
        (Some (ReplyResponse (if RESPONSE_LIMIT < int (length b) then Inl RequestFailed else Inr (RespChunk (Some b)))), n')
    | (r, n') \<Rightarrow> (r, n'))\<rparr>"

lemma limited_parts [simp]: "rt_channel (codec_limited R) = rt_channel R" "rt_send (codec_limited R) = rt_send R"
  by (simp_all add: codec_limited_def)

lemma limited_await: "rt_await (codec_limited R) c n = (case rt_await R c n of
      (Some (ReplyResponse (Inr (RespChunk (Some b)))), n') \<Rightarrow>
        (Some (ReplyResponse (if RESPONSE_LIMIT < int (length b) then Inl RequestFailed else Inr (RespChunk (Some b)))), n')
    | (r, n') \<Rightarrow> (r, n'))"
  by (simp add: codec_limited_def)

lemma limited_small: "small_answers (codec_limited R)"
  unfolding small_answers_def
proof (intro allI impI)
  fix p h n b n'
  assume "fetch_chunk (codec_limited R) p h n = (Inr (Some b), n')"
  then obtain c n1 where "rt_await (codec_limited R) c n1 = (Some (ReplyResponse (Inr (RespChunk (Some b)))), n')"
    by (auto simp: fetch_chunk_def net_request_def net_call_def net_send_def split: prod.splits sum.splits option.splits reply.splits response.splits bool.splits)
  then have "int (length b) \<le> RESPONSE_LIMIT"
    by (auto simp: limited_await split: prod.splits option.splits reply.splits sum.splits response.splits if_splits)
  then show "length b < 2 ^ 32" by (simp add: RESPONSE_LIMIT_def)
qed

abbreviation served_link :: "'d net_env \<Rightarrow> peer \<Rightarrow> 'w link runtime" where
  "served_link N me \<equiv> codec_limited (link_runtime N me)"

lemma served_link_request:
  "net_request (served_link N me) p req n =
     (case serve N me req (lk_remote n) of (resp, s') \<Rightarrow>
       (case resp of RespChunk (Some b) \<Rightarrow> if RESPONSE_LIMIT < int (length b) then Inl RequestFailed else Inr resp | _ \<Rightarrow> Inr resp,
        n\<lparr>lk_next := Suc (lk_next n), lk_remote := s', lk_replies := hm_insert (lk_next n) (ReplyResponse (Inr resp)) (lk_replies n)\<rparr>))"
  by (simp add: net_request_def net_call_def net_send_def limited_await link_runtime_def split: prod.split response.split option.split)

section \<open>A strict node\<close>

definition strict :: "peer \<Rightarrow> 'w event_loop \<Rightarrow> bool" where
  "strict me s \<longleftrightarrow> el_choke_threshold s = 0 \<and> given me s = 0"

lemma reputation_account: "reputation (el_ledger s) p = clamp_i64 (int (given p s) - int (taken p s))"
  by (simp add: reputation_def Let_def given_def taken_def)

lemma strict_choked: "strict me s \<Longrightarrow> choked s me \<longleftrightarrow> 0 < taken me s"
  by (auto simp: strict_def choked_def saturating_neg_def reputation_account clamp_i64_def)

text \<open>A chunk request: refused once anything was taken; what is handed out is of the hash and booked.\<close>

lemma strict_chunk:
  assumes st: "strict me s" and sv: "serve N me (ReqChunk h) s = (resp, s')"
  shows "strict me s' \<and> taken me s \<le> taken me s' \<and> (\<exists>data. resp = RespChunk data
    \<and> (\<forall>b. data = Some b \<longrightarrow> taken me s = 0 \<and> hash_of (blake3 (ne_crates N)) b = Hash h \<and> (b \<noteq> [] \<and> length b < 2 ^ 64 \<longrightarrow> 0 < taken me s')))"
proof -
  have grows: "account_grows me s s'" using serve_grows [OF sv] .
  from chunk_served_verified [of N me h s, unfolded sv fst_conv snd_conv] show ?thesis
  proof
    assume "resp = RespChunk None \<and> el_ledger s' = el_ledger s"
    then show ?thesis using st grows by (simp add: strict_def account_defs)
  next
    assume "\<exists>b. resp = RespChunk (Some b) \<and> hash_of (blake3 (ne_crates N)) b = Hash h \<and> \<not> choked s me
        \<and> el_ledger s' = record_served me (of_nat (length b)) (el_ledger s) \<and> el_ledger_dirty s'"
    then obtain b where b: "resp = RespChunk (Some b)" "hash_of (blake3 (ne_crates N)) b = Hash h"
      "el_ledger s' = record_served me (of_nat (length b)) (el_ledger s)" and t0: "taken me s = 0"
      using strict_choked [OF st] by auto
    have "strict me s'" using st grows by (simp add: strict_def account_grows_def given_def b(3) ledger_ops)
    moreover have "0 < taken me s'" if "b \<noteq> []" "length b < 2 ^ 64"
    proof -
      have "unat (of_nat (length b) :: u64) = length b" using that(2) by (simp add: unsigned_of_nat take_bit_nat_eq_self)
      moreover have "ct_we_served (ledger_counters (el_ledger s) me) = 0" using t0 by (simp add: taken_def unat_eq_0)
      then have "taken me s' = unat (sat_add 0 (of_nat (length b) :: u64))" by (simp add: taken_def b(3) ledger_ops)
      ultimately show ?thesis using that by (simp add: unat_sat_add)
    qed
    ultimately show ?thesis using b(1,2) t0 by simp
  qed
qed

section \<open>A download that cannot finish\<close>

text \<open>
  Two blocks the client lacks: either the node has handed out nothing yet, or the client is in its debt and still
  lacks one of them.
\<close>

definition cut_off :: "crates \<Rightarrow> peer \<Rightarrow> hash \<Rightarrow> hash \<Rightarrow> store \<Rightarrow> fs \<Rightarrow> 'w link \<Rightarrow> bool" where
  "cut_off X me h1 h2 st f w \<longleftrightarrow> strict me (lk_remote w)
     \<and> (holds X st f h1 = None \<and> holds X st f h2 = None
        \<or> 0 < taken me (lk_remote w) \<and> (holds X st f h1 = None \<or> holds X st f h2 = None))"

lemma cut_off_later:
  "cut_off X me h1 h2 st f w \<Longrightarrow> strict me (lk_remote w') \<Longrightarrow> taken me (lk_remote w) \<le> taken me (lk_remote w') \<Longrightarrow> cut_off X me h1 h2 st f w'"
  by (auto simp: cut_off_def)

lemma strict_fetch:
  assumes st: "strict me (lk_remote w)" and ft: "fetch_task (served_link N me) X m [p] slot (i, h) w = (q, w')"
  shows "strict me (lk_remote w') \<and> taken me (lk_remote w) \<le> taken me (lk_remote w')
    \<and> (\<forall>b p'. q = Inr (b, p') \<longrightarrow> length b < 2 ^ 32 \<and> taken me (lk_remote w) = 0 \<and> (b \<noteq> [] \<longrightarrow> 0 < taken me (lk_remote w')))"
proof -
  obtain resp s' where sv: "serve N me (ReqChunk (as_bytes h)) (lk_remote w) = (resp, s')" by force
  note law = strict_chunk [OF st sv]
  have small: "length b < 2 ^ 32" if "q = Inr (b, p')" for b p'
    using that ft fetch_from_ok [of "served_link N me" X m i h "round_robin [p] slot" "MissingChunk h" w b p' w'] small_answersD [OF limited_small]
    by (auto simp: fetch_task_def)
  have "lk_remote w' = s' \<and> (\<forall>b p'. q = Inr (b, p') \<longrightarrow> resp = RespChunk (Some b))"
    using ft law by (auto simp: fetch_task_def round_robin_def fetch_chunk_def served_link_request sv split: option.splits if_splits)
  then show ?thesis using law small by fastforce
qed

lemma put_adds:
  assumes inv: "store_inv X dir st f" and X: "hex_ok X" "digest_ok X" and len: "length b < 2 ^ 32" and fits: "fs_fits f'"
    and put: "put X st f b = (r, st', f')"
  shows "store_inv X dir st' f' \<and> (k \<noteq> hash_of (blake3 X) b \<longrightarrow> holds X st' f' k = holds X st f k)"
proof -
  have f: "fs_fits f" using grows_fits [OF put_grows [OF put] fits] .
  show ?thesis
  proof (cases r)
    case (Inl e)
    then show ?thesis using put_fail [OF inv f] put by simp
  next
    case (Inr hn)
    obtain h new where hn: "hn = (h, new)" by (cases hn)
    note ok = put_ok [OF inv X len f fits put [unfolded Inr hn]]
    then show ?thesis by auto
  qed
qed

lemma drain_cut_off:
  assumes X: "hex_ok X" "digest_ok X" and hs: "h1 \<noteq> h2" "hash_of (blake3 X) [] \<notin> {h1, h2}"
  shows "drain (served_link N me) X m [p] tot tasks d w = (r, d', w') \<Longrightarrow> store_inv X dir (dl_store d) (dl_fs d) \<Longrightarrow> fs_fits (dl_fs d') \<Longrightarrow>
    cut_off X me h1 h2 (dl_store d) (dl_fs d) w \<Longrightarrow> cut_off X me h1 h2 (dl_store d') (dl_fs d') w'"
proof (induction tasks arbitrary: d w)
  case (Cons t tasks)
  obtain slot i h where t: "t = (slot, i, h)" by (cases t)
  obtain q w1 where ft: "fetch_task (served_link N me) X m [p] slot (i, h) w = (q, w1)" by force
  have st: "strict me (lk_remote w)" using Cons.prems(4) by (simp add: cut_off_def)
  note fl = strict_fetch [OF st ft]
  show ?case
  proof (cases q)
    case (Inl e)
    let ?d = "if dl_failure d = None then d\<lparr>dl_failure := Some e\<rparr> else d"
    have same: "dl_store ?d = dl_store d" "dl_fs ?d = dl_fs d" by auto
    have "drain (served_link N me) X m [p] tot tasks ?d w1 = (r, d', w')" using Cons.prems(1) ft t Inl by simp
    from Cons.IH [OF this, unfolded same] show ?thesis using Cons.prems cut_off_later fl by blast
  next
    case (Inr bp)
    obtain b p' where bp: "bp = (b, p')" by force
    have ok: "length b < 2 ^ 32" "taken me (lk_remote w) = 0" "b \<noteq> [] \<longrightarrow> 0 < taken me (lk_remote w1)" using fl Inr bp by simp_all
    then have none: "holds X (dl_store d) (dl_fs d) h1 = None" "holds X (dl_store d) (dl_fs d) h2 = None"
      using Cons.prems(4) by (simp_all add: cut_off_def)
    obtain r' st1 f1 where put: "put X (dl_store d) (dl_fs d) b = (r', st1, f1)" by (metis prod_cases3)
    have f1: "fs_fits f1" and next_: "cut_off X me h1 h2 st1 f1 w1 \<and> store_inv X dir st1 f1 \<Longrightarrow> cut_off X me h1 h2 (dl_store d') (dl_fs d') w'"
    proof -
      let ?d = "d\<lparr>dl_bytes := credit_bytes p' (length b) (dl_bytes d), dl_store := st1, dl_fs := f1, dl_done := dl_done d + 1,
        dl_progress := dl_progress d @ [(dl_done d + 1, tot)]\<rparr>"
      have cases: "dl_fs d' = f1 \<and> dl_store d' = st1 \<and> w' = w1 \<or> drain (served_link N me) X m [p] tot tasks ?d w1 = (r, d', w')"
        using Cons.prems(1) ft t Inr bp put by (cases r') (auto simp: Let_def)
      then show "fs_fits f1" using Cons.prems(3) drain_grows grows_fits by fastforce
      show "cut_off X me h1 h2 (dl_store d') (dl_fs d') w'" if "cut_off X me h1 h2 st1 f1 w1 \<and> store_inv X dir st1 f1"
        using cases Cons.IH [of ?d w1] Cons.prems(3) that by auto
    qed
    note p1 = put_adds [OF Cons.prems(2) X ok(1) f1 put, of h1] and p2 = put_adds [OF Cons.prems(2) X ok(1) f1 put, of h2]
    have "cut_off X me h1 h2 st1 f1 w1"
    proof (cases "hash_of (blake3 X) b \<in> {h1, h2}")
      case True
      then have "b \<noteq> []" using hs(2) by auto
      then show ?thesis using p1 p2 True none fl ok hs(1) by (auto simp: cut_off_def)
    qed (use p1 p2 none fl in \<open>auto simp: cut_off_def\<close>)
    then show ?thesis using next_ p1 by blast
  qed
qed simp

lemma link_submit: "lk_remote (submit_all (served_link N me) bs w) = lk_remote w"
proof (induction bs arbitrary: w)
  case (Cons e bs)
  obtain q b where e: "e = (q, b)" by force
  have "lk_remote (snd (submit_receipt (served_link N me) q b w)) = lk_remote w"
    by (simp add: submit_receipt_def net_send_def link_runtime_def split: prod.split bool.split)
  with Cons show ?case by (simp add: e)
qed simp

lemma link_manifest: "get_manifest (served_link N me) X Z p root w = (r, w') \<Longrightarrow> lk_remote w' = lk_remote w"
  by (auto simp: get_manifest_def served_link_request serve_def split: prod.splits sum.splits response.splits option.splits)

lemma download_cut_off:
  assumes X: "hex_ok X" "digest_ok X" and hs: "h1 \<noteq> h2" "hash_of (blake3 X) [] \<notin> {h1, h2}" and inv: "store_inv X dir st f"
    and cut: "cut_off X me h1 h2 st f w" and fits: "fs_fits f'"
    and d: "download_multi_with_progress (served_link N me) X Z sched root [p] st f w = (r, (st', f', prog), w')"
  shows "cut_off X me h1 h2 st' f' w'"
proof -
  obtain q w1 where gm: "get_manifest (served_link N me) X Z p root w = (q, w1)" by force
  have w1: "lk_remote w1 = lk_remote w" using link_manifest [OF gm] .
  show ?thesis
  proof (cases q)
    case (Inl e)
    then have "st' = st" "f' = f" "w' = w1" using d gm by (auto simp: download_multi_with_progress_def)
    then show ?thesis using cut w1 by (simp add: cut_off_def)
  next
    case (Inr m)
    obtain missing where mi: "missing_chunks X st f 0 (m_chunks m) = (missing, st)"
      using missing_chunks_synced [OF inv, of 0 "m_chunks m"] by blast
    let ?tot = "length (m_chunks m)"
    let ?d0 = "\<lparr>dl_store = st, dl_fs = f, dl_bytes = [], dl_done = ?tot - length missing, dl_failure = None, dl_progress = [(?tot - length missing, ?tot)]\<rparr>"
    obtain r' d' w2 where dr: "drain (served_link N me) X m [p] ?tot (map (\<lambda>slot. (slot, missing ! slot)) (sched (length missing))) ?d0 w1 = (r', d', w2)"
      by (rule prod_cases3)
    have res: "st' = dl_store d'" "f' = dl_fs d'" "lk_remote w' = lk_remote w2"
      using d gm Inr mi dr link_submit by (auto simp: download_multi_with_progress_def Let_def split: sum.splits)
    have "cut_off X me h1 h2 (dl_store d') (dl_fs d') w2"
      using cut w1 inv fits res(2) by (intro drain_cut_off [OF X hs dr]) (simp_all add: cut_off_def)
    then show ?thesis using res by (simp add: cut_off_def)
  qed
qed

text \<open>
  C20. The choke stops the free rider. A node with choke threshold zero serves a peer that has given nothing and is
  vouched for by nobody; the content has two different non-empty chunks the peer does not hold. However often the
  harness retries, and in whatever order the fetches finish, the download never completes: the first chunk handed
  out is the last.
\<close>

theorem free_rider_cut_off:
  assumes X: "hex_ok (sm_crates E)" "digest_ok (sm_crates E)" and sched: "complete_schedule (sm_sched E)"
    and inv: "store_inv (sm_crates E) dir st (si_fs s)" and strict: "strict me (lk_remote (si_world s))"
    and content: "\<And>b m. check_manifest (sm_crates E) (sm_manifest E) root b = Inr m \<Longrightarrow> {h1, h2} \<subseteq> set (chunk_hashes m)"
    and chunks: "h1 \<noteq> h2" "hash_of (blake3 (sm_crates E)) [] \<notin> {h1, h2}"
      "holds (sm_crates E) st (si_fs s) h1 = None" "holds (sm_crates E) st (si_fs s) h2 = None"
    and sleep: "\<And>ms w. strict me (lk_remote w) \<Longrightarrow> strict me (lk_remote (sm_sleep E ms w)) \<and> taken me (lk_remote w) \<le> taken me (lk_remote (sm_sleep E ms w))"
    and run: "download_until E (served_link N me) root p tries st s = (got, st', s')" and fits: "fs_fits (si_fs s')"
  shows "\<not> got"
proof -
  let ?X = "sm_crates E" and ?R = "served_link N me"
  have "\<not> got" if "store_inv ?X dir st (si_fs s)" "cut_off ?X me h1 h2 st (si_fs s) (si_world s)"
      "download_until E ?R root p k st s = (got, st', s')" for k st s
    using that
  proof (induction k arbitrary: st s)
    case (Suc k)
    obtain r st1 f1 prog w where d: "download_multi_with_progress ?R ?X (sm_manifest E) (sm_sched E) root [p] st (si_fs s) (si_world s) = (r, (st1, f1, prog), w)"
      by (metis surj_pair)
    then have nd: "net_download ?R ?X (sm_manifest E) (sm_sched E) root p st (si_fs s) (si_world s) = (r, (st1, f1), w)"
      by (simp add: net_download_def net_download_with_progress_def)
    let ?s1 = "sim_sleep E 50 (s\<lparr>si_fs := f1, si_world := w\<rparr>)"
    have "grows f1 (si_fs s')"
    proof (cases r)
      case (Inl e)
      then show ?thesis using Suc.prems(3) nd download_until_grows [of E ?R root p k st1 ?s1] by (simp add: sim_sleep_def)
    qed (use Suc.prems(3) nd in auto)
    then have f1: "fs_fits f1" using fits grows_fits by blast
    have cut: "cut_off ?X me h1 h2 st1 f1 w" by (rule download_cut_off [OF X chunks(1,2) Suc.prems(1,2) f1 d])
    note law = download_multi_law [OF Suc.prems(1) X limited_small sched d f1]
    show ?case
    proof (cases r)
      case (Inl e)
      have "strict me (lk_remote w)" using cut by (simp add: cut_off_def)
      then have "cut_off ?X me h1 h2 st1 (si_fs ?s1) (si_world ?s1)"
        using cut_off_later [OF cut, of "sm_sleep E 50 w"] sleep [of w 50] by (simp add: sim_sleep_def)
      then show ?thesis using Suc.IH [of st1 ?s1] Suc.prems(3) nd Inl law by (simp add: sim_sleep_def)
    next
      case (Inr m)
      obtain w1 where "get_manifest ?R ?X (sm_manifest E) p root (si_world s) = (Inr m, w1)"
        using download_multi_manifest [OF d [unfolded Inr]] by (auto split: prod.splits sum.splits)
      then obtain b where "check_manifest ?X (sm_manifest E) root b = Inr m"
        by (auto simp: get_manifest_def split: prod.splits sum.splits response.splits option.splits)
      from content [OF this] show ?thesis using law Inr cut by (auto simp: cut_off_def)
    qed
  qed simp
  from this [OF inv _ run] show ?thesis using strict chunks by (simp add: cut_off_def)
qed

section \<open>A sample\<close>

text \<open>A strict node that holds two blocks and provides their manifest, and a peer with an empty store.\<close>

definition stingy_codec :: "manifest codec" where
  "stingy_codec = \<lparr>serialize = (\<lambda>_. Inr [10]), deserialize = (\<lambda>b. if b = [10] then Inr (sample_packed [1, 2, 3, 4]) else Inl ''eof'')\<rparr>"

definition block_path :: "bytes \<Rightarrow> path" where
  "block_path b = path_for sample_crates sample_store (hash_of (blake3 sample_crates) b)"

definition stingy_link :: "(nat \<times> nat) link" where
  "stingy_link = \<lparr>lk_remote = sample_loop\<lparr>el_choke_threshold := 0,
       el_provided := [(m_root (sample_packed [1, 2, 3, 4]), NPTP_MAGIC @ [NPTP_VERSION, 10])],
       el_fs := sample_fs\<lparr>fs_files := hm_insert (block_path [1, 2]) [1, 2] (hm_insert (block_path [3, 4]) [3, 4] (fs_files sample_fs))\<rparr>\<rparr>,
     lk_replies = [], lk_next = 0\<rparr>"

definition free_ride where
  "free_ride = download_until (sample_sim stingy_codec) (served_link sample_env [7]) (m_root (sample_packed [1, 2, 3, 4])) [1] 3 sample_store
     \<lparr>si_fs = sample_fs, si_world = stingy_link, si_counter = 0\<rparr>"

lemma free_ride_fits: "fs_fits (si_fs (snd (snd free_ride)))"
  by (rule fs_fits_small, code_simp)

text \<open>Three tries bring one of the two blocks, and no more.\<close>

theorem free_rider_cut_off_witness:
  "\<not> fst free_ride \<and> holds sample_crates (fst (snd free_ride)) (si_fs (snd (snd free_ride))) (hash_of (blake3 sample_crates) [1, 2]) = Some [1, 2]"
proof
  let ?E = "sample_sim stingy_codec :: ((nat \<times> nat) link, unit, unit) sim_env"
  let ?s = "\<lparr>si_fs = sample_fs, si_world = stingy_link, si_counter = 0\<rparr>"
  obtain got st' s' where run: "free_ride = (got, st', s')" by (rule prod_cases3)
  let ?h1 = "hash_of (blake3 sample_crates) [1, 2]" and ?h2 = "hash_of (blake3 sample_crates) [3, 4]"
  have "strict [7] (lk_remote stingy_link)" unfolding strict_def given_def by code_simp
  then have strict: "strict [7] (lk_remote (si_world ?s))" by simp
  have hashes: "chunk_hashes (sample_packed [1, 2, 3, 4]) = [?h1, ?h2]" "?h1 \<noteq> ?h2" "hash_of (blake3 sample_crates) [] \<notin> {?h1, ?h2}" by code_simp+
  have content: "{?h1, ?h2} \<subseteq> set (chunk_hashes m)" if "check_manifest (sm_crates ?E) (sm_manifest ?E) root b = Inr m" for root b m
  proof -
    have "m = sample_packed [1, 2, 3, 4]" using that
      by (auto simp: sample_sim_parts check_manifest_def from_nptp_def from_serialized_def stingy_codec_def split: sum.splits if_splits)
    then show ?thesis using hashes(1) by simp
  qed
  have X: "hex_ok (sm_crates ?E)" "digest_ok (sm_crates ?E)" "complete_schedule (sm_sched ?E)"
    using hex_ok_sample digest_ok_sample by (simp_all add: sample_sim_parts complete_schedule_def)
  have inv: "store_inv (sm_crates ?E) [''s''] sample_store (si_fs ?s)" using sample_store_inv(1) by (simp only: sample_sim_parts sim.select_convs)
  have none: "holds (sm_crates ?E) sample_store (si_fs ?s) h = None" for h using sample_store_inv(2) by (simp only: sample_sim_parts sim.select_convs)
  have sleep: "strict [7] (lk_remote w) \<Longrightarrow> strict [7] (lk_remote (sm_sleep ?E ms w)) \<and> taken [7] (lk_remote w) \<le> taken [7] (lk_remote (sm_sleep ?E ms w))" for ms w
    by (simp only: sample_sim_parts) simp
  have fits: "fs_fits (si_fs s')" using free_ride_fits unfolding run by simp
  have ch: "?h1 \<noteq> ?h2" "hash_of (blake3 (sm_crates ?E)) [] \<notin> {?h1, ?h2}" using hashes(2,3) by (simp_all only: sample_sim_parts) simp_all
  have "\<not> got"
    by (rule free_rider_cut_off [OF X inv strict content ch none none sleep run [unfolded free_ride_def] fits])
  then show "\<not> fst free_ride" unfolding run by simp
  show "holds sample_crates (fst (snd free_ride)) (si_fs (snd (snd free_ride))) ?h1 = Some [1, 2]" by code_simp
qed

end
