(* ===== verification/Spec2Isabelle.thy ===== *)
theory Spec2Isabelle
  imports Store_Siblings Choke Fec_Download Serve_Restart Free_Rider
begin

text \<open>
  \<^bold>\<open>A verification of np2ptp.\<close>

  np2ptp distributes content addressed by the root of a Merkle tree over its chunks. A node packs files into a
  manifest and a local block store (\<open>np2ptp-core\<close>, \<open>np2ptp-store\<close>), provides and downloads them over libp2p with a
  ledger of who served whom (\<open>np2ptp-net\<close>, \<open>np2ptp-rep\<close>, \<open>np2ptp-fec\<close>), converts BitTorrent content
  (\<open>np2ptp-bridge\<close>), and is driven through a library or a daemon that speaks JSON lines (\<open>np2ptp-node\<close>). Peers,
  trackers, torrents and files on disk are untrusted; the theorems quantify over all of them.

  \<^bold>\<open>Layout.\<close> Each theory models the source files it names, definition by definition, and proves their properties.

    \<^item> \<open>Prelude\<close>: machine words (\<open>saturating_add\<close>, \<open>checked_add\<close>, ...), slices, and \<open>HashMap\<close> as an association list
      behind the interface \<open>finite_map_store\<close>. \<open>Text\<close>: UTF-8, decimal numbers, lines and splitting. \<open>Fs\<close>: files,
      directories and the \<open>std::fs\<close> calls. \<open>Crates\<close>: BLAKE3, hex and FastCDC as a parameter record, with the
      documented laws the sources rely on (\<open>digest_ok\<close>, \<open>hex_ok\<close>, \<open>cdc_ok\<close>) and one concrete instance.
    \<^item> \<open>Merkle\<close> (\<open>core/hash.rs\<close>): inclusion proofs are complete, and the root determines the chunk list unless two
      hashed messages collide. The contract of proofs is the locale \<open>inclusion_proofs\<close>.
    \<^item> \<open>Paths\<close> (\<open>core/path.rs\<close>): an accepted path stays below the directory it is joined to.
    \<^item> \<open>Manifests\<close> (\<open>core/chunk.rs\<close>, \<open>core/manifest.rs\<close>): validation is exactly tiling in unbounded arithmetic,
      reconstruction returns exactly verified content, files survive the round trip, and a root determines the bytes.
    \<^item> \<open>Store\<close> and \<open>Store_Clients\<close> (\<open>store/lib.rs\<close>): pack files, index, references, reading and writing. The store
      refines a map from hashes to blocks (locale \<open>chunk_store\<close>, interpreted on \<open>put\<close>, \<open>get\<close> and \<open>has\<close>), failed writes
      included; it survives a torn append; packing and exporting are verified and confined. \<open>Store_Siblings\<close> runs several
      handles on one directory as a transition system: lookups stay sound in every interleaving, but an entry can be lost.
    \<^item> \<open>Reputation\<close> and \<open>Receipt_Bag\<close> (\<open>rep/*.rs\<close>, \<open>net/receipts.rs\<close>): receipts are authentic, the ledger refines
      capped sums per peer, its file is replaced atomically and quarantined when corrupt, the bag keeps the best receipts.
    \<^item> \<open>Fec\<close> (\<open>fec/lib.rs\<close>): the erasure-code wrapper.
    \<^item> \<open>Net_Types\<close>, \<open>Event_Loop\<close> and \<open>Network\<close> (\<open>net/lib.rs\<close>): the wire protocol, the swarm task with one definition per
      command and event, and the handle with its downloads. \<open>Event_Loop_Props\<close>: replies are conserved in every run,
      chunks are served verified and charged, receipts are genuine and credit their subject. \<open>Downloads\<close>: a download
      stores only verified content against any network, and completes against a node that provides it (locale
      \<open>content_provider\<close>, interpreted on the swarm task's own \<open>serve\<close>). \<open>Fec_Download\<close>: the coded download ends, is
      verified, and cannot work for small contents.
    \<^item> \<open>Bencode\<close> and \<open>Bridge\<close> (\<open>bridge/*.rs\<close>): decoding and torrent parsing of hostile bytes, piece verification in
      memory and streaming, conversion and resolution.
    \<^item> \<open>Node\<close> (\<open>node/lib.rs\<close>, \<open>node/serve_set.rs\<close>): the library client, directory trees and the manifest registry.
    \<^item> \<open>Daemon_Protocol\<close> and \<open>Daemon\<close> (\<open>node/daemon/*.rs\<close>): the bounded reader cuts its input at line ends, progress is
      throttled, every request is answered exactly once in every interleaving and under panics, fetched content is
      verified, converting and providing close into a loop, unproviding retires.
    \<^item> \<open>Choke\<close>: over a whole run of the swarm task, a peer takes in chunks at most what it gave plus the threshold and
      one chunk. \<open>End_To_End\<close>: whoever knows only a content root and downloads it, from any network, exports
      the published files exactly.
    \<^item> \<open>Cli\<close> (\<open>node/main.rs\<close>, \<open>node/tracker.rs\<close>): arguments, the commands and what they print. Packing and getting
      back is the identity on a file, fetching is verified, a node keeps its identity. \<open>Serve\<close> and \<open>Serve_Restart\<close>
      (\<open>node/main.rs\<close>, \<open>node/portmap.rs\<close>): the serving session, the port mapper and the dispatch of the binary. Under
      \<open>--json\<close> the one-shot commands keep a line contract, under \<open>--no-tracker\<close> none is asked, and a server started again on
      its directory provides what it provided before.
    \<^item> \<open>Sim\<close> and \<open>Sim_Props\<close> (\<open>sim/lib.rs\<close>): the scenarios of the research harness over a world of nodes; a content it
      counts as fetched is the packed one byte for byte. \<open>Free_Rider\<close> runs its retried download against the swarm
      task: a peer that only takes never completes.

  \<^bold>\<open>State, errors, effects.\<close> Structs are records, enums datatypes, \<open>u32\<close>/\<open>u64\<close>/\<open>usize\<close> words of their width (\<open>usize\<close>
  is 64 bits), \<open>Result\<close> a sum with the error on the left. Operations pass their state explicitly: the store and the
  file system \<open>fs\<close>, the swarm \<open>'w\<close>, the network behind the handle \<open>'n\<close>, the torrent client \<open>'q\<close>. The last three are
  arbitrary: their operations are parameter records (\<open>swarm\<close>, \<open>runtime\<close>, \<open>rqbit\<close>) that may answer anything, so
  a theorem about a download holds against every peer. Ed25519, RaptorQ, SHA-1, bincode and serde codecs, the HTTP
  client and the clock are parameters too. What a theorem needs of them is a named hypothesis with a witness.

  \<^bold>\<open>Loops.\<close> Loops are structural recursion over what they iterate, or functions with a measure: the Merkle levels
  (length of the level), the coded download (decode attempts left, then symbols until the next attempt), bencode
  decoding (bytes left), the directory walk (depth of the directories left), the reader of the daemon (bytes left). The
  feeding of a piece verifier and the polling of a torrent are \<open>partial_function (option)\<close>, since they need not end for
  every parameter; the former is proved to end on every parsed torrent, the latter waits for the network. Retry and
  polling loops with a bound in the source carry that bound as a number.

  \<^bold>\<open>Concurrency.\<close> Sibling store handles and the daemon are inductive step relations with invariants by rule induction; a
  guarded section, or the effect of one daemon operation on the node's state, is one step, while the events of
  different operations interleave freely. The swarm task handles commands and events one at a time, as in the
  source, and its runs are lists of them. The concurrent chunk fetches finish in an arbitrary order (\<open>sched\<close>).

  \<^bold>\<open>Not modelled.\<close> Standard error and the usage text, the report writer of the simulation (\<open>sim/main.rs\<close>: it only
  formats numbers) and floating point, the construction of libp2p behaviours inside \<open>spawn\<close>, random key generation,
  \<open>fsync\<close>, symbolic links, the writer thread of the daemon and its grace period, tests and fuzz targets.
\<close>

end
